(* ===== verification/Prelude.thy ===== *)
theory Prelude
  imports Main "HOL-Library.Word" "HOL-Library.Sublist"
begin

unbundle bit_operations_syntax

text \<open>
  Shared vocabulary of the development: machine integers and Go strings (byte lists), big-endian
  encodings, the string functions of the Go standard library the program calls, readers over a
  byte stream with errors as sum values, buffered channels used as counting semaphores, and the
  generic interfaces (\<open>byte_codec\<close>, \<open>semaphore\<close>, \<open>step_runs\<close>) whose laws the components discharge.
\<close>

named_theorems stream_simps \<open>rewriting rules of the stream readers\<close>
named_theorems addr_simps \<open>rewriting rules of the netip model\<close>

section \<open>Machine integers and Go strings\<close>

type_synonym byte = "8 word"
type_synonym u16 = "16 word"
type_synonym u32 = "32 word"
type_synonym u64 = "64 word"
type_synonym gostring = "byte list"

text \<open>Go string literals are byte sequences.\<close>

definition bytes_of :: "string \<Rightarrow> gostring" where
  "bytes_of s = map of_char s"

text \<open>Go's \<open>uint\<close> subtraction on 64-bit platforms, with the wrap-around written out.\<close>

definition usub :: "nat \<Rightarrow> nat \<Rightarrow> nat" where
  "usub a b = (if b \<le> a then a - b else a + 2 ^ 64 - b)"

text \<open>
  \<open>binary.BigEndian\<close>: \<open>be_bytes n w\<close> is the \<open>n\<close>-byte big-endian encoding of \<open>w\<close> and
  \<open>be_word\<close> reads such bytes back.
\<close>

primrec be_bytes :: "nat \<Rightarrow> 'a::len word \<Rightarrow> byte list" where
  "be_bytes 0 w = []"
| "be_bytes (Suc n) w = ucast (drop_bit (8 * n) w) # be_bytes n w"

definition be_word :: "byte list \<Rightarrow> 'a::len word" where
  "be_word bs = foldl (\<lambda>acc b. push_bit 8 acc OR ucast b) 0 bs"

section \<open>Standard-library string functions\<close>

definition HasPrefix :: "gostring \<Rightarrow> gostring \<Rightarrow> bool" where
  "HasPrefix s p \<longleftrightarrow> prefix p s"

definition HasSuffix :: "gostring \<Rightarrow> gostring \<Rightarrow> bool" where
  "HasSuffix s p \<longleftrightarrow> suffix p s"

definition TrimPrefix :: "gostring \<Rightarrow> gostring \<Rightarrow> gostring" where
  "TrimPrefix s p = (if HasPrefix s p then drop (length p) s else s)"

definition TrimSuffix :: "gostring \<Rightarrow> gostring \<Rightarrow> gostring" where
  "TrimSuffix s p = (if HasSuffix s p then take (length s - length p) s else s)"

definition CutPrefix :: "gostring \<Rightarrow> gostring \<Rightarrow> gostring \<times> bool" where
  "CutPrefix s p = (if HasPrefix s p then (drop (length p) s, True) else (s, False))"

fun Contains :: "gostring \<Rightarrow> gostring \<Rightarrow> bool" where
  "Contains [] p \<longleftrightarrow> p = []"
| "Contains (c # s) p \<longleftrightarrow> prefix p (c # s) \<or> Contains s p"

text \<open>\<open>strings.ToLower\<close> on ASCII letters (other bytes of the names handled here are kept).\<close>

definition lower_byte :: "byte \<Rightarrow> byte" where
  "lower_byte b = (if 65 \<le> b \<and> b \<le> 90 then b + 32 else b)"

definition ToLower :: "gostring \<Rightarrow> gostring" where
  "ToLower s = map lower_byte s"

text \<open>
  \<open>strconv.ParseUint(s, 10, bits)\<close>: a non-empty digit string whose value fits in \<open>bits\<close> bits;
  no sign, no underscore, no space.
\<close>

definition is_digit :: "byte \<Rightarrow> bool" where
  "is_digit b \<longleftrightarrow> 48 \<le> b \<and> b \<le> 57"

definition digits_value :: "gostring \<Rightarrow> nat" where
  "digits_value s = foldl (\<lambda>acc b. 10 * acc + (unat b - 48)) 0 s"

definition ParseUint :: "nat \<Rightarrow> gostring \<Rightarrow> nat option" where
  "ParseUint bits s =
     (if s \<noteq> [] \<and> list_all is_digit s \<and> digits_value s < 2 ^ bits
      then Some (digits_value s) else None)"

section \<open>Errors\<close>

text \<open>The error values the program distinguishes; a fallible function returns \<open>Inl\<close> of one.\<close>

datatype go_error =
    EOF
  | UnexpectedEOF
  | ShortWrite
  | NetErrClosed
  | CtxErr
  | IOError nat
  | UnsupportedVersion byte
  | UnsupportedAddressType byte
  | UnsupportedCommand byte
  | UnsupportedReply byte
  | UnsupportedSubnegotiation byte
  | InvalidStatus byte
  | DomainTooLong nat
  | BadCredentials
  | NoAcceptableMethods
  | AssociationLimit
  | Message string

type_synonym 'a res = "go_error + 'a"

section \<open>Readers\<close>

text \<open>
  A reader runs on the bytes its peer has still to deliver before closing its side. \<open>io.ReadFull\<close>
  fails with \<open>io.EOF\<close> when nothing is left and with \<open>io.ErrUnexpectedEOF\<close> on a partial read;
  every caller in the program stops at the first error.
\<close>

type_synonym 'a reader = "byte list \<Rightarrow> ('a \<times> byte list) res"

definition rret :: "'a \<Rightarrow> 'a reader" where
  "rret a s = Inr (a, s)"

definition rfail :: "go_error \<Rightarrow> 'a reader" where
  "rfail e s = Inl e"

definition rbind :: "'a reader \<Rightarrow> ('a \<Rightarrow> 'b reader) \<Rightarrow> 'b reader" where
  "rbind m f s = (case m s of Inl e \<Rightarrow> Inl e | Inr (a, s') \<Rightarrow> f a s')"

definition ReadFull :: "nat \<Rightarrow> byte list reader" where
  "ReadFull n s =
     (if n \<le> length s then Inr (take n s, drop n s)
      else if s = [] then Inl EOF else Inl UnexpectedEOF)"

section \<open>Buffered channels of empty structs\<close>

text \<open>
  The program uses \<open>chan struct{}\<close> values only as counting semaphores; the state of one is its
  capacity and the number of elements it holds. A receive from an empty channel blocks, so
  \<open>chan_recv\<close> is partial.
\<close>

record chan =
  ch_cap :: nat
  ch_len :: nat

definition chan_make :: "nat \<Rightarrow> chan" where
  "chan_make n = \<lparr>ch_cap = n, ch_len = 0\<rparr>"

definition chan_try_send :: "chan \<Rightarrow> chan option" where
  "chan_try_send c = (if ch_len c < ch_cap c then Some (c\<lparr>ch_len := Suc (ch_len c)\<rparr>) else None)"

definition chan_recv :: "chan \<Rightarrow> chan option" where
  "chan_recv c = (if 0 < ch_len c then Some (c\<lparr>ch_len := ch_len c - 1\<rparr>) else None)"

definition chan_wf :: "chan \<Rightarrow> bool" where
  "chan_wf c \<longleftrightarrow> ch_len c \<le> ch_cap c"

section \<open>Lemmas on words and bytes\<close>

lemma unat_u64_less: "unat (x :: u64) < 2 ^ 64"
  using unsigned_less [of x, where ?'a = nat] by simp

lemma unat_u32_less: "unat (x :: u32) < 2 ^ 32"
  using unsigned_less [of x, where ?'a = nat] by simp

lemma length_be_bytes [simp]: "length (be_bytes n w) = n"
  by (induction n) auto

lemma be_word_Nil [simp]: "be_word [] = 0"
  by (simp add: be_word_def)

lemma be_word_snoc: "be_word (bs @ [b]) = push_bit 8 (be_word bs) OR ucast b"
  by (simp add: be_word_def)

lemma bit_be_word [bit_simps]:
  "bit (be_word bs :: 'a::len word) k \<longleftrightarrow>
     k < LENGTH('a) \<and> k < 8 * length bs \<and> bit (bs ! (length bs - 1 - k div 8)) (k mod 8)"
proof (induction bs arbitrary: k rule: rev_induct)
  case Nil
  then show ?case by simp
next
  case (snoc b bs)
  show ?case
  proof (cases "k < 8")
    case True
    then show ?thesis
      by (auto simp: be_word_snoc bit_or_iff bit_push_bit_iff bit_ucast_iff nth_append)
  next
    case False
    then obtain m where m: "k = m + 8" by (metis add.commute le_add_diff_inverse not_less)
    have d: "(m + 8) div 8 = Suc (m div 8)" by simp
    have b: "\<not> bit b (m + 8)"
      using bit_imp_le_length [of b "m + 8"] by auto
    have "length bs - Suc (m div 8) < length bs" if "m < 8 * length bs"
      using that by (cases bs) (auto simp: less_Suc_eq_le)
    then show ?thesis
      using b by (auto simp: m d be_word_snoc bit_or_iff bit_push_bit_iff bit_ucast_iff snoc nth_append
          possible_bit_word)
  qed
qed

lemma nth_be_bytes: "i < n \<Longrightarrow> be_bytes n w ! i = ucast (drop_bit (8 * (n - 1 - i)) w)"
proof (induction n arbitrary: i)
  case (Suc n)
  then show ?case by (cases i) auto
qed simp

lemma be_word_be_bytes:
  assumes "LENGTH('a) = 8 * n"
  shows "be_word (be_bytes n w) = (w :: 'a::len word)"
proof (rule bit_word_eqI)
  fix k assume k: "k < LENGTH('a)"
  then have d: "k div 8 < n" using assms by auto
  then have "n - 1 - (n - 1 - k div 8) = k div 8" by auto
  then show "bit (be_word (be_bytes n w) :: 'a word) k = bit w k"
    using k d assms
    by (auto simp: bit_be_word nth_be_bytes bit_ucast_iff bit_drop_bit_eq)
qed

lemma be_bytes_be_word:
  assumes "length bs = n" "8 * n \<le> LENGTH('a)"
  shows "be_bytes n (be_word bs :: 'a::len word) = bs"
proof (rule nth_equalityI)
  show "length (be_bytes n (be_word bs :: 'a word)) = length bs" using assms by simp
next
  fix i assume "i < length (be_bytes n (be_word bs :: 'a word))"
  then have i: "i < n" by simp
  show "be_bytes n (be_word bs :: 'a word) ! i = bs ! i"
  proof (rule bit_word_eqI)
    fix k assume "k < LENGTH(8)"
    then have k: "k < 8" by simp
    have "(8 * (n - 1 - i) + k) div 8 = n - 1 - i" "(8 * (n - 1 - i) + k) mod 8 = k"
      using k by simp_all
    moreover have "n - 1 - (n - 1 - i) = i" "8 * (n - 1 - i) + k < 8 * n"
      using i k by auto
    ultimately show "bit (be_bytes n (be_word bs :: 'a word) ! i) k = bit (bs ! i) k"
      using assms i k
      by (auto simp: nth_be_bytes bit_ucast_iff bit_drop_bit_eq bit_be_word)
  qed
qed

lemma drop_bit_xor_eq_0:
  fixes w v :: "'a::len word"
  shows "drop_bit k (w XOR v) = 0 \<longleftrightarrow> (\<forall>n. k \<le> n \<longrightarrow> n < LENGTH('a) \<longrightarrow> bit v n = bit w n)"
proof
  assume eq: "drop_bit k (w XOR v) = 0"
  show "\<forall>n. k \<le> n \<longrightarrow> n < LENGTH('a) \<longrightarrow> bit v n = bit w n"
  proof (intro allI impI)
    fix n assume "k \<le> n" "n < LENGTH('a)"
    moreover have "\<not> bit (drop_bit k (w XOR v)) (n - k)" using eq by simp
    ultimately show "bit v n = bit w n" by (auto simp: bit_drop_bit_eq bit_xor_iff)
  qed
next
  assume "\<forall>n. k \<le> n \<longrightarrow> n < LENGTH('a) \<longrightarrow> bit v n = bit w n"
  then have "bit v (k + n) = bit w (k + n)" for n
    using bit_imp_le_length [of v "k + n"] bit_imp_le_length [of w "k + n"] by auto
  then show "drop_bit k (w XOR v) = 0"
    by (intro bit_word_eqI) (simp add: bit_drop_bit_eq bit_xor_iff)
qed

lemma xor_and_not_mask_eq_0:
  fixes w v :: "'a::len word"
  shows "(w XOR v) AND NOT (mask k) = 0 \<longleftrightarrow>
    (\<forall>n. k \<le> n \<longrightarrow> n < LENGTH('a) \<longrightarrow> bit v n = bit w n)"
proof
  assume eq: "(w XOR v) AND NOT (mask k) = 0"
  show "\<forall>n. k \<le> n \<longrightarrow> n < LENGTH('a) \<longrightarrow> bit v n = bit w n"
  proof (intro allI impI)
    fix n assume "k \<le> n" "n < LENGTH('a)"
    moreover have "\<not> bit ((w XOR v) AND NOT (mask k)) n" using eq by simp
    ultimately show "bit v n = bit w n"
      by (auto simp: bit_and_iff bit_not_iff bit_mask_iff bit_xor_iff possible_bit_word)
  qed
next
  assume "\<forall>n. k \<le> n \<longrightarrow> n < LENGTH('a) \<longrightarrow> bit v n = bit w n"
  then show "(w XOR v) AND NOT (mask k) = 0"
    by (intro bit_word_eqI) (auto simp: bit_and_iff bit_not_iff bit_mask_iff bit_xor_iff)
qed

section \<open>Lemmas on readers, strings and channels\<close>

lemma reader_simps [simp, stream_simps]:
  "rret a s = Inr (a, s)"
  "rfail e s = Inl e"
  by (simp_all add: rret_def rfail_def)

lemma rbind_Inr [simp, stream_simps]: "m s = Inr (a, s') \<Longrightarrow> rbind m f s = f a s'"
  by (simp add: rbind_def)

lemma rbind_Inl [simp, stream_simps]: "m s = Inl e \<Longrightarrow> rbind m f s = Inl e"
  by (simp add: rbind_def)

lemma rbind_eq_Inr:
  "rbind m f s = Inr (b, s'') \<longleftrightarrow> (\<exists>a s'. m s = Inr (a, s') \<and> f a s' = Inr (b, s''))"
  by (auto simp: rbind_def split: sum.splits)

lemma ReadFull_append [simp, stream_simps]:
  "length bs = n \<Longrightarrow> ReadFull n (bs @ rest) = Inr (bs, rest)"
  by (auto simp: ReadFull_def)

lemma ReadFull_eq_Inr:
  "ReadFull n s = Inr (bs, s') \<longleftrightarrow> s = bs @ s' \<and> length bs = n"
  by (auto simp: ReadFull_def)

lemma ReadFull_0 [simp]: "ReadFull 0 s = Inr ([], s)"
  by (simp add: ReadFull_def)

lemma HasPrefix_iff: "HasPrefix s p \<longleftrightarrow> (\<exists>r. s = p @ r)"
  by (auto simp: HasPrefix_def prefix_def)

lemma HasPrefix_append [simp]: "HasPrefix (p @ r) p"
  by (simp add: HasPrefix_def)

lemma CutPrefix_append [simp]: "CutPrefix (p @ r) p = (r, True)"
  by (simp add: CutPrefix_def)

lemma TrimPrefix_append [simp]: "TrimPrefix (p @ r) p = r"
  by (simp add: TrimPrefix_def)

lemma Contains_iff: "Contains s p \<longleftrightarrow> sublist p s"
  by (induction s) (auto simp: sublist_Cons_right)

lemma Contains_append [simp]: "Contains (a @ p @ b) p"
  by (simp add: Contains_iff sublist_appendI)

lemma sum_list_map_update:
  fixes f :: "'a \<Rightarrow> 'b :: comm_monoid_add"
  assumes "i < length xs"
  shows "sum_list (map f (xs[i := y])) + f (xs ! i) = sum_list (map f xs) + f y"
  using assms by (induction xs arbitrary: i) (auto simp: ac_simps split: nat.splits)

lemma usub_le [simp]: "b \<le> a \<Longrightarrow> usub a b = a - b"
  by (simp add: usub_def)

lemma chan_try_send_wf: "chan_wf c \<Longrightarrow> chan_try_send c = Some c' \<Longrightarrow> chan_wf c'"
  by (auto simp: chan_wf_def chan_try_send_def split: if_splits)

lemma chan_recv_wf: "chan_wf c \<Longrightarrow> chan_recv c = Some c' \<Longrightarrow> chan_wf c'"
  by (auto simp: chan_wf_def chan_recv_def split: if_splits)

section \<open>The codec interface\<close>

text \<open>
  A wire format: \<open>enc\<close> serializes (or refuses), \<open>dec\<close> reads one value off a stream. The clients
  of a codec use only that a well-formed value is read back unchanged and that nothing beyond it is
  consumed.
\<close>

primrec encode_all :: "('a \<Rightarrow> byte list res) \<Rightarrow> 'a list \<Rightarrow> byte list res" where
  "encode_all enc [] = Inr []"
| "encode_all enc (x # xs) =
     (case enc x of
        Inl e \<Rightarrow> Inl e
      | Inr b \<Rightarrow> (case encode_all enc xs of Inl e \<Rightarrow> Inl e | Inr bs \<Rightarrow> Inr (b @ bs)))"

primrec read_many :: "'a reader \<Rightarrow> nat \<Rightarrow> 'a list reader" where
  "read_many dec 0 = rret []"
| "read_many dec (Suc n) = rbind dec (\<lambda>x. rbind (read_many dec n) (\<lambda>xs. rret (x # xs)))"

locale byte_codec =
  fixes enc :: "'a \<Rightarrow> byte list res"
    and dec :: "'a reader"
    and wf :: "'a \<Rightarrow> bool"
  assumes enc_total: "wf a \<Longrightarrow> \<exists>bs. enc a = Inr bs"
    and dec_enc: "wf a \<Longrightarrow> enc a = Inr bs \<Longrightarrow> dec (bs @ rest) = Inr (a, rest)"
begin

lemma enc_prefix_free:
  assumes "wf a" "wf b" "enc a = Inr x" "enc b = Inr (x @ y)"
  shows "a = b \<and> y = []"
proof -
  have "dec ((x @ y) @ []) = Inr (b, [])" using assms dec_enc by blast
  moreover have "dec (x @ y) = Inr (a, y)" using assms dec_enc by blast
  ultimately show ?thesis by simp
qed

lemma enc_inj: "wf a \<Longrightarrow> wf b \<Longrightarrow> enc a = enc b \<Longrightarrow> a = b"
proof -
  assume ab: "wf a" "wf b" "enc a = enc b"
  then obtain x where x: "enc a = Inr x" using enc_total by blast
  with ab(3) have "enc b = Inr (x @ [])" by simp
  from enc_prefix_free [OF ab(1,2) x this] show "a = b" ..
qed

lemma read_many_encode_all:
  "list_all wf xs \<Longrightarrow> encode_all enc xs = Inr bs
     \<Longrightarrow> read_many dec (length xs) (bs @ rest) = Inr (xs, rest)"
proof (induction xs arbitrary: bs)
  case (Cons x xs)
  then obtain b bs' where "enc x = Inr b" "encode_all enc xs = Inr bs'" "bs = b @ bs'"
    by (auto split: sum.splits)
  with Cons dec_enc [of x b "bs' @ rest"] show ?case by simp
qed simp

end

text \<open>
  A canonical codec accepts nothing but its own encodings, so a value determines the bytes it was
  read from.
\<close>

locale canonical_codec = byte_codec +
  assumes enc_dec: "dec s = Inr (a, rest) \<Longrightarrow> wf a \<and> (\<exists>bs. enc a = Inr bs \<and> s = bs @ rest)"
begin

lemma dec_iff:
  "dec s = Inr (a, rest) \<longleftrightarrow> wf a \<and> (\<exists>bs. enc a = Inr bs \<and> s = bs @ rest)"
  using dec_enc enc_dec by blast

lemma dec_shrinks: "dec s = Inr (a, rest) \<Longrightarrow> length rest \<le> length s"
  by (auto dest!: enc_dec)

end

section \<open>The counting-semaphore interface\<close>

datatype sem_op = Acquire_op | Release_op

primrec sem_run :: "('s \<Rightarrow> 's option) \<Rightarrow> ('s \<Rightarrow> 's option) \<Rightarrow> sem_op list \<Rightarrow> 's \<Rightarrow> 's" where
  "sem_run acq rel [] s = s"
| "sem_run acq rel (x # xs) s =
     sem_run acq rel xs
       (case (case x of Acquire_op \<Rightarrow> acq s | Release_op \<Rightarrow> rel s) of None \<Rightarrow> s | Some s' \<Rightarrow> s')"

locale semaphore =
  fixes cap :: "'s \<Rightarrow> nat"
    and used :: "'s \<Rightarrow> nat"
    and acquire :: "'s \<Rightarrow> 's option"
    and release :: "'s \<Rightarrow> 's option"
    and invar :: "'s \<Rightarrow> bool"
  assumes used_le: "invar s \<Longrightarrow> used s \<le> cap s"
    and acquire_None: "invar s \<Longrightarrow> acquire s = None \<longleftrightarrow> used s = cap s"
    and acquire_Some: "invar s \<Longrightarrow> acquire s = Some s' \<Longrightarrow>
          invar s' \<and> cap s' = cap s \<and> used s' = Suc (used s)"
    and release_None: "invar s \<Longrightarrow> release s = None \<longleftrightarrow> used s = 0"
    and release_Some: "invar s \<Longrightarrow> release s = Some s' \<Longrightarrow>
          invar s' \<and> cap s' = cap s \<and> Suc (used s') = used s"
begin

lemma run_keeps:
  "invar s \<Longrightarrow> invar (sem_run acquire release ops s) \<and> cap (sem_run acquire release ops s) = cap s"
proof (induction ops arbitrary: s)
  case (Cons x xs)
  define r where "r = (case x of Acquire_op \<Rightarrow> acquire s | Release_op \<Rightarrow> release s)"
  show ?case
  proof (cases r)
    case None
    with Cons show ?thesis by (simp add: r_def)
  next
    case (Some t)
    have "invar t \<and> cap t = cap s"
    proof (cases x)
      case Acquire_op
      with Some acquire_Some [OF Cons.prems, of t] show ?thesis by (simp add: r_def)
    next
      case Release_op
      with Some release_Some [OF Cons.prems, of t] show ?thesis by (simp add: r_def)
    qed
    with Cons.IH [of t] Some show ?thesis by (simp add: r_def)
  qed
qed simp

lemma run_bounded: "invar s \<Longrightarrow> used (sem_run acquire release ops s) \<le> cap s"
  using run_keeps [of s ops] used_le [of "sem_run acquire release ops s"] by simp

lemma release_then_acquire: "invar s \<Longrightarrow> release s = Some s' \<Longrightarrow> acquire s' \<noteq> None"
proof -
  assume s: "invar s" "release s = Some s'"
  then have s': "invar s'" "cap s' = cap s" "Suc (used s') = used s" using release_Some by auto
  with used_le [OF s(1)] have "used s' \<noteq> cap s'" by simp
  with acquire_None [OF s'(1)] show ?thesis by simp
qed

end

interpretation ch: semaphore ch_cap ch_len chan_try_send chan_recv chan_wf
  by unfold_locales (auto simp: chan_wf_def chan_try_send_def chan_recv_def split: if_split_asm)

section \<open>Runs\<close>

text \<open>
  The concurrent components are step functions, \<open>None\<close> when a step is not possible, and their runs over lists of events. What every step
  keeps holds after a run.
\<close>

locale step_runs =
  fixes step :: "'e \<Rightarrow> 's \<Rightarrow> 's option" and run :: "'s \<Rightarrow> 'e list \<Rightarrow> 's option"
  assumes run_Nil: "run s [] = Some s"
    and run_Cons: "run s (e # es) = (case step e s of None \<Rightarrow> None | Some s' \<Rightarrow> run s' es)"
begin

lemma run_invariant:
  "run s es = Some s' \<Longrightarrow> I s \<Longrightarrow> (\<And>e t t'. e \<in> set es \<Longrightarrow> I t \<Longrightarrow> step e t = Some t' \<Longrightarrow> I t') \<Longrightarrow> I s'"
proof (induction es arbitrary: s)
  case (Cons e es)
  then obtain t where t: "step e s = Some t" "run t es = Some s'" by (auto simp: run_Cons split: option.splits)
  have "I t" using Cons.prems(2,3) t(1) by auto
  then show ?case using Cons.IH [OF t(2)] Cons.prems(3) by auto
qed (simp add: run_Nil)

lemma run_append: "run s (es @ fs) = (case run s es of None \<Rightarrow> None | Some t \<Rightarrow> run t fs)"
  by (induction es arbitrary: s) (auto simp: run_Nil run_Cons split: option.splits)

end

end
