(* ===== verification/Ext.thy ===== *)
theory Ext
  imports Prelude
begin

unbundle bit_operations_syntax

text \<open>
  Model of \<open>internal/ext/ext.go\<close>: the FxHash64 function and the parser of proxy-username extensions
  (session, ttl, range). The clock reading of \<open>parseTTL\<close> is a parameter.
\<close>

section \<open>Definitions\<close>

datatype ExtensionType = ExtNone | ExtTTL | ExtRange | ExtSession

record Extension =
  ext_type :: ExtensionType
  ext_value :: u64

definition None_ext :: Extension where
  "None_ext = \<lparr>ext_type = ExtNone, ext_value = 0\<rparr>"

definition extTTL :: gostring where
  "extTTL = bytes_of ''-ttl-''"

definition extSession :: gostring where
  "extSession = bytes_of ''-session-''"

definition extRange :: gostring where
  "extRange = bytes_of ''-range-''"

definition rotl64 :: "u64 \<Rightarrow> nat \<Rightarrow> u64" where
  "rotl64 x r = push_bit r x OR drop_bit (64 - r) x"

definition fx_mult :: u64 where
  "fx_mult = 0x517cc1b727220a95"

text \<open>\<open>n := uint64(d[0]) | uint64(d[1])<<8 | ...\<close>\<close>

definition le_word :: "byte list \<Rightarrow> u64" where
  "le_word bs = foldr (\<lambda>b acc. ucast b OR push_bit 8 acc) bs 0"

definition fx_mix :: "u64 \<Rightarrow> u64 \<Rightarrow> u64" where
  "fx_mix hash n = (rotl64 hash 5 XOR n) * fx_mult"

function fx_blocks :: "u64 \<Rightarrow> byte list \<Rightarrow> u64 \<times> byte list" where
  "fx_blocks hash data =
     (if 8 \<le> length data then fx_blocks (fx_mix hash (le_word (take 8 data))) (drop 8 data)
      else (hash, data))"
  by pat_completeness auto
termination
  by (relation "measure (\<lambda>(hash, data). length data)") auto

declare fx_blocks.simps [simp del]

text \<open>One conditional step of the tail: consume \<open>k\<close> bytes when at least \<open>k\<close> are left.\<close>

definition fx_tail :: "nat \<Rightarrow> u64 \<times> byte list \<Rightarrow> u64 \<times> byte list" where
  "fx_tail k st = (case st of (hash, rem) \<Rightarrow>
     if k \<le> length rem then (fx_mix hash (le_word (take k rem)), drop k rem) else (hash, rem))"

definition fxHash64 :: "byte list \<Rightarrow> u64" where
  "fxHash64 data = fst (fx_tail 1 (fx_tail 2 (fx_tail 4 (fx_blocks 0 data))))"

definition parseTTL :: "u64 \<Rightarrow> gostring \<Rightarrow> Extension" where
  "parseTTL now s = (case ParseUint 64 s of
      None \<Rightarrow> None_ext
    | Some n \<Rightarrow>
       (let ttl = (of_nat n :: u64) in
        if ttl = 0 then None_ext
        else let window = now - (now mod ttl) in
          \<lparr>ext_type = ExtTTL, ext_value = fxHash64 (be_bytes 8 window)\<rparr>))"

definition TryFrom :: "u64 \<Rightarrow> gostring \<Rightarrow> gostring \<Rightarrow> Extension" where
  "TryFrom now pfx full =
     (let (extracted, hasPrefix) = CutPrefix full pfx in
      if \<not> hasPrefix then None_ext
      else if Contains full extSession
        then \<lparr>ext_type = ExtSession, ext_value = fxHash64 full\<rparr>
      else if Contains extracted extTTL
        then parseTTL now (TrimPrefix extracted extTTL)
      else if Contains extracted extRange
        then \<lparr>ext_type = ExtRange, ext_value = fxHash64 (TrimPrefix extracted extRange)\<rparr>
      else None_ext)"

section \<open>Hashing one block\<close>

lemma fx_mult_inverse: "fx_mult * 2323857671730065597 = 1"
  by (simp add: fx_mult_def)

lemma fx_mult_cancel: "x * fx_mult = y * fx_mult \<longleftrightarrow> x = y"
proof
  assume "x * fx_mult = y * fx_mult"
  from arg_cong [OF this, of "\<lambda>z. z * 2323857671730065597"]
  show "x = y" by (simp only: mult.assoc fx_mult_inverse mult_1_right)
qed simp

lemma le_word_Cons [simp]: "le_word (b # bs) = ucast b OR push_bit 8 (le_word bs)"
  by (simp add: le_word_def)

lemma le_word_be_word: "le_word bs = be_word (rev bs)"
  by (induction bs) (simp_all add: le_word_def be_word_snoc or.commute)

lemma le_word_inject:
  assumes "length as = 8" "length bs = 8"
  shows "le_word as = le_word bs \<longleftrightarrow> as = bs"
proof
  assume "le_word as = le_word bs"
  then have "be_bytes 8 (be_word (rev as) :: u64) = be_bytes 8 (be_word (rev bs) :: u64)"
    by (simp add: le_word_be_word)
  then have "rev as = rev bs" using assms by (simp add: be_bytes_be_word)
  then show "as = bs" by simp
qed simp

lemma fxHash64_block: "length data = 8 \<Longrightarrow> fxHash64 data = le_word data * fx_mult"
  by (simp add: fxHash64_def fx_blocks.simps [of 0 data] fx_blocks.simps [of _ "[]"] fx_tail_def
      fx_mix_def rotl64_def)

lemma fxHash64_block_inject:
  "length as = 8 \<Longrightarrow> length bs = 8 \<Longrightarrow> fxHash64 as = fxHash64 bs \<longleftrightarrow> as = bs"
  by (simp add: fxHash64_block fx_mult_cancel le_word_inject)

lemma be_bytes_inject:
  "LENGTH('a) = 8 * n \<Longrightarrow> be_bytes n (v :: 'a::len word) = be_bytes n w \<longleftrightarrow> v = w"
  by (metis be_word_be_bytes)

section \<open>Time windows\<close>

lemma window_eq_iff:
  fixes now now' ttl :: u64
  assumes "ttl \<noteq> 0"
  shows "now - now mod ttl = now' - now' mod ttl \<longleftrightarrow> now div ttl = now' div ttl"
proof -
  have w: "x - x mod ttl = (x div ttl) * ttl" for x :: u64
    by (metis add_diff_cancel_right' div_mult_mod_eq)
  have u: "unat ((x div ttl) * ttl) = unat (x div ttl) * unat ttl" for x :: u64
  proof -
    have "unat (x div ttl) * unat ttl \<le> unat x"
      by (simp add: unat_div)
    also have "\<dots> < 2 ^ 64" using unsigned_less [of x] by simp
    finally show ?thesis by (simp add: unat_word_ariths)
  qed
  show ?thesis
  proof
    assume "now - now mod ttl = now' - now' mod ttl"
    then have "unat (now div ttl) * unat ttl = unat (now' div ttl) * unat ttl"
      using w u by metis
    moreover have "0 < unat ttl" using assms by (simp add: unat_gt_0)
    ultimately show "now div ttl = now' div ttl" by (simp add: word_unat_eq_iff)
  qed (simp add: w)
qed

section \<open>Behaviour of the parser\<close>

lemma TryFrom_no_prefix: "\<not> HasPrefix full pfx \<Longrightarrow> TryFrom now pfx full = None_ext"
  by (simp add: TryFrom_def CutPrefix_def)

lemma TryFrom_append:
  "TryFrom now pfx (pfx @ r) =
     (if Contains (pfx @ r) extSession
        then \<lparr>ext_type = ExtSession, ext_value = fxHash64 (pfx @ r)\<rparr>
      else if Contains r extTTL then parseTTL now (TrimPrefix r extTTL)
      else if Contains r extRange
        then \<lparr>ext_type = ExtRange, ext_value = fxHash64 (TrimPrefix r extRange)\<rparr>
      else None_ext)"
  by (simp add: TryFrom_def)

lemma parseTTL_Some:
  assumes "ParseUint 64 s = Some n" "0 < n"
  shows "parseTTL now s =
    \<lparr>ext_type = ExtTTL, ext_value = fxHash64 (be_bytes 8 (now - now mod of_nat n))\<rparr>"
proof -
  have "n < 2 ^ 64" using assms(1) by (auto simp: ParseUint_def split: if_splits)
  then have "unat (of_nat n :: u64) = n" by (simp add: unat_of_nat take_bit_eq_mod)
  then have "(of_nat n :: u64) \<noteq> 0" using assms(2) by auto
  then show ?thesis using assms by (simp add: parseTTL_def Let_def)
qed

section \<open>Properties\<close>

text \<open>
  A user name \<open>prefix-ttl-N\<close> carries a TTL extension whose value is the same at two instants
  exactly when they fall in the same window of \<open>N\<close> seconds: the hash of an 8-byte window start is
  injective, so no two windows share a value.
\<close>

theorem ttl_value_iff_window:
  assumes "ParseUint 64 d = Some n" "0 < n" "\<not> Contains (pfx @ extTTL @ d) extSession"
  shows "ext_type (TryFrom now pfx (pfx @ extTTL @ d)) = ExtTTL \<and>
    (TryFrom now pfx (pfx @ extTTL @ d) = TryFrom now' pfx (pfx @ extTTL @ d) \<longleftrightarrow>
     unat now div n = unat now' div n)"
proof -
  have "n < 2 ^ 64" using assms(1) by (auto simp: ParseUint_def split: if_splits)
  then have n: "unat (of_nat n :: u64) = n" by (simp add: unat_of_nat take_bit_eq_mod)
  then have nz: "(of_nat n :: u64) \<noteq> 0" using assms(2) by auto
  have t: "TryFrom x pfx (pfx @ extTTL @ d) =
      \<lparr>ext_type = ExtTTL, ext_value = fxHash64 (be_bytes 8 (x - x mod of_nat n))\<rparr>" for x
    using assms Contains_append [of "[]" extTTL d] by (simp add: TryFrom_append parseTTL_Some)
  have "now div of_nat n = now' div of_nat n \<longleftrightarrow> unat now div n = unat now' div n"
    by (simp add: word_unat_eq_iff unat_div n)
  then show ?thesis
    unfolding t using window_eq_iff [OF nz, of now now']
    by (simp add: fxHash64_block_inject be_bytes_inject)
qed

theorem ttl_value_iff_window_witness:
  "TryFrom 1000 (bytes_of ''u'') (bytes_of ''u-ttl-60'') = TryFrom 1019 (bytes_of ''u'') (bytes_of ''u-ttl-60'') \<and>
   TryFrom 1000 (bytes_of ''u'') (bytes_of ''u-ttl-60'') \<noteq> TryFrom 1020 (bytes_of ''u'') (bytes_of ''u-ttl-60'')"
proof -
  have s: "bytes_of ''u-ttl-60'' = bytes_of ''u'' @ extTTL @ bytes_of ''60''"
    "\<not> Contains (bytes_of ''u'' @ extTTL @ bytes_of ''60'') extSession"
    by code_simp+
  have "ParseUint 64 (bytes_of ''60'') = Some 60"
    by (simp add: ParseUint_def digits_value_def is_digit_def bytes_of_def)
  note w = ttl_value_iff_window [OF this _ s(2)]
  show ?thesis using w [of 1000 1019] w [of 1000 1020] by (simp add: s(1))
qed

end
