(* ===== verification/Netip.thy ===== *)
theory Netip
  imports Prelude
begin

unbundle bit_operations_syntax

text \<open>
  The part of the Go packages \<open>net/netip\<close> and \<open>net\<close> that the program uses: addresses, address/port
  pairs, CIDR prefixes and UDP socket addresses. An IPv6 address carries a zone, as \<open>netip.Addr\<close> does;
  \<open>==\<close> on Go addresses is equality of the model values.
\<close>

section \<open>Addresses\<close>

type_synonym u128 = "128 word"

datatype addr =
    ZeroAddr
  | V4 u32
  | V6 u128 gostring

record addr_port =
  ap_addr :: addr
  ap_port :: u16

definition AddrPortFrom :: "addr \<Rightarrow> u16 \<Rightarrow> addr_port" where
  "AddrPortFrom a p = \<lparr>ap_addr = a, ap_port = p\<rparr>"

definition Is4 :: "addr \<Rightarrow> bool" where
  "Is4 a = (case a of V4 _ \<Rightarrow> True | _ \<Rightarrow> False)"

definition Is6 :: "addr \<Rightarrow> bool" where
  "Is6 a = (case a of V6 _ _ \<Rightarrow> True | _ \<Rightarrow> False)"

definition Is4In6 :: "addr \<Rightarrow> bool" where
  "Is4In6 a = (case a of V6 w _ \<Rightarrow> drop_bit 32 w = 0xffff | _ \<Rightarrow> False)"

definition IsValid :: "addr \<Rightarrow> bool" where
  "IsValid a \<longleftrightarrow> a \<noteq> ZeroAddr"

definition Zone :: "addr \<Rightarrow> gostring" where
  "Zone a = (case a of V6 _ z \<Rightarrow> z | _ \<Rightarrow> [])"

definition Unmap :: "addr \<Rightarrow> addr" where
  "Unmap a = (case a of V6 w _ \<Rightarrow> (if Is4In6 a then V4 (ucast w) else a) | _ \<Rightarrow> a)"

definition BitLen :: "addr \<Rightarrow> nat" where
  "BitLen a = (case a of ZeroAddr \<Rightarrow> 0 | V4 _ \<Rightarrow> 32 | V6 _ _ \<Rightarrow> 128)"

definition IPv4Unspecified :: addr where
  "IPv4Unspecified = V4 0"

definition IsUnspecified :: "addr \<Rightarrow> bool" where
  "IsUnspecified a \<longleftrightarrow> a = V4 0 \<or> a = V6 0 []"

text \<open>
  Byte views. \<open>As4\<close> panics on the zero address and on an IPv6 address that is not IPv4-mapped; the
  program calls it only after \<open>Is4\<close>. \<open>As16\<close> never panics and drops the zone.
\<close>

definition As4 :: "addr \<Rightarrow> byte list" where
  "As4 a = (case a of
      V4 w \<Rightarrow> be_bytes 4 w
    | V6 w z \<Rightarrow> (if Is4In6 a then be_bytes 4 (ucast w :: u32) else undefined)
    | ZeroAddr \<Rightarrow> undefined)"

definition As16 :: "addr \<Rightarrow> byte list" where
  "As16 a = (case a of
      V4 w \<Rightarrow> be_bytes 16 (push_bit 32 0xffff OR ucast w :: u128)
    | V6 w z \<Rightarrow> be_bytes 16 w
    | ZeroAddr \<Rightarrow> replicate 16 0)"

definition AddrFrom4 :: "byte list \<Rightarrow> addr" where
  "AddrFrom4 bs = V4 (be_word bs)"

definition AddrFrom16 :: "byte list \<Rightarrow> addr" where
  "AddrFrom16 bs = V6 (be_word bs) []"

definition AsSlice :: "addr \<Rightarrow> byte list" where
  "AsSlice a = (case a of ZeroAddr \<Rightarrow> [] | V4 w \<Rightarrow> be_bytes 4 w | V6 w z \<Rightarrow> be_bytes 16 w)"

definition AddrFromSlice :: "byte list \<Rightarrow> addr" where
  "AddrFromSlice bs =
     (if length bs = 4 then AddrFrom4 bs
      else if length bs = 16 then AddrFrom16 bs else ZeroAddr)"

definition WithZone :: "addr \<Rightarrow> gostring \<Rightarrow> addr" where
  "WithZone a z = (case a of V6 w _ \<Rightarrow> V6 w z | _ \<Rightarrow> a)"

section \<open>Prefixes\<close>

record net_prefix =
  pf_addr :: addr
  pf_bits :: nat

definition prefix_valid :: "net_prefix \<Rightarrow> bool" where
  "prefix_valid p \<longleftrightarrow>
     IsValid (pf_addr p) \<and> Zone (pf_addr p) = [] \<and> pf_bits p \<le> BitLen (pf_addr p)"

definition Masked :: "net_prefix \<Rightarrow> addr" where
  "Masked p = (case pf_addr p of
      ZeroAddr \<Rightarrow> ZeroAddr
    | V4 w \<Rightarrow> V4 (w AND NOT (mask (32 - pf_bits p)))
    | V6 w z \<Rightarrow> V6 (w AND NOT (mask (128 - pf_bits p))) z)"

definition PrefixContains :: "net_prefix \<Rightarrow> addr \<Rightarrow> bool" where
  "PrefixContains p ip \<longleftrightarrow> prefix_valid p \<and>
     (case (pf_addr p, ip) of
        (V4 w, V4 v) \<Rightarrow> drop_bit (32 - pf_bits p) (w XOR v) = 0
      | (V6 w z, V6 v z') \<Rightarrow> z' = [] \<and> (w XOR v) AND NOT (mask (128 - pf_bits p)) = 0
      | _ \<Rightarrow> False)"

section \<open>UDP socket addresses of package net\<close>

record udp_addr =
  ua_ip :: "byte list"
  ua_port :: u16
  ua_zone :: gostring

definition UDPAddrFromAddrPort :: "addr_port \<Rightarrow> udp_addr" where
  "UDPAddrFromAddrPort ap =
     \<lparr>ua_ip = AsSlice (ap_addr ap), ua_port = ap_port ap, ua_zone = Zone (ap_addr ap)\<rparr>"

definition UDPAddr_AddrPort :: "udp_addr \<Rightarrow> addr_port" where
  "UDPAddr_AddrPort u = AddrPortFrom (WithZone (AddrFromSlice (ua_ip u)) (ua_zone u)) (ua_port u)"

section \<open>Lemmas\<close>

lemma addr_predicates [simp, addr_simps]:
  "Is4 (V4 w)" "\<not> Is4 (V6 v z)" "\<not> Is4 ZeroAddr"
  "\<not> Is6 (V4 w)" "Is6 (V6 v z)" "\<not> Is6 ZeroAddr"
  "\<not> Is4In6 (V4 w)" "\<not> Is4In6 ZeroAddr"
  "Unmap (V4 w) = V4 w" "Unmap ZeroAddr = ZeroAddr"
  "Zone (V4 w) = []" "Zone (V6 v z) = z" "Zone ZeroAddr = []"
  by (simp_all add: Is4_def Is6_def Is4In6_def Unmap_def Zone_def)

lemma ap_sel [simp, addr_simps]:
  "ap_addr (AddrPortFrom a p) = a" "ap_port (AddrPortFrom a p) = p"
  by (simp_all add: AddrPortFrom_def)

lemma AddrPortFrom_eta [simp]: "AddrPortFrom (ap_addr ap) (ap_port ap) = ap"
  by (simp add: AddrPortFrom_def)

lemma AddrPortFrom_inject [simp]: "AddrPortFrom a p = AddrPortFrom b q \<longleftrightarrow> a = b \<and> p = q"
  by (simp add: AddrPortFrom_def)

lemma Is4E: "Is4 a \<Longrightarrow> (\<And>w. a = V4 w \<Longrightarrow> P) \<Longrightarrow> P"
  by (cases a) auto

lemma length_As [simp]:
  "Is4 a \<Longrightarrow> length (As4 a) = 4" "length (As16 a) = 16"
  by (cases a; simp add: As4_def As16_def)+

lemma AddrFrom4_As4 [simp, addr_simps]: "AddrFrom4 (As4 (V4 w)) = V4 w"
  by (simp add: AddrFrom4_def As4_def be_word_be_bytes)

lemma AddrFrom16_As16 [simp, addr_simps]: "AddrFrom16 (As16 (V6 w z)) = V6 w []"
  by (simp add: AddrFrom16_def As16_def be_word_be_bytes)

lemma As4_AddrFrom4: "length bs = 4 \<Longrightarrow> As4 (AddrFrom4 bs) = bs"
  by (simp add: As4_def AddrFrom4_def be_bytes_be_word)

lemma As16_AddrFrom16: "length bs = 16 \<Longrightarrow> As16 (AddrFrom16 bs) = bs"
  by (simp add: As16_def AddrFrom16_def be_bytes_be_word)

lemma Is4_AddrFrom [simp, addr_simps]: "Is4 (AddrFrom4 bs)" "\<not> Is4 (AddrFrom16 bs)"
  by (simp_all add: AddrFrom4_def AddrFrom16_def)

lemma Unmap_not_4In6 [simp]: "\<not> Is4In6 (Unmap a)"
  by (cases a) (auto simp: Unmap_def)

lemma Unmap_idem [simp]: "Unmap (Unmap a) = Unmap a"
  by (cases a) (auto simp: Unmap_def)

lemma Unmap_id: "\<not> Is4In6 a \<Longrightarrow> Unmap a = a"
  by (cases a) (auto simp: Unmap_def)

lemma UDPAddr_AddrPort_roundtrip [simp]: "UDPAddr_AddrPort (UDPAddrFromAddrPort ap) = ap"
proof -
  have "WithZone (AddrFromSlice (AsSlice a)) (Zone a) = a" for a
    by (cases a)
      (simp_all add: WithZone_def AddrFromSlice_def AsSlice_def AddrFrom4_def AddrFrom16_def
        be_word_be_bytes)
  then show ?thesis by (simp add: UDPAddr_AddrPort_def UDPAddrFromAddrPort_def)
qed

lemma PrefixContains_V4:
  "prefix_valid p \<Longrightarrow> pf_addr p = V4 w \<Longrightarrow>
     PrefixContains p (V4 v) \<longleftrightarrow> (\<forall>n. 32 - pf_bits p \<le> n \<longrightarrow> n < 32 \<longrightarrow> bit v n = bit w n)"
  by (simp add: PrefixContains_def drop_bit_xor_eq_0 del: drop_bit_xor)

lemma PrefixContains_V6:
  "prefix_valid p \<Longrightarrow> pf_addr p = V6 w z \<Longrightarrow>
     PrefixContains p (V6 v []) \<longleftrightarrow>
       (\<forall>n. 128 - pf_bits p \<le> n \<longrightarrow> n < 128 \<longrightarrow> bit v n = bit w n)"
  by (simp add: PrefixContains_def xor_and_not_mask_eq_0)

end
