(* ===== verification/Uint128.thy ===== *)
theory Uint128
  imports Netip
begin

unbundle bit_operations_syntax

text \<open>
  The \<open>uint32\<close> and \<open>uint128\<close> helpers of \<open>internal/connect/connect.go\<close>. A \<open>uint128\<close> is a pair of 64-bit
  halves, as in the source; \<open>val128\<close> reads the pair as a 128-bit word, and the refinement lemmas say
  that each helper computes the 128-bit operation its name promises. The exception is the
  shift-and-subtract loop of \<open>modUint128\<close>: what holds of it is shown in \<open>Uint128_Mod\<close>.
\<close>

section \<open>Definitions\<close>

definition ipv4ToUint32 :: "addr \<Rightarrow> u32" where
  "ipv4ToUint32 a = (let b = As4 a in
     push_bit 24 (ucast (b ! 0)) OR push_bit 16 (ucast (b ! 1)) OR push_bit 8 (ucast (b ! 2))
       OR ucast (b ! 3))"

definition uint32ToIPv4 :: "u32 \<Rightarrow> addr" where
  "uint32ToIPv4 v =
     AddrFrom4 [ucast (drop_bit 24 v), ucast (drop_bit 16 v), ucast (drop_bit 8 v), ucast v]"

record uint128 =
  hi64 :: u64
  lo64 :: u64

definition uint128One :: uint128 where
  "uint128One = \<lparr>hi64 = 0, lo64 = 1\<rparr>"

definition uint128FromU64 :: "u64 \<Rightarrow> uint128" where
  "uint128FromU64 v = \<lparr>hi64 = 0, lo64 = v\<rparr>"

definition isZeroUint128 :: "uint128 \<Rightarrow> bool" where
  "isZeroUint128 a \<longleftrightarrow> hi64 a = 0 \<and> lo64 a = 0"

definition bytesToUint128 :: "byte list \<Rightarrow> uint128" where
  "bytesToUint128 b =
     \<lparr>hi64 = push_bit 56 (ucast (b ! 0)) OR push_bit 48 (ucast (b ! 1)) OR push_bit 40 (ucast (b ! 2))
        OR push_bit 32 (ucast (b ! 3)) OR push_bit 24 (ucast (b ! 4)) OR push_bit 16 (ucast (b ! 5))
        OR push_bit 8 (ucast (b ! 6)) OR ucast (b ! 7),
      lo64 = push_bit 56 (ucast (b ! 8)) OR push_bit 48 (ucast (b ! 9)) OR push_bit 40 (ucast (b ! 10))
        OR push_bit 32 (ucast (b ! 11)) OR push_bit 24 (ucast (b ! 12)) OR push_bit 16 (ucast (b ! 13))
        OR push_bit 8 (ucast (b ! 14)) OR ucast (b ! 15)\<rparr>"

definition ipv6ToUint128 :: "addr \<Rightarrow> uint128" where
  "ipv6ToUint128 a = bytesToUint128 (As16 a)"

definition uint128ToIPv6 :: "uint128 \<Rightarrow> addr" where
  "uint128ToIPv6 a =
     AddrFrom16 (map (\<lambda>i. ucast (drop_bit (8 * (7 - i)) (hi64 a))) [0..<8]
               @ map (\<lambda>i. ucast (drop_bit (8 * (7 - i)) (lo64 a))) [0..<8])"

definition newUint128LShiftOne :: "nat \<Rightarrow> uint128" where
  "newUint128LShiftOne n =
     (if 128 \<le> n then \<lparr>hi64 = 0, lo64 = 0\<rparr>
      else if n < 64 then \<lparr>hi64 = 0, lo64 = push_bit n 1\<rparr>
      else \<lparr>hi64 = push_bit (n - 64) 1, lo64 = 0\<rparr>)"

definition newUint128FromBitRange :: "nat \<Rightarrow> uint128" where
  "newUint128FromBitRange n =
     (if 128 \<le> n then \<lparr>hi64 = NOT 0, lo64 = NOT 0\<rparr>
      else if n < 64 then \<lparr>hi64 = 0, lo64 = push_bit n 1 - 1\<rparr>
      else \<lparr>hi64 = push_bit (n - 64) 1 - 1, lo64 = NOT 0\<rparr>)"

definition notUint128 :: "uint128 \<Rightarrow> uint128" where
  "notUint128 a = \<lparr>hi64 = NOT (hi64 a), lo64 = NOT (lo64 a)\<rparr>"

definition andUint128 :: "uint128 \<Rightarrow> uint128 \<Rightarrow> uint128" where
  "andUint128 a b = \<lparr>hi64 = hi64 a AND hi64 b, lo64 = lo64 a AND lo64 b\<rparr>"

definition orUint128 :: "uint128 \<Rightarrow> uint128 \<Rightarrow> uint128" where
  "orUint128 a b = \<lparr>hi64 = hi64 a OR hi64 b, lo64 = lo64 a OR lo64 b\<rparr>"

definition shlUint128 :: "uint128 \<Rightarrow> nat \<Rightarrow> uint128" where
  "shlUint128 a n =
     (if n = 0 then a
      else if 128 \<le> n then \<lparr>hi64 = 0, lo64 = 0\<rparr>
      else if n < 64
        then \<lparr>hi64 = push_bit n (hi64 a) OR drop_bit (64 - n) (lo64 a), lo64 = push_bit n (lo64 a)\<rparr>
      else \<lparr>hi64 = push_bit (n - 64) (lo64 a), lo64 = 0\<rparr>)"

definition shrUint128 :: "uint128 \<Rightarrow> nat \<Rightarrow> uint128" where
  "shrUint128 a n =
     (if n = 0 then a
      else if 128 \<le> n then \<lparr>hi64 = 0, lo64 = 0\<rparr>
      else if n < 64
        then \<lparr>hi64 = drop_bit n (hi64 a), lo64 = drop_bit n (lo64 a) OR push_bit (64 - n) (hi64 a)\<rparr>
      else \<lparr>hi64 = 0, lo64 = drop_bit (n - 64) (hi64 a)\<rparr>)"

definition subUint128 :: "uint128 \<Rightarrow> uint128 \<Rightarrow> uint128" where
  "subUint128 a b =
     (let lo = lo64 a - lo64 b; carry = (if lo64 a < lo64 b then 1 else 0)
      in \<lparr>hi64 = hi64 a - hi64 b - carry, lo64 = lo\<rparr>)"

definition cmpUint128 :: "uint128 \<Rightarrow> uint128 \<Rightarrow> int" where
  "cmpUint128 a b =
     (if hi64 a \<noteq> hi64 b then (if hi64 a > hi64 b then 1 else -1)
      else if lo64 a > lo64 b then 1
      else if lo64 a < lo64 b then -1 else 0)"

text \<open>One iteration of the loop of \<open>modUint128\<close>, at index \<open>i\<close>; the loop runs from 127 down to 0.\<close>

definition mod_step :: "uint128 \<Rightarrow> uint128 \<Rightarrow> nat \<Rightarrow> uint128 \<Rightarrow> uint128" where
  "mod_step a b i r0 =
     (let r1 = shlUint128 r0 1;
          r2 = (if drop_bit (63 - i mod 64) (hi64 a) AND 1 \<noteq> 0
                   \<or> (i < 64 \<and> drop_bit (63 - i) (lo64 a) AND 1 \<noteq> 0)
                then (if 64 \<le> i then r1\<lparr>hi64 := hi64 r1 OR push_bit (i - 64) 1\<rparr>
                      else r1\<lparr>lo64 := lo64 r1 OR push_bit i 1\<rparr>)
                else r1)
      in if 0 \<le> cmpUint128 r2 b then subUint128 r2 b else r2)"

primrec mod_loop :: "uint128 \<Rightarrow> uint128 \<Rightarrow> nat \<Rightarrow> uint128 \<Rightarrow> uint128" where
  "mod_loop a b 0 r = r"
| "mod_loop a b (Suc i) r = mod_loop a b i (mod_step a b i r)"

definition modUint128 :: "uint128 \<Rightarrow> uint128 \<Rightarrow> uint128" where
  "modUint128 a b =
     (if isZeroUint128 b then a
      else if hi64 b = 0 \<and> hi64 a = 0 then \<lparr>hi64 = 0, lo64 = lo64 a mod lo64 b\<rparr>
      else mod_loop a b 128 \<lparr>hi64 = 0, lo64 = 0\<rparr>)"

text \<open>The 128-bit value a pair of halves stands for.\<close>

definition val128 :: "uint128 \<Rightarrow> u128" where
  "val128 a = push_bit 64 (ucast (hi64 a)) OR ucast (lo64 a)"

section \<open>Round trips between addresses and integers\<close>

lemma ipv4ToUint32_be_word: "Is4 a \<Longrightarrow> ipv4ToUint32 a = be_word (As4 a)"
proof -
  assume "Is4 a"
  then have "length (As4 a) = 4" by simp
  then obtain b0 b1 b2 b3 where "As4 a = [b0, b1, b2, b3]"
    by (auto simp: numeral_eq_Suc length_Suc_conv)
  then show ?thesis
    by (simp add: ipv4ToUint32_def be_word_def push_bit_or or.assoc)
qed

lemma ipv4ToUint32_V4 [simp]: "ipv4ToUint32 (V4 w) = w"
  by (simp add: ipv4ToUint32_be_word As4_def be_word_be_bytes)

lemma uint32ToIPv4_V4 [simp]: "uint32ToIPv4 v = V4 v"
proof -
  have "[ucast (drop_bit 24 v), ucast (drop_bit 16 v), ucast (drop_bit 8 v), ucast v] = be_bytes 4 v"
    by (simp add: numeral_eq_Suc)
  then show ?thesis
    by (simp add: uint32ToIPv4_def AddrFrom4_def be_word_be_bytes)
qed

lemma bit_val128 [bit_simps]:
  "bit (val128 a) n \<longleftrightarrow> n < 128 \<and> (if n < 64 then bit (lo64 a) n else bit (hi64 a) (n - 64))"
  using bit_imp_le_length [of "lo64 a" n] bit_imp_le_length [of "hi64 a" "n - 64"]
  by (auto simp: val128_def bit_or_iff bit_push_bit_iff bit_ucast_iff possible_bit_word)

lemma val128_inject: "val128 a = val128 b \<longleftrightarrow> a = b"
proof
  assume eq: "val128 a = val128 b"
  have "hi64 a = hi64 b"
  proof (rule bit_word_eqI)
    fix n assume "n < LENGTH(64)"
    then show "bit (hi64 a) n = bit (hi64 b) n"
      using arg_cong [OF eq, of "\<lambda>w. bit w (n + 64)"] by (simp add: bit_val128)
  qed
  moreover have "lo64 a = lo64 b"
  proof (rule bit_word_eqI)
    fix n assume "n < LENGTH(64)"
    then show "bit (lo64 a) n = bit (lo64 b) n"
      using arg_cong [OF eq, of "\<lambda>w. bit w n"] by (simp add: bit_val128)
  qed
  ultimately show "a = b" by simp
qed simp

lemma val128_sel_eq: "val128 \<lparr>hi64 = h, lo64 = l\<rparr> = w \<longleftrightarrow>
    (\<forall>n < 64. bit w n = bit l n \<and> bit w (n + 64) = bit h n)"
proof
  assume "val128 \<lparr>hi64 = h, lo64 = l\<rparr> = w"
  then show "\<forall>n < 64. bit w n = bit l n \<and> bit w (n + 64) = bit h n"
    by (auto simp: bit_val128)
next
  assume *: "\<forall>n < 64. bit w n = bit l n \<and> bit w (n + 64) = bit h n"
  show "val128 \<lparr>hi64 = h, lo64 = l\<rparr> = w"
  proof (rule bit_word_eqI)
    fix n assume n: "n < LENGTH(128)"
    show "bit (val128 \<lparr>hi64 = h, lo64 = l\<rparr>) n = bit w n"
    proof (cases "n < 64")
      case True
      with * n show ?thesis by (simp add: bit_val128)
    next
      case False
      with n have "n - 64 < 64" "n - 64 + 64 = n" by auto
      with * n False show ?thesis by (simp add: bit_val128) metis
    qed
  qed
qed

lemma be_word_8:
  assumes "length b = 8"
  shows "(be_word b :: u64) =
    push_bit 56 (ucast (b ! 0)) OR push_bit 48 (ucast (b ! 1)) OR push_bit 40 (ucast (b ! 2))
      OR push_bit 32 (ucast (b ! 3)) OR push_bit 24 (ucast (b ! 4)) OR push_bit 16 (ucast (b ! 5))
      OR push_bit 8 (ucast (b ! 6)) OR ucast (b ! 7)"
proof -
  obtain b0 b1 b2 b3 b4 b5 b6 b7 where "b = [b0, b1, b2, b3, b4, b5, b6, b7]"
    using assms by (auto simp: numeral_eq_Suc length_Suc_conv)
  then show ?thesis by (simp add: be_word_def push_bit_or or.assoc)
qed

lemma bytesToUint128_split:
  assumes "length b = 16"
  shows "bytesToUint128 b = \<lparr>hi64 = be_word (take 8 b), lo64 = be_word (drop 8 b)\<rparr>"
  using assms be_word_8 [of "take 8 b"] be_word_8 [of "drop 8 b"]
  by (simp add: bytesToUint128_def)

lemma val128_bytesToUint128:
  assumes "length b = 16"
  shows "val128 (bytesToUint128 b) = be_word b"
  unfolding bytesToUint128_split [OF assms] val128_sel_eq
proof (intro allI impI conjI)
  fix n :: nat assume n: "n < 64"
  then have d: "n div 8 \<le> 7" by simp
  then have "8 + (7 - n div 8) = 15 - n div 8" by simp
  then show "bit (be_word b :: u128) n = bit (be_word (drop 8 b) :: u64) n"
    using n assms by (simp add: bit_be_word)
  have "(n + 64) div 8 = n div 8 + 8" "(n + 64) mod 8 = n mod 8" by presburger+
  then show "bit (be_word b :: u128) (n + 64) = bit (be_word (take 8 b) :: u64) n"
    using n d assms by (simp add: bit_be_word)
qed

lemma val128_ipv6ToUint128 [simp]: "val128 (ipv6ToUint128 (V6 w z)) = w"
  by (simp add: ipv6ToUint128_def val128_bytesToUint128 As16_def be_word_be_bytes)

lemma map_be_bytes_8:
  "map (\<lambda>i. ucast (drop_bit (8 * (7 - i)) (w :: u64))) [0..<8] = be_bytes 8 w"
  by (simp add: numeral_eq_Suc)

lemma be_bytes_val128: "be_bytes 16 (val128 a) = be_bytes 8 (hi64 a) @ be_bytes 8 (lo64 a)"
proof -
  let ?b = "be_bytes 8 (hi64 a) @ be_bytes 8 (lo64 a)"
  have "bytesToUint128 ?b = a"
    by (simp add: bytesToUint128_split be_word_be_bytes)
  then have "val128 a = be_word ?b" using val128_bytesToUint128 [of ?b] by simp
  then show ?thesis by (simp add: be_bytes_be_word)
qed

lemma uint128ToIPv6_V6 [simp]: "uint128ToIPv6 a = V6 (val128 a) []"
  unfolding uint128ToIPv6_def map_be_bytes_8 be_bytes_val128 [symmetric]
  by (simp add: AddrFrom16_def be_word_be_bytes)

section \<open>The helpers refine 128-bit word operations\<close>

lemma val128_One [simp]: "val128 uint128One = 1"
  by (simp add: val128_def uint128One_def)

lemma val128_FromU64 [simp]: "val128 (uint128FromU64 v) = ucast v"
  by (simp add: val128_def uint128FromU64_def)

lemma val128_zero [simp]: "val128 \<lparr>hi64 = 0, lo64 = 0\<rparr> = 0"
  by (simp add: val128_def)

lemma isZeroUint128_val128: "isZeroUint128 a \<longleftrightarrow> val128 a = 0"
  using val128_inject [of a "\<lparr>hi64 = 0, lo64 = 0\<rparr>"] by (cases a) (simp add: isZeroUint128_def)

lemma val128_not [simp]: "val128 (notUint128 a) = NOT (val128 a)"
  unfolding notUint128_def val128_sel_eq by (auto simp: bit_not_iff bit_val128 possible_bit_word)

lemma val128_and [simp]: "val128 (andUint128 a b) = val128 a AND val128 b"
  unfolding andUint128_def val128_sel_eq by (auto simp: bit_and_iff bit_val128)

lemma val128_or [simp]: "val128 (orUint128 a b) = val128 a OR val128 b"
  unfolding orUint128_def val128_sel_eq by (auto simp: bit_or_iff bit_val128)

lemma val128_LShiftOne [simp]: "val128 (newUint128LShiftOne n) = push_bit n 1"
proof (cases "128 \<le> n")
  case True
  then have "push_bit n (1 :: u128) = 0"
    by (intro bit_word_eqI) (auto simp: bit_exp_iff)
  with True show ?thesis by (simp add: newUint128LShiftOne_def)
next
  case False
  show ?thesis
  proof (cases "n < 64")
    case True
    then show ?thesis unfolding newUint128LShiftOne_def
      by (auto simp: val128_sel_eq bit_exp_iff possible_bit_word)
  next
    case False
    with \<open>\<not> 128 \<le> n\<close> show ?thesis unfolding newUint128LShiftOne_def
      by (auto simp: val128_sel_eq bit_exp_iff possible_bit_word)
  qed
qed

lemma push_bit_1_minus_1: "push_bit n 1 - 1 = (mask n :: 'a::len word)"
  by (simp add: mask_eq_exp_minus_1 push_bit_eq_mult)

lemma val128_FromBitRange [simp]: "val128 (newUint128FromBitRange n) = mask n"
  unfolding newUint128FromBitRange_def push_bit_1_minus_1
  by (auto simp: val128_sel_eq bit_mask_iff bit_not_iff possible_bit_word)

lemma val128_shl [simp]: "val128 (shlUint128 a n) = push_bit n (val128 a)"
proof (rule bit_word_eqI)
  fix k assume k: "k < LENGTH(128)"
  show "bit (val128 (shlUint128 a n)) k = bit (push_bit n (val128 a)) k"
    using k bit_imp_le_length [of "lo64 a" "64 - n + k"] bit_imp_le_length [of "lo64 a" "k - n"]
    by (auto simp: bit_val128 shlUint128_def bit_push_bit_iff bit_or_iff bit_drop_bit_eq
        possible_bit_word ac_simps)
qed

lemma val128_shr [simp]: "val128 (shrUint128 a n) = drop_bit n (val128 a)"
proof (rule bit_word_eqI)
  fix k assume k: "k < LENGTH(128)"
  show "bit (val128 (shrUint128 a n)) k = bit (drop_bit n (val128 a)) k"
    using k bit_imp_le_length [of "hi64 a" "n + (k - 64)"] bit_imp_le_length [of "lo64 a" "n + k"]
      bit_imp_le_length [of "hi64 a" "n - 64 + k"]
    by (auto simp: bit_val128 shrUint128_def bit_push_bit_iff bit_or_iff bit_drop_bit_eq
        possible_bit_word ac_simps)
qed

lemma unat_ucast_128 [simp]: "unat (ucast (w :: u64) :: u128) = unat w"
  using unat_u64_less [of w] by (simp add: unsigned_ucast_eq take_bit_nat_eq_self)

lemma unat_val128: "unat (val128 a) = unat (hi64 a) * 2 ^ 64 + unat (lo64 a)"
proof -
  have hl: "unat (hi64 a) < 2 ^ 64" "unat (lo64 a) < 2 ^ 64"
    by (rule unat_u64_less)+
  have "push_bit 64 (ucast (hi64 a)) AND (ucast (lo64 a) :: u128) = 0"
    by (rule bit_word_eqI)
      (auto simp: bit_and_iff bit_push_bit_iff bit_ucast_iff dest: bit_imp_le_length)
  then have "val128 a = 2 ^ 64 * ucast (hi64 a) + ucast (lo64 a)"
    by (simp add: val128_def disjunctive_add_eq_or [symmetric] push_bit_eq_mult ac_simps)
  then show ?thesis
    using hl by (simp add: unat_word_ariths)
qed

lemma cmpUint128_ge: "0 \<le> cmpUint128 a b \<longleftrightarrow> val128 b \<le> val128 a"
proof -
  have "unat (lo64 a) < 2 ^ 64" "unat (lo64 b) < 2 ^ 64"
    by (rule unat_u64_less)+
  then show ?thesis
    unfolding cmpUint128_def word_le_nat_alt word_less_nat_alt unat_val128 word_unat_eq_iff
    by auto
qed

lemma val128_sub [simp]: "val128 (subUint128 a b) = val128 a - val128 b"
proof -
  have b: "unat (hi64 a) < 2 ^ 64" "unat (lo64 a) < 2 ^ 64" "unat (hi64 b) < 2 ^ 64"
    "unat (lo64 b) < 2 ^ 64"
    by (rule unat_u64_less)+
  have m: "x < y \<Longrightarrow> x * 2 ^ 64 + 2 ^ 64 \<le> y * 2 ^ 64" for x y :: nat
    using mult_le_mono1 [of "Suc x" y "2 ^ 64"] by simp
  show ?thesis
    unfolding word_unat_eq_iff unat_val128 subUint128_def Let_def uint128.simps
      unat_sub_if' word_less_nat_alt
    using b m [of "unat (hi64 a)" "unat (hi64 b)"] m [of "unat (hi64 b)" "unat (hi64 a)"]
    by (cases "unat (hi64 a)" "unat (hi64 b)" rule: linorder_cases)
      (auto simp: unat_val128 unat_sub_if' split: if_splits)
qed

end
