(* ===== verification/Uint128_Mod.thy ===== *)
theory Uint128_Mod
  imports Uint128
begin

unbundle bit_operations_syntax

text \<open>
  What holds of \<open>modUint128\<close> in \<open>internal/connect/connect.go\<close>. On operands below \<open>2 ^ 64\<close> it is the
  remainder. Its shift-and-subtract loop reads the dividend's bits from the wrong end and ors them
  in at their own position, so it is not the remainder in general; but for the divisors the program
  uses, \<open>2 ^ h - 1\<close>, the result still is below the divisor. That follows from a bound on the number
  of one bits of the running remainder: one iteration adds at most one, so that after the 64
  iterations that can set a bit the remainder has too few of them to reach \<open>2 ^ h - 1\<close>.
\<close>

section \<open>Number of one bits\<close>

definition popcount :: "nat \<Rightarrow> nat" where
  "popcount n = card {k. bit n k}"

lemma bit_nat_less: "bit (n :: nat) k \<Longrightarrow> k < n"
proof (rule ccontr)
  assume b: "bit n k" and "\<not> k < n"
  then have "n < 2 ^ k" by (meson less_exp less_le_trans linorder_not_less order_less_le_trans)
  with b show False by (simp add: bit_iff_odd)
qed

lemma finite_bits [simp]: "finite {k. bit (n :: nat) k}"
  by (rule finite_subset [of _ "{..<n}"]) (auto dest: bit_nat_less)

lemma popcount_double: "popcount (2 * n) = popcount n"
proof -
  have "{k. bit (2 * n) k} = Suc ` {k. bit n k}"
    by (auto simp: bit_double_iff image_iff) (metis Suc_pred)
  then show ?thesis by (simp add: popcount_def card_image)
qed

lemma popcount_or_exp: "popcount (n OR 2 ^ i) \<le> Suc (popcount n)"
proof -
  have "{k. bit (n OR 2 ^ i) k} = insert i {k. bit n k}"
    by (auto simp: bit_or_iff bit_exp_iff)
  then show ?thesis by (simp add: popcount_def card_insert_le_m1 card_insert_if)
qed

lemma popcount_exp_add:
  assumes "s < 2 ^ k"
  shows "popcount (2 ^ k + s) = Suc (popcount s)"
proof -
  have nb: "\<not> bit s j" if "k \<le> j" for j
  proof
    assume "bit s j"
    then have "2 ^ j \<le> s" by (metis bit_iff_odd div_less even_zero not_less)
    then show False using assms that
      by (metis less_le_trans linorder_not_less one_less_numeral_iff power_increasing_iff semiring_norm(76) order_less_le_trans)
  qed
  have "2 ^ k AND s = 0"
    by (rule bit_eqI) (auto simp: bit_and_iff bit_exp_iff nb)
  then have "2 ^ k + s = 2 ^ k OR s" by (rule disjunctive_add_eq_or)
  then have "{j. bit (2 ^ k + s) j} = insert k {j. bit s j}"
    by (auto simp: bit_or_iff bit_exp_iff)
  then show ?thesis using nb [of k] by (simp add: popcount_def)
qed

lemma popcount_mask: "popcount (2 ^ h - 1) = h"
proof -
  have "{k. bit (2 ^ h - 1 :: nat) k} = {..<h}"
    unfolding mask_eq_exp_minus_1 [symmetric] by (auto simp: bit_mask_iff)
  then show ?thesis by (simp add: popcount_def)
qed

lemma popcount_top:
  assumes "2 ^ h - 2 \<le> t" "t < 2 ^ h" "0 < h"
  shows "h - 1 \<le> popcount t"
proof -
  obtain g where h: "h = Suc g" using assms(3) by (cases h) auto
  then consider "t = 2 * (2 ^ g - 1)" | "t = 2 ^ h - 1"
    using assms by fastforce
  then show ?thesis
  proof cases
    case 1
    then have "popcount t = g" using popcount_mask [of g] by (simp only: popcount_double)
    then show ?thesis by (simp add: h)
  next
    case 2
    then have "popcount t = h" using popcount_mask [of h] by (simp only:)
    then show ?thesis by simp
  qed
qed

section \<open>One iteration on natural numbers\<close>

definition nstep :: "nat \<Rightarrow> nat \<Rightarrow> bool \<Rightarrow> nat \<Rightarrow> nat" where
  "nstep h i e r =
     (let r2 = (2 * r) OR (if e then 2 ^ i else 0)
      in if 2 ^ h - 1 \<le> r2 then r2 - (2 ^ h - 1) else r2)"

lemma popcount_or_if: "popcount (n OR (if e then 2 ^ i else 0)) \<le> Suc (popcount n)"
  using popcount_or_exp [of n i] by simp

lemma or_exp_less:
  assumes "n < 2 ^ h" "i < h"
  shows "n OR (if e then 2 ^ i else 0) < (2 ^ h :: nat)"
proof -
  have "take_bit h (n OR 2 ^ i) = n OR 2 ^ i"
    using assms by (simp add: take_bit_or take_bit_nat_eq_self power_strict_increasing)
  then have "n OR 2 ^ i < 2 ^ h" by (metis take_bit_nat_less_exp)
  with assms show ?thesis by simp
qed

lemma nstep_no_carry:
  assumes "65 \<le> h" "i \<le> 63" "r < 2 ^ (h - 1)" "popcount r \<le> 63 - i"
  shows "nstep h i e r < 2 ^ h - 1 \<and> popcount (nstep h i e r) \<le> 64 - i"
proof -
  let ?r2 = "(2 * r) OR (if e then 2 ^ i else 0)"
  have "2 * r < 2 ^ h" using assms by (cases h) auto
  then have lt: "?r2 < 2 ^ h" using assms or_exp_less by simp
  have pc: "popcount ?r2 \<le> 64 - i"
    using popcount_or_if [of "2 * r" e i] assms by (simp add: popcount_double)
  then have "?r2 \<noteq> 2 ^ h - 1" using assms popcount_mask [of h] by auto
  with lt have "?r2 < 2 ^ h - 1" by simp
  with pc show ?thesis by (simp add: nstep_def Let_def)
qed

lemma nstep_carry:
  assumes "65 \<le> h" "i \<le> 63" "2 ^ (h - 1) \<le> r" "r < 2 ^ h - 1" "popcount r \<le> 63 - i"
  shows "nstep h i e r < 2 ^ h - 1 \<and> (0 < i \<longrightarrow> popcount (nstep h i e r) \<le> 64 - i)"
proof -
  obtain g where g: "h = Suc g" "64 \<le> g" using assms(1) by (cases h) auto
  define s where "s = r - 2 ^ g"
  have s: "r = 2 ^ g + s" "s < 2 ^ g" using assms(3,4) by (simp_all add: s_def g)
  define t where "t = (2 * s) OR (if e then 2 ^ i else 0)"
  have "2 * s < 2 ^ h" using s g by simp
  then have t: "t < 2 ^ h" using or_exp_less [of "2 * s" h i e] assms by (simp add: t_def)
  have "popcount t \<le> Suc (popcount s)"
    using popcount_or_if [of "2 * s" e i] by (simp add: t_def popcount_double)
  moreover have "popcount r = Suc (popcount s)" using s popcount_exp_add by simp
  ultimately have pt: "popcount t \<le> 63 - i" using assms(5) by simp
  have small: "t < 2 ^ h - 2"
  proof (rule ccontr)
    assume "\<not> t < 2 ^ h - 2"
    then have "h - 1 \<le> popcount t" using popcount_top [of h t] t assms(1) by linarith
    with pt assms(1) show False by linarith
  qed
  have disj: "x AND 2 ^ h = 0" if "x < 2 ^ h" for x :: nat
  proof -
    have "take_bit h x = x" using that by (rule take_bit_nat_eq_self)
    then have "\<not> bit x h" by (metis bit_take_bit_iff less_irrefl)
    then show ?thesis by (auto intro!: bit_eqI simp: bit_and_iff bit_exp_iff)
  qed
  have "(2 * r) OR (if e then 2 ^ i else 0) = t OR 2 ^ h"
  proof -
    have "2 * r = (2 * s) OR 2 ^ h"
      using disjunctive_add_eq_or [OF disj [OF \<open>2 * s < 2 ^ h\<close>]] s g by simp
    then show ?thesis by (simp add: t_def or.assoc or.commute or.left_commute)
  qed
  then have r2: "(2 * r) OR (if e then 2 ^ i else 0) = t + 2 ^ h"
    using disjunctive_add_eq_or [OF disj [OF t]] by simp
  have "1 \<le> (2 :: nat) ^ h" by simp
  then have "2 ^ h - 1 \<le> t + 2 ^ h" "t + 2 ^ h - (2 ^ h - 1) = t + 1" by linarith+
  then have step: "nstep h i e r = t + 1" by (simp only: nstep_def r2 Let_def if_True)
  have "popcount (t + 1) \<le> 64 - i" if "0 < i"
  proof -
    have "\<not> bit t 0" using that by (simp add: t_def bit_0 even_or_iff)
    then have "t AND 1 = 0" by (simp add: and_one_eq bit_0 even_iff_mod_2_eq_zero)
    then have "t + 1 = t OR 1" by (rule disjunctive_add_eq_or)
    then have "t + 1 = t OR 2 ^ 0" by simp
    then show ?thesis using popcount_or_exp [of t 0] pt assms(2) by simp
  qed
  with small step show ?thesis by simp
qed


lemma nstep_bound:
  assumes "65 \<le> h" "i \<le> 63" "r < 2 ^ h - 1" "popcount r \<le> 63 - i"
  shows "nstep h i e r < 2 ^ h - 1 \<and> (0 < i \<longrightarrow> popcount (nstep h i e r) \<le> 64 - i)"
proof (cases "r < 2 ^ (h - 1)")
  case True
  then show ?thesis using nstep_no_carry [of h i r e] assms by simp
next
  case False
  then show ?thesis using nstep_carry [of h i r e] assms by simp
qed


section \<open>The loop\<close>

lemma mod_step_high:
  assumes "hi64 a = 0" "64 \<le> i" "\<not> isZeroUint128 b"
  shows "mod_step a b i \<lparr>hi64 = 0, lo64 = 0\<rparr> = \<lparr>hi64 = 0, lo64 = 0\<rparr>"
proof -
  have "val128 b \<noteq> 0" using assms(3) by (simp add: isZeroUint128_val128)
  then have "\<not> val128 b \<le> 0" by (simp add: word_le_0_iff)
  then show ?thesis using assms(1,2)
    by (simp add: mod_step_def shlUint128_def cmpUint128_ge val128_def)
qed

lemma val128_set_low:
  assumes "i < 64"
  shows "val128 (r\<lparr>lo64 := lo64 r OR 2 ^ i\<rparr>) = val128 r OR 2 ^ i"
  using assms unfolding val128_def by (intro bit_word_eqI) (auto simp: bit_simps)

lemma mod_step_low:
  assumes "hi64 a = 0" "i < 64"
  shows "val128 (mod_step a b i r) =
    (let r2 = (2 * val128 r) OR (if bit (lo64 a) (63 - i) then 2 ^ i else 0)
     in if val128 b \<le> r2 then r2 - val128 b else r2)"
  using assms
  by (simp add: mod_step_def Let_def cmpUint128_ge val128_set_low bit_iff_odd_drop_bit and_one_eq odd_iff_mod_2_eq_one
      mult.commute)


lemma unat_mask_128:
  assumes "h \<le> 128"
  shows "unat (mask h :: u128) = 2 ^ h - 1"
proof -
  have "(2 :: nat) ^ h \<le> 2 ^ 128" using assms by (rule power_increasing) simp
  moreover have "(0 :: nat) < 2 ^ h" by simp
  ultimately have "(2 :: nat) ^ h - 1 < 2 ^ 128" by linarith
  then have "unat (of_nat (2 ^ h - 1) :: u128) = 2 ^ h - 1"
    unfolding unat_of_nat by (simp add: take_bit_nat_eq_self)
  then show ?thesis by (simp only: mask_eq_exp_minus_1 [symmetric] of_nat_mask_eq)
qed

lemma unat_mod_step:
  assumes "hi64 a = 0" "i < 64" "65 \<le> h" "h \<le> 127" "val128 b = mask h" "unat (val128 r) < 2 ^ h - 1"
  shows "unat (val128 (mod_step a b i r)) = nstep h i (bit (lo64 a) (63 - i)) (unat (val128 r))"
proof -
  let ?e = "bit (lo64 a) (63 - i)" and ?r = "val128 r"
  have b: "unat (mask h :: u128) = 2 ^ h - 1"
    using assms(4) by (rule unat_mask_128 [OF le_trans]) simp
  have "(2 :: nat) ^ h \<le> 2 ^ 127" using assms(4) by (rule power_increasing) simp
  then have "2 * unat ?r < 2 ^ 128" using assms(6) by simp
  then have dbl: "unat (2 * ?r) = 2 * unat ?r" by (simp add: unat_word_ariths)
  have "(2 :: nat) ^ i < 2 ^ 128" by (rule power_strict_increasing) (use assms(2) in simp_all)
  then have "unat (of_nat (2 ^ i) :: u128) = 2 ^ i"
    unfolding unat_of_nat by (simp add: take_bit_nat_eq_self)
  then have "unat (2 ^ i :: u128) = 2 ^ i" by simp
  then have r2: "unat ((2 * ?r) OR (if ?e then 2 ^ i else 0)) =
    (2 * unat ?r) OR (if ?e then 2 ^ i else 0)"
    by (simp add: unsigned_or_eq dbl)
  show ?thesis
    unfolding mod_step_low [OF assms(1,2)] nstep_def Let_def assms(5) word_le_nat_alt r2 b
    by (simp add: unat_sub word_le_nat_alt r2 b)
qed


lemma mod_loop_high:
  assumes "hi64 a = 0" "\<not> isZeroUint128 b"
  shows "mod_loop a b (64 + n) \<lparr>hi64 = 0, lo64 = 0\<rparr> = mod_loop a b 64 \<lparr>hi64 = 0, lo64 = 0\<rparr>"
proof (induction n)
  case (Suc n)
  then show ?case using mod_step_high [OF assms(1) le_add1 assms(2)]
    by (simp only: add_Suc_right mod_loop.simps)
qed simp

lemma mod_loop_low:
  assumes "hi64 a = 0" "65 \<le> h" "h \<le> 127" "val128 b = mask h" "n \<le> 64"
    "unat (val128 r) < 2 ^ h - 1" "0 < n \<longrightarrow> popcount (unat (val128 r)) \<le> 64 - n"
  shows "unat (val128 (mod_loop a b n r)) < 2 ^ h - 1"
  using assms(5-7)
proof (induction n arbitrary: r)
  case (Suc n)
  then have "unat (val128 (mod_step a b n r)) < 2 ^ h - 1 \<and>
      (0 < n \<longrightarrow> popcount (unat (val128 (mod_step a b n r))) \<le> 64 - n)"
    using nstep_bound [of h n "unat (val128 r)" "bit (lo64 a) (63 - n)"]
      unat_mod_step [of a n h b r] assms(1-4) by simp
  with Suc show ?case by simp
qed simp

lemma modUint128_bound:
  assumes "hi64 a = 0" "h \<le> 127" "val128 b = mask h" "0 < h"
  shows "unat (val128 (modUint128 a b)) < 2 ^ h - 1"
proof -
  have m: "unat (val128 b) = 2 ^ h - 1" using assms by (simp add: unat_mask_128)
  have "(2 :: nat) ^ 1 \<le> 2 ^ h" using assms(4) by (intro power_increasing) simp_all
  then have pos: "0 < unat (val128 b)" using m by simp
  then have nz: "\<not> isZeroUint128 b" by (auto simp: isZeroUint128_val128)
  show ?thesis
  proof (cases "hi64 b = 0")
    case True
    then have "unat (lo64 b) = 2 ^ h - 1" using m by (simp add: unat_val128)
    then show ?thesis using True assms(1) nz pos m
      by (simp add: modUint128_def unat_val128 unat_mod)
  next
    case False
    then have "1 \<le> unat (hi64 b)" by (simp add: Suc_le_eq unat_gt_0)
    then have "(2 :: nat) ^ 64 \<le> unat (val128 b)" by (simp add: unat_val128)
    then have "(2 :: nat) ^ 64 < 2 ^ h" using m by simp
    then have "64 < h" by (rule power_less_imp_less_exp [rotated]) simp
    then show ?thesis
      using False nz mod_loop_high [of a b 64] mod_loop_low [of a h b 64 "\<lparr>hi64 = 0, lo64 = 0\<rparr>"]
        assms m pos by (simp add: modUint128_def popcount_def)
  qed
qed


lemma modUint128_fast:
  assumes "hi64 a = 0" "hi64 b = 0" "lo64 b \<noteq> 0"
  shows "val128 (modUint128 a b) = val128 a mod val128 b"
proof -
  have "val128 (modUint128 a b) = ucast (lo64 a mod lo64 b)"
    using assms by (simp add: modUint128_def isZeroUint128_def val128_def)
  moreover have "val128 a = ucast (lo64 a)" "val128 b = ucast (lo64 b)"
    using assms by (simp_all add: val128_def)
  moreover have "(ucast (x mod y) :: u128) = ucast x mod ucast y" for x y :: u64
    by (simp add: word_unat_eq_iff unat_mod)
  ultimately show ?thesis by simp
qed

end
