(* ===== verification/SourceSelect.thy ===== *)
theory SourceSelect
  imports Ext Uint128_Mod
begin

unbundle bit_operations_syntax

text \<open>
  Model of the source-address selection of \<open>internal/connect/connect.go\<close> (\<open>assignSourceIP\<close> and the
  functions it calls) and of \<open>internal/randx/rand.go\<close>. The values the random generator returns are
  fields of a record that every function takes: one selection draws at most one 32-bit and two
  64-bit values.
\<close>

section \<open>Definitions\<close>

record rand_src =
  rand_Uint32 :: u32
  rand_Uint64 :: u64
  rand_Uint64' :: u64

definition RandomU32 :: "rand_src \<Rightarrow> u32" where
  "RandomU32 rd = rand_Uint32 rd"

definition RandomU64 :: "rand_src \<Rightarrow> u64" where
  "RandomU64 rd = rand_Uint64 rd"

definition RandomU128 :: "rand_src \<Rightarrow> byte list" where
  "RandomU128 rd =
     (let hi = rand_Uint64 rd; lo = rand_Uint64' rd in
      map (\<lambda>i. ucast (drop_bit (8 * (7 - i)) hi)) [0..<8]
      @ map (\<lambda>i. ucast (drop_bit (8 * (7 - i)) lo)) [0..<8])"

definition extractValue :: "Extension \<Rightarrow> u64 option" where
  "extractValue e = (case ext_type e of
      ExtRange \<Rightarrow> Some (ext_value e)
    | ExtSession \<Rightarrow> Some (ext_value e)
    | ExtTTL \<Rightarrow> Some (ext_value e)
    | ExtNone \<Rightarrow> None)"

definition assignRandIPv4 :: "rand_src \<Rightarrow> net_prefix \<Rightarrow> addr" where
  "assignRandIPv4 rd cidr =
     (let prefixLen = pf_bits cidr;
          base = ipv4ToUint32 (Masked cidr);
          r = RandomU32 rd;
          netPart = push_bit (usub 32 prefixLen) (drop_bit (usub 32 prefixLen) base);
          hostPart = drop_bit prefixLen (push_bit prefixLen r)
      in uint32ToIPv4 (netPart OR hostPart))"

definition assignRandIPv6 :: "rand_src \<Rightarrow> net_prefix \<Rightarrow> addr" where
  "assignRandIPv6 rd cidr =
     (let prefixLen = pf_bits cidr;
          base = ipv6ToUint128 (Masked cidr);
          r = RandomU128 rd;
          r128 = bytesToUint128 r;
          hostBits = usub 128 prefixLen;
          netMask = notUint128 (newUint128FromBitRange hostBits);
          netPart = andUint128 base netMask;
          hostMask = newUint128FromBitRange hostBits;
          hostPart = andUint128 r128 hostMask
      in uint128ToIPv6 (orUint128 netPart hostPart))"

definition assignIPv4WithRange :: "rand_src \<Rightarrow> net_prefix \<Rightarrow> byte \<Rightarrow> u32 \<Rightarrow> addr" where
  "assignIPv4WithRange rd cidr rng combined =
     (let base = ipv4ToUint32 (Masked cidr);
          prefixLen = pf_bits cidr
      in if unat rng < prefixLen then assignRandIPv4 rd cidr
      else let
          combinedShifted = push_bit (usub 32 (unat rng))
            (combined AND (push_bit (usub (unat rng) prefixLen) 1 - 1));
          subnetMask = push_bit (usub 32 prefixLen) 0xffffffff;
          subnetWithFixed = (base AND subnetMask) OR combinedShifted;
          hostMask = push_bit (usub 32 (unat rng)) 1 - 1;
          hostPart = RandomU32 rd AND hostMask
      in uint32ToIPv4 (subnetWithFixed OR hostPart))"

definition assignIPv6WithRange :: "rand_src \<Rightarrow> net_prefix \<Rightarrow> byte \<Rightarrow> uint128 \<Rightarrow> addr" where
  "assignIPv6WithRange rd cidr rng combined =
     (let base = ipv6ToUint128 (Masked cidr);
          prefixLen = pf_bits cidr
      in if unat rng < prefixLen then assignRandIPv6 rd cidr
      else let
          rngU = unat rng;
          maskBits = (if usub rngU prefixLen < 128
                      then subUint128 (newUint128LShiftOne (usub rngU prefixLen)) uint128One
                      else uint128FromU64 0);
          combinedShifted = shlUint128 (andUint128 combined maskBits) (usub 128 rngU);
          subnetMask = notUint128 (subUint128 (newUint128LShiftOne (usub 128 prefixLen)) uint128One);
          subnetWithFixed = orUint128 (andUint128 base subnetMask) combinedShifted;
          hostMask = subUint128 (newUint128LShiftOne (usub 128 rngU)) uint128One;
          hostPart = andUint128 (uint128FromU64 (RandomU64 rd)) hostMask
      in uint128ToIPv6 (orUint128 subnetWithFixed hostPart))"

definition assignIPv4FromExtension ::
    "rand_src \<Rightarrow> net_prefix \<Rightarrow> byte option \<Rightarrow> Extension \<Rightarrow> addr" where
  "assignIPv4FromExtension rd cidr cidrRange e = (case extractValue e of
      None \<Rightarrow> assignRandIPv4 rd cidr
    | Some combined \<Rightarrow>
       (if ext_type e = ExtTTL \<or> ext_type e = ExtSession then
          let prefixLen = pf_bits cidr in
          if 32 \<le> prefixLen then Masked cidr
          else let
              subnetMask = push_bit (usub 32 prefixLen) 0xffffffff;
              base = ipv4ToUint32 (Masked cidr) AND subnetMask;
              capacity = push_bit (usub 32 prefixLen) 1 - 1
          in if capacity = 0 then Masked cidr
             else uint32ToIPv4 (base OR (ucast combined mod capacity))
        else if ext_type e = ExtRange then
          (case cidrRange of
             Some rng \<Rightarrow> assignIPv4WithRange rd cidr rng (ucast combined)
           | None \<Rightarrow> assignRandIPv4 rd cidr)
        else assignRandIPv4 rd cidr))"

definition assignIPv6FromExtension ::
    "rand_src \<Rightarrow> net_prefix \<Rightarrow> byte option \<Rightarrow> Extension \<Rightarrow> addr" where
  "assignIPv6FromExtension rd cidr cidrRange e = (case extractValue e of
      None \<Rightarrow> assignRandIPv6 rd cidr
    | Some combined \<Rightarrow>
       (if ext_type e = ExtTTL \<or> ext_type e = ExtSession then
          let prefixLen = pf_bits cidr in
          if 128 \<le> prefixLen then Masked cidr
          else let
              hostBits = usub 128 prefixLen;
              mask = newUint128FromBitRange hostBits;
              base = ipv6ToUint128 (Masked cidr);
              subnetMask = notUint128 mask;
              capacity = subUint128 (newUint128LShiftOne hostBits) uint128One
          in if isZeroUint128 capacity then Masked cidr
             else let
                 combined128 = uint128FromU64 combined;
                 md = modUint128 combined128 capacity;
                 result = orUint128 (andUint128 base subnetMask) md
             in uint128ToIPv6 result
        else if ext_type e = ExtRange then
          (case cidrRange of
             Some rng \<Rightarrow> assignIPv6WithRange rd cidr rng (uint128FromU64 combined)
           | None \<Rightarrow> assignRandIPv6 rd cidr)
        else assignRandIPv6 rd cidr))"

definition assignSourceIP :: "rand_src \<Rightarrow> net_prefix \<Rightarrow> byte option \<Rightarrow> Extension \<Rightarrow> addr" where
  "assignSourceIP rd cidr cidrRange e =
     (if Is4 (pf_addr cidr) then assignIPv4FromExtension rd cidr cidrRange e
      else assignIPv6FromExtension rd cidr cidrRange e)"

text \<open>
  Reference description of a selection: \<open>with_host n base hst\<close> keeps the network bits of \<open>base\<close> and
  takes the low \<open>n\<close> bits from \<open>hst\<close>.
\<close>

definition with_host :: "nat \<Rightarrow> 'a::len word \<Rightarrow> 'a word \<Rightarrow> 'a word" where
  "with_host n base hst = (base AND NOT (mask n)) OR (hst AND mask n)"

definition host_v4 :: "rand_src \<Rightarrow> nat \<Rightarrow> byte option \<Rightarrow> Extension \<Rightarrow> u32" where
  "host_v4 rd h rng e = (case ext_type e of
      ExtNone \<Rightarrow> RandomU32 rd
    | ExtRange \<Rightarrow> (case rng of
         None \<Rightarrow> RandomU32 rd
       | Some r \<Rightarrow> if unat r < 32 - h then RandomU32 rd
            else with_host (32 - unat r) (push_bit (32 - unat r) (ucast (ext_value e))) (RandomU32 rd))
    | _ \<Rightarrow> if h = 0 then 0 else ucast (ext_value e) mod mask h)"

definition host_v6 :: "rand_src \<Rightarrow> nat \<Rightarrow> byte option \<Rightarrow> Extension \<Rightarrow> u128" where
  "host_v6 rd h rng e =
     (let r128 = val128 \<lparr>hi64 = rand_Uint64 rd, lo64 = rand_Uint64' rd\<rparr> in
      case ext_type e of
        ExtNone \<Rightarrow> r128
      | ExtRange \<Rightarrow> (case rng of
           None \<Rightarrow> r128
         | Some r \<Rightarrow> if unat r < 128 - h then r128
              else with_host (128 - unat r)
                (if h = 128 \<and> unat r = 128 then 0 else push_bit (128 - unat r) (ucast (ext_value e)))
                (ucast (RandomU64 rd)))
      | _ \<Rightarrow> if h = 0 then 0
            else val128 (modUint128 (uint128FromU64 (ext_value e)) (newUint128FromBitRange h)))"

section \<open>Bits of the selected address\<close>

lemma bit_unat_less_exp:
  assumes "unat (w :: 'a::len word) < 2 ^ h" "bit w n"
  shows "n < h"
proof -
  have "bit (unat w) n" using assms(2) by (simp add: bit_unsigned_iff bit_imp_le_length)
  moreover have "take_bit h (unat w) = unat w" using assms(1) by (rule take_bit_nat_eq_self)
  ultimately show ?thesis by (metis bit_take_bit_iff)
qed

lemma Masked_V4: "pf_addr p = V4 w \<Longrightarrow> Masked p = V4 (w AND NOT (mask (32 - pf_bits p)))"
  by (simp add: Masked_def)

lemma Masked_V6: "pf_addr p = V6 w z \<Longrightarrow> Masked p = V6 (w AND NOT (mask (128 - pf_bits p))) z"
  by (simp add: Masked_def)

lemma val128_RandomU128:
  "val128 (bytesToUint128 (RandomU128 rd)) = val128 \<lparr>hi64 = rand_Uint64 rd, lo64 = rand_Uint64' rd\<rparr>"
  unfolding RandomU128_def Let_def map_be_bytes_8
  by (simp add: val128_bytesToUint128 be_bytes_val128 [symmetric, of "\<lparr>hi64 = a, lo64 = b\<rparr>" for a b, simplified] be_word_be_bytes)

lemma bit_with_host [bit_simps]:
  "bit (with_host n b x) k \<longleftrightarrow> k < n \<and> bit x k \<or> n \<le> k \<and> bit b k" for b :: "'a::len word"
  by (auto simp: with_host_def bit_or_iff bit_and_iff bit_not_iff bit_mask_iff possible_bit_word
      dest: bit_imp_le_length)

lemma with_host_or:
  fixes b :: "'a::len word"
  assumes "unat x < 2 ^ n"
  shows "(b AND NOT (mask n)) OR x = with_host n b x"
  by (rule bit_word_eqI)
     (use bit_unat_less_exp [OF assms] in \<open>auto simp: bit_simps\<close>)

lemma subnetMask_u32: "push_bit n (0xffffffff :: u32) = NOT (mask n)"
proof -
  have "(0xffffffff :: u32) = - 1" by simp
  then show ?thesis by (simp only: push_bit_minus_one_eq_not_mask)
qed

lemma with_host_0 [simp]: "with_host 0 b x = b" for b :: "'a::len word"
  by (simp add: with_host_def)

lemma unat_mask_less: "unat (mask n :: 'a::len word) < 2 ^ n"
proof -
  have "unat (mask n :: 'a word) = take_bit n (unat (- 1 :: 'a word))"
    by (simp add: unsigned_take_bit_eq flip: take_bit_minus_one_eq_mask)
  then show ?thesis by simp
qed

lemma mask_pos: "0 < n \<Longrightarrow> 0 < unat (mask n :: 'a::len word)"
  using bit_mask_iff [where ?'a = "'a word", of n 0] by (auto simp: unat_gt_0 possible_bit_word)

lemma unat_mod_mask_less:
  assumes "0 < n"
  shows "unat (x mod mask n :: 'a::len word) < unat (mask n :: 'a word)"
  using mask_pos [OF assms, where ?'a = 'a] by (simp add: unat_mod)

lemma assignRandIPv4_eq:
  assumes "pf_addr p = V4 w" "pf_bits p \<le> 32"
  shows "assignRandIPv4 rd p = V4 (with_host (32 - pf_bits p) w (RandomU32 rd))"
  using assms
  by (auto simp: assignRandIPv4_def Masked_V4 Let_def intro!: bit_word_eqI)
     (auto simp: bit_simps)

lemma assignWithRange_below:
  "unat r < pf_bits p \<Longrightarrow> assignIPv4WithRange rd p r c = assignRandIPv4 rd p"
  "unat r < pf_bits p \<Longrightarrow> assignIPv6WithRange rd p r c' = assignRandIPv6 rd p"
  by (simp_all add: assignIPv4WithRange_def assignIPv6WithRange_def)

lemma assignIPv4WithRange_eq:
  assumes "pf_addr p = V4 w" "pf_bits p \<le> unat r" "unat r \<le> 32"
  shows "assignIPv4WithRange rd p r c =
    V4 (with_host (32 - pf_bits p) w (with_host (32 - unat r) (push_bit (32 - unat r) c) (RandomU32 rd)))"
  using assms
  by (auto simp: assignIPv4WithRange_def Masked_V4 Let_def push_bit_1_minus_1 subnetMask_u32
      simp del: push_bit_of_1 intro!: bit_word_eqI)
     (auto simp: bit_simps)

lemma assignIPv4_eq:
  assumes "pf_addr p = V4 w" "pf_bits p \<le> 32" "\<And>r. rng = Some r \<Longrightarrow> unat r \<le> 32"
  shows "assignIPv4FromExtension rd p rng e =
    V4 (with_host (32 - pf_bits p) w (host_v4 rd (32 - pf_bits p) rng e))"
proof (cases "ext_type e = ExtTTL \<or> ext_type e = ExtSession")
  case True
  let ?h = "32 - pf_bits p"
  have e: "extractValue e = Some (ext_value e)"
    "host_v4 rd ?h rng e = (if ?h = 0 then 0 else ucast (ext_value e) mod mask ?h)"
    using True by (auto simp: extractValue_def host_v4_def)
  show ?thesis
  proof (cases "pf_bits p = 32")
    case True
    then show ?thesis using e \<open>ext_type e = ExtTTL \<or> ext_type e = ExtSession\<close> assms(1)
      by (simp add: assignIPv4FromExtension_def Masked_V4)
  next
    case False
    then have h: "0 < ?h" using assms(2) by simp
    then have "mask ?h \<noteq> (0 :: u32)" using mask_pos [where ?'a = 32] by fastforce
    moreover have "unat (ucast (ext_value e) mod mask ?h :: u32) < 2 ^ ?h"
      using unat_mod_mask_less [OF h] unat_mask_less [where ?'a = 32] by (rule less_trans)
    ultimately show ?thesis
      using e \<open>ext_type e = ExtTTL \<or> ext_type e = ExtSession\<close> False assms(1,2) h
      by (simp add: assignIPv4FromExtension_def Masked_V4 Let_def push_bit_1_minus_1 and.assoc
          subnetMask_u32 with_host_or del: push_bit_of_1)
  qed
next
  case False
  then show ?thesis
    using assms
    by (cases "ext_type e"; cases rng)
       (auto simp: assignIPv4FromExtension_def extractValue_def host_v4_def assignRandIPv4_eq
          assignIPv4WithRange_eq assignWithRange_below not_less)
qed


lemma assignRandIPv6_eq:
  assumes "pf_addr p = V6 w z" "pf_bits p \<le> 128"
  shows "assignRandIPv6 rd p =
    V6 (with_host (128 - pf_bits p) w (val128 \<lparr>hi64 = rand_Uint64 rd, lo64 = rand_Uint64' rd\<rparr>)) []"
  using assms
  by (simp add: assignRandIPv6_def Masked_V6 Let_def val128_RandomU128 with_host_def and.assoc)

lemma val128_minus_One: "val128 (subUint128 (newUint128LShiftOne n) uint128One) = mask n"
  by (simp add: push_bit_1_minus_1 del: push_bit_of_1)

lemma assignIPv6WithRange_eq:
  assumes "pf_addr p = V6 w z" "pf_bits p \<le> unat r" "unat r \<le> 128"
  shows "assignIPv6WithRange rd p r c =
    V6 (with_host (128 - pf_bits p) w
      (with_host (128 - unat r)
         (if pf_bits p = 0 \<and> unat r = 128 then 0 else push_bit (128 - unat r) (val128 c))
         (ucast (RandomU64 rd)))) []"
proof -
  let ?k = "unat r - pf_bits p"
  have "val128 (if ?k < 128 then subUint128 (newUint128LShiftOne ?k) uint128One else uint128FromU64 0)
    = (if pf_bits p = 0 \<and> unat r = 128 then 0 else mask ?k)"
    using assms(2,3) by (auto simp: val128_minus_One simp del: val128_sub)
  then show ?thesis
    using assms
    by (simp add: assignIPv6WithRange_def Masked_V6 Let_def val128_minus_One del: val128_sub)
       (auto intro!: bit_word_eqI simp: bit_simps)
qed

lemma capacity_eq: "subUint128 (newUint128LShiftOne n) uint128One = newUint128FromBitRange n"
  by (simp add: val128_minus_One flip: val128_inject del: val128_sub)

lemma modUint128_less_exp:
  assumes "0 < h" "h \<le> 128" "hi64 a = 0"
  shows "unat (val128 (modUint128 a (newUint128FromBitRange h))) < 2 ^ h"
proof (cases "h = 128")
  case True
  then show ?thesis using unsigned_less [of "val128 (modUint128 a (newUint128FromBitRange h))"] by simp
next
  case False
  then show ?thesis
    using modUint128_bound [of a h "newUint128FromBitRange h"] assms by simp
qed

lemma assignIPv6_eq:
  assumes "pf_addr p = V6 w []" "pf_bits p \<le> 128" "\<And>r. rng = Some r \<Longrightarrow> unat r \<le> 128"
  shows "assignIPv6FromExtension rd p rng e =
    V6 (with_host (128 - pf_bits p) w (host_v6 rd (128 - pf_bits p) rng e)) []"
proof (cases "ext_type e = ExtTTL \<or> ext_type e = ExtSession")
  case True
  let ?h = "128 - pf_bits p"
  have e: "extractValue e = Some (ext_value e)"
    "host_v6 rd ?h rng e = (if ?h = 0 then 0
       else val128 (modUint128 (uint128FromU64 (ext_value e)) (newUint128FromBitRange ?h)))"
    using True by (auto simp: extractValue_def host_v6_def)
  show ?thesis
  proof (cases "pf_bits p = 128")
    case True
    then show ?thesis using e \<open>ext_type e = ExtTTL \<or> ext_type e = ExtSession\<close> assms(1)
      by (simp add: assignIPv6FromExtension_def Masked_V6)
  next
    case False
    then have h: "0 < ?h" "?h \<le> 128" using assms(2) by simp_all
    then have "\<not> isZeroUint128 (newUint128FromBitRange ?h)"
      using mask_pos [where ?'a = 128, of ?h] by (auto simp: isZeroUint128_val128)
    moreover have "unat (val128 (modUint128 (uint128FromU64 (ext_value e)) (newUint128FromBitRange ?h)))
        < 2 ^ ?h"
      using modUint128_less_exp [OF h] by (simp add: uint128FromU64_def)
    ultimately show ?thesis
      using e \<open>ext_type e = ExtTTL \<or> ext_type e = ExtSession\<close> False assms(1,2) h
      by (simp add: assignIPv6FromExtension_def Masked_V6 Let_def capacity_eq and.assoc with_host_or)
  qed
next
  case False
  then show ?thesis
    using assms
    by (cases "ext_type e"; cases rng)
       (auto simp: assignIPv6FromExtension_def extractValue_def host_v6_def Let_def assignRandIPv6_eq
          assignIPv6WithRange_eq assignWithRange_below not_less)
qed

section \<open>The selected address\<close>

definition range_ok :: "net_prefix \<Rightarrow> byte option \<Rightarrow> bool" where
  "range_ok p rng = (case rng of None \<Rightarrow> True | Some r \<Rightarrow> unat r \<le> BitLen (pf_addr p))"

lemma assignSourceIP_V4:
  assumes "prefix_valid p" "range_ok p rng" "pf_addr p = V4 w"
  shows "assignSourceIP rd p rng e = V4 (with_host (32 - pf_bits p) w (host_v4 rd (32 - pf_bits p) rng e))"
  using assms assignIPv4_eq [of p w rng rd e]
  by (cases rng) (auto simp: assignSourceIP_def prefix_valid_def range_ok_def BitLen_def)

lemma assignSourceIP_V6:
  assumes "prefix_valid p" "range_ok p rng" "pf_addr p = V6 w z"
  shows "assignSourceIP rd p rng e = V6 (with_host (128 - pf_bits p) w (host_v6 rd (128 - pf_bits p) rng e)) []"
  using assms assignIPv6_eq [of p w rng rd e]
  by (cases rng) (auto simp: assignSourceIP_def prefix_valid_def range_ok_def BitLen_def)

lemma assignSourceIP_in_cidr:
  assumes "prefix_valid p" "range_ok p rng"
  shows "PrefixContains p (assignSourceIP rd p rng e)"
proof (cases "pf_addr p")
  case ZeroAddr
  then show ?thesis using assms(1) by (simp add: prefix_valid_def IsValid_def)
next
  case (V4 w)
  then show ?thesis
    using assms by (auto simp: assignSourceIP_V4 PrefixContains_V4 bit_with_host)
next
  case (V6 w z)
  then show ?thesis
    using assms by (auto simp: assignSourceIP_V6 PrefixContains_V6 bit_with_host)
qed

lemma host_sticky:
  assumes "ext_type e = ExtTTL \<or> ext_type e = ExtSession" "ext_type e' = ExtTTL \<or> ext_type e' = ExtSession"
    "ext_value e = ext_value e'"
  shows "host_v4 rd h rng e = host_v4 rd' h rng' e'" "host_v6 rd h rng e = host_v6 rd' h rng' e'"
  using assms by (auto simp: host_v4_def host_v6_def Let_def)

lemma ucast_mod_mask_32:
  assumes "h \<le> 32"
  shows "(ucast (v :: u64) mod mask h :: u32) = of_nat (unat v mod 2 ^ 32 mod (2 ^ h - 1))"
proof -
  have "(2 :: nat) ^ h \<le> 2 ^ 32" using assms by (rule power_increasing) simp
  then have lt: "(2 :: nat) ^ h - 1 < 2 ^ 32" using less_le_trans by fastforce
  then have "unat (of_nat (2 ^ h - 1) :: u32) = 2 ^ h - 1"
    unfolding unat_of_nat by (simp add: take_bit_nat_eq_self)
  then have m: "unat (mask h :: u32) = 2 ^ h - 1"
    by (simp only: mask_eq_exp_minus_1 [symmetric] of_nat_mask_eq)
  have u: "unat (ucast v :: u32) = unat v mod 2 ^ 32"
    by (simp add: unsigned_ucast_eq take_bit_eq_mod)
  have "unat (ucast v mod mask h :: u32) = unat v mod 2 ^ 32 mod (2 ^ h - 1)"
    by (simp only: unat_mod m u)
  then show ?thesis by (metis of_nat_unat ucast_id)
qed

lemma uint128FromU64_sel: "hi64 (uint128FromU64 v) = 0"
  by (simp add: uint128FromU64_def)

lemma session_mod_64:
  assumes "0 < h" "h \<le> 64"
  shows "val128 (modUint128 (uint128FromU64 v) (newUint128FromBitRange h)) =
    of_nat (unat v mod (2 ^ h - 1))"
proof -
  let ?b = "newUint128FromBitRange h"
  have "mask h \<noteq> (0 :: u64)"
    using mask_pos [OF assms(1), where ?'a = 64] by (metis unsigned_0 less_irrefl)
  then have "hi64 ?b = 0" "lo64 ?b \<noteq> 0"
    using assms(2)
    by (auto simp: newUint128FromBitRange_def push_bit_1_minus_1 simp del: push_bit_of_1)
  then have "val128 (modUint128 (uint128FromU64 v) ?b) = ucast v mod mask h"
    using modUint128_fast [of "uint128FromU64 v" ?b] by (simp add: uint128FromU64_sel)
  then have "unat (val128 (modUint128 (uint128FromU64 v) ?b)) = unat v mod (2 ^ h - 1)"
    using assms by (simp add: unat_mod unat_mask_128)
  then show ?thesis by (metis of_nat_unat ucast_id)
qed

section \<open>Properties\<close>

text \<open>
  C2. Session and TTL extensions are sticky: the address depends on the CIDR and on the value the
  extension carries, not on the random generator, on the kind of the extension or on the range.
\<close>

theorem session_address_sticky:
  assumes "prefix_valid p" "range_ok p rng" "range_ok p rng'"
    and "ext_type e = ExtTTL \<or> ext_type e = ExtSession" "ext_type e' = ExtTTL \<or> ext_type e' = ExtSession"
    and "ext_value e = ext_value e'"
  shows "assignSourceIP rd p rng e = assignSourceIP rd' p rng' e'"
proof (cases "pf_addr p")
  case (V4 w)
  then show ?thesis using assms host_sticky(1) [OF assms(4-6), of rd _ rng rd' rng'] by (simp add: assignSourceIP_V4)
next
  case (V6 w z)
  then show ?thesis using assms host_sticky(2) [OF assms(4-6), of rd _ rng rd' rng'] by (simp add: assignSourceIP_V6)
qed (use assms(1) in \<open>simp add: prefix_valid_def IsValid_def\<close>)

theorem session_address_sticky_witness:
  "assignSourceIP \<lparr>rand_Uint32 = 1, rand_Uint64 = 2, rand_Uint64' = 3\<rparr>
      \<lparr>pf_addr = V4 0xc0000200, pf_bits = 24\<rparr> None \<lparr>ext_type = ExtTTL, ext_value = 77\<rparr> =
   assignSourceIP \<lparr>rand_Uint32 = 9, rand_Uint64 = 9, rand_Uint64' = 9\<rparr>
      \<lparr>pf_addr = V4 0xc0000200, pf_bits = 24\<rparr> (Some 28) \<lparr>ext_type = ExtSession, ext_value = 77\<rparr>"
  by (rule session_address_sticky)
     (simp_all add: prefix_valid_def range_ok_def IsValid_def BitLen_def)

text \<open>
  The address of a session or TTL extension in an IPv4 CIDR with \<open>h\<close> host bits: the network
  bits are those of the CIDR and the host number is the low half of the hash modulo \<open>2 ^ h - 1\<close>,
  so the all-ones host is never chosen.
\<close>

theorem session_address_IPv4:
  assumes "0 < h" "h \<le> 32" "ext_type e = ExtTTL \<or> ext_type e = ExtSession"
  shows "assignSourceIP rd \<lparr>pf_addr = V4 w, pf_bits = 32 - h\<rparr> None e =
    V4 (with_host h w (of_nat (unat (ext_value e) mod 2 ^ 32 mod (2 ^ h - 1))))"
proof -
  have "host_v4 rd h None e = ucast (ext_value e) mod mask h"
    using assms by (auto simp: host_v4_def)
  then show ?thesis
    using assms
      assignSourceIP_V4 [of "\<lparr>pf_addr = V4 w, pf_bits = 32 - h\<rparr>" None w rd e]
    by (simp add: prefix_valid_def IsValid_def BitLen_def range_ok_def ucast_mod_mask_32)
qed

theorem session_address_IPv4_witness:
  "assignSourceIP \<lparr>rand_Uint32 = 1, rand_Uint64 = 2, rand_Uint64' = 3\<rparr>
     \<lparr>pf_addr = V4 0xc0000200, pf_bits = 24\<rparr> None \<lparr>ext_type = ExtSession, ext_value = 1000\<rparr>
    = V4 0xc00002eb"
  using session_address_IPv4 [of 8 "\<lparr>ext_type = ExtSession, ext_value = 1000\<rparr>"
      "\<lparr>rand_Uint32 = 1, rand_Uint64 = 2, rand_Uint64' = 3\<rparr>" "0xc0000200"]
  by (simp add: with_host_def mask_eq_exp_minus_1)

text \<open>
  The same for an IPv6 CIDR with at most 64 host bits: the host number is the whole hash
  modulo \<open>2 ^ h - 1\<close>.
\<close>

theorem session_address_IPv6:
  assumes "0 < h" "h \<le> 64" "ext_type e = ExtTTL \<or> ext_type e = ExtSession"
  shows "assignSourceIP rd \<lparr>pf_addr = V6 w [], pf_bits = 128 - h\<rparr> None e =
    V6 (with_host h w (of_nat (unat (ext_value e) mod (2 ^ h - 1)))) []"
proof -
  have "host_v6 rd h None e = val128 (modUint128 (uint128FromU64 (ext_value e)) (newUint128FromBitRange h))"
    using assms by (auto simp: host_v6_def)
  then show ?thesis
    using assms session_mod_64 [of h "ext_value e"]
      assignSourceIP_V6 [of "\<lparr>pf_addr = V6 w [], pf_bits = 128 - h\<rparr>" None w "[]" rd e]
    by (simp add: prefix_valid_def IsValid_def BitLen_def range_ok_def)
qed

theorem session_address_IPv6_witness:
  "assignSourceIP \<lparr>rand_Uint32 = 1, rand_Uint64 = 2, rand_Uint64' = 3\<rparr>
     \<lparr>pf_addr = V6 0x20010db8000000000000000000000000 [], pf_bits = 64\<rparr> None
     \<lparr>ext_type = ExtTTL, ext_value = 5\<rparr> = V6 0x20010db8000000000000000000000005 []"
  using session_address_IPv6 [of 64 "\<lparr>ext_type = ExtTTL, ext_value = 5\<rparr>"
      "\<lparr>rand_Uint32 = 1, rand_Uint64 = 2, rand_Uint64' = 3\<rparr>"
      "0x20010db8000000000000000000000000"]
  by (simp add: with_host_def mask_eq_exp_minus_1)

text \<open>
  C36. A range extension pins a sub-network: one prefix of the configured range length inside the
  CIDR, determined by the extension alone, contains every address the generator can give.
\<close>

theorem range_pins_subnet:
  assumes "prefix_valid p" "pf_bits p \<le> unat r" "unat r \<le> BitLen (pf_addr p)" "ext_type e = ExtRange"
  shows "\<exists>sub. prefix_valid sub \<and> pf_bits sub = unat r \<and> PrefixContains p (pf_addr sub) \<and>
    (\<forall>rd. PrefixContains sub (assignSourceIP rd p (Some r) e))"
proof -
  let ?a = "assignSourceIP \<lparr>rand_Uint32 = 0, rand_Uint64 = 0, rand_Uint64' = 0\<rparr> p (Some r) e"
  let ?sub = "\<lparr>pf_addr = ?a, pf_bits = unat r\<rparr>"
  have ok: "range_ok p (Some r)" using assms(3) by (simp add: range_ok_def)
  have "PrefixContains p ?a" using assms(1) ok by (rule assignSourceIP_in_cidr)
  moreover have "prefix_valid ?sub \<and> (\<forall>rd. PrefixContains ?sub (assignSourceIP rd p (Some r) e))"
  proof (cases "pf_addr p")
    case (V4 w)
    then have "prefix_valid ?sub" using assms ok
      by (simp add: assignSourceIP_V4 prefix_valid_def IsValid_def BitLen_def)
    moreover have "PrefixContains ?sub (assignSourceIP rd p (Some r) e)" for rd
      using V4 assms ok calculation
      by (auto simp: assignSourceIP_V4 PrefixContains_V4 bit_with_host host_v4_def BitLen_def)
    ultimately show ?thesis by blast
  next
    case (V6 w z)
    then have "prefix_valid ?sub" using assms ok
      by (simp add: assignSourceIP_V6 prefix_valid_def IsValid_def BitLen_def)
    moreover have "PrefixContains ?sub (assignSourceIP rd p (Some r) e)" for rd
      using V6 assms ok calculation
      by (auto simp: assignSourceIP_V6 PrefixContains_V6 bit_with_host host_v6_def BitLen_def Let_def)
    ultimately show ?thesis by blast
  qed (use assms(1) in \<open>simp add: prefix_valid_def IsValid_def\<close>)
  ultimately show ?thesis by (intro exI [of _ ?sub]) simp
qed

theorem range_pins_subnet_witness:
  "\<exists>sub. prefix_valid sub \<and> pf_bits sub = 28 \<and>
    PrefixContains \<lparr>pf_addr = V4 0xc0000200, pf_bits = 24\<rparr> (pf_addr sub) \<and>
    (\<forall>rd. PrefixContains sub (assignSourceIP rd \<lparr>pf_addr = V4 0xc0000200, pf_bits = 24\<rparr> (Some 28)
       \<lparr>ext_type = ExtRange, ext_value = 0x1235\<rparr>))"
  using range_pins_subnet [of "\<lparr>pf_addr = V4 0xc0000200, pf_bits = 24\<rparr>" 28
      "\<lparr>ext_type = ExtRange, ext_value = 0x1235\<rparr>"]
  by (simp add: prefix_valid_def IsValid_def BitLen_def)

text \<open>
  The shift-and-subtract loop of \<open>modUint128\<close> does not compute the remainder: for the value 1 and
  a prefix with 72 host bits it returns \<open>2 ^ 54\<close>, where \<open>1 mod (2 ^ 72 - 1) = 1\<close>; the session
  address in a /56 moves accordingly.
\<close>

theorem modUint128_not_remainder:
  "val128 (modUint128 (uint128FromU64 1) (newUint128FromBitRange 72)) = 2 ^ 54 \<and>
   val128 (uint128FromU64 1) mod val128 (newUint128FromBitRange 72) = 1 \<and>
   assignSourceIP rd \<lparr>pf_addr = V6 0x20010db8000000000000000000000000 [], pf_bits = 56\<rparr> None
     \<lparr>ext_type = ExtSession, ext_value = 1\<rparr> = V6 0x20010db8000000000040000000000000 []"
proof -
  have m: "val128 (modUint128 (uint128FromU64 1) (newUint128FromBitRange 72)) = 2 ^ 54"
    by code_simp
  moreover have "val128 (uint128FromU64 1) mod val128 (newUint128FromBitRange 72) = 1"
    by code_simp
  moreover have w: "with_host 72 0x20010db8000000000000000000000000 (2 ^ 54) =
      (0x20010db8000000000040000000000000 :: u128)"
    by code_simp
  moreover have "assignSourceIP rd \<lparr>pf_addr = V6 0x20010db8000000000000000000000000 [], pf_bits = 56\<rparr> None
     \<lparr>ext_type = ExtSession, ext_value = 1\<rparr> = V6 0x20010db8000000000040000000000000 []"
    by (subst assignSourceIP_V6)
       (simp_all add: prefix_valid_def IsValid_def BitLen_def range_ok_def host_v6_def m
          del: val128_FromBitRange power_numeral, rule w)
  ultimately show ?thesis by blast
qed

text \<open>
  With the CIDR \<open>::/0\<close> and the range 128 the mask of the fixed bits is zero instead of all ones,
  and every range extension gives the unspecified address. The IPv4 counterpart, \<open>0.0.0.0/0\<close> with
  range 32, keeps the whole value of the extension.
\<close>

theorem range_full_width:
  "assignSourceIP rd \<lparr>pf_addr = V6 w [], pf_bits = 0\<rparr> (Some 128) \<lparr>ext_type = ExtRange, ext_value = v\<rparr>
     = V6 0 [] \<and>
   assignSourceIP rd \<lparr>pf_addr = V4 u, pf_bits = 0\<rparr> (Some 32) \<lparr>ext_type = ExtRange, ext_value = v\<rparr>
     = V4 (ucast v)"
proof -
  have "with_host 128 w x = x" for w x :: u128
    by (rule bit_word_eqI) (simp add: bit_with_host)
  moreover have "with_host 32 w x = x" for w x :: u32
    by (rule bit_word_eqI) (simp add: bit_with_host)
  ultimately show ?thesis
    by (simp add: assignSourceIP_V4 assignSourceIP_V6 prefix_valid_def IsValid_def BitLen_def range_ok_def
        host_v4_def host_v6_def)
qed

end
