(* ===== verification/NetipParse.thy ===== *)
theory NetipParse
  imports Netip
begin

text \<open>
  The textual parsers of the Go package \<open>net/netip\<close> that the program calls: \<open>ParseAddr\<close>,
  \<open>ParseAddrPort\<close> and \<open>ParsePrefix\<close>. A parse error is \<open>None\<close>; the program only tests for it.
\<close>

section \<open>Definitions\<close>

fun split_on :: "byte \<Rightarrow> gostring \<Rightarrow> gostring list" where
  "split_on c [] = [[]]"
| "split_on c (b # s) =
     (if b = c then [] # split_on c s
      else case split_on c s of [] \<Rightarrow> [[b]] | f # fs \<Rightarrow> (b # f) # fs)"

text \<open>\<open>bytealg.LastIndexByteString\<close>: the part before and after the last occurrence.\<close>

fun cut_last :: "byte \<Rightarrow> gostring \<Rightarrow> (gostring \<times> gostring) option" where
  "cut_last c [] = None"
| "cut_last c (b # s) = (case cut_last c s of
      Some (x, y) \<Rightarrow> Some (b # x, y)
    | None \<Rightarrow> if b = c then Some ([], s) else None)"

definition ipv4_field :: "gostring \<Rightarrow> byte option" where
  "ipv4_field f =
     (if f \<noteq> [] \<and> list_all is_digit f \<and> (1 < length f \<longrightarrow> hd f \<noteq> 48) \<and> digits_value f \<le> 255
      then Some (of_nat (digits_value f)) else None)"

definition parseIPv4Fields :: "gostring \<Rightarrow> byte list option" where
  "parseIPv4Fields s = (case map ipv4_field (split_on 46 s) of
      [Some a, Some b, Some c, Some d] \<Rightarrow> Some [a, b, c, d]
    | _ \<Rightarrow> None)"

definition is_hex :: "byte \<Rightarrow> bool" where
  "is_hex b \<longleftrightarrow> is_digit b \<or> 97 \<le> b \<and> b \<le> 102 \<or> 65 \<le> b \<and> b \<le> 70"

definition hex_value :: "byte \<Rightarrow> u16" where
  "hex_value b = (if is_digit b then ucast (b - 48)
     else if 97 \<le> b then ucast (b - 97) + 10 else ucast (b - 65) + 10)"

definition hex_acc :: "gostring \<Rightarrow> u16" where
  "hex_acc s = foldl (\<lambda>acc b. push_bit 4 acc + hex_value b) 0 s"

text \<open>The field loop of \<open>parseIPv6\<close>; the first argument counts the 16-bit fields still to fill.\<close>

fun parseIPv6_loop ::
    "nat \<Rightarrow> byte list \<Rightarrow> nat option \<Rightarrow> gostring \<Rightarrow> (byte list \<times> nat option \<times> gostring) option" where
  "parseIPv6_loop 0 ip ellipsis s = Some (ip, ellipsis, s)"
| "parseIPv6_loop (Suc n) ip ellipsis s =
     (let hx = takeWhile is_hex s; rest = drop (length hx) s in
      if hx = [] \<or> 4 < length hx then None
      else if rest \<noteq> [] \<and> hd rest = 46 then
        (if ellipsis = None \<and> length ip \<noteq> 12 then None
         else if 16 < length ip + 4 then None
         else case parseIPv4Fields s of None \<Rightarrow> None | Some b4 \<Rightarrow> Some (ip @ b4, ellipsis, []))
      else let ip' = ip @ be_bytes 2 (hex_acc hx) in
        if rest = [] then Some (ip', ellipsis, [])
        else if hd rest \<noteq> 58 then None
        else if length rest = 1 then None
        else if hd (tl rest) = 58 then
          (if ellipsis \<noteq> None then None
           else if tl (tl rest) = [] then Some (ip', Some (length ip'), [])
           else parseIPv6_loop n ip' (Some (length ip')) (tl (tl rest)))
        else parseIPv6_loop n ip' ellipsis (tl rest))"

definition parseIPv6_tail :: "gostring \<Rightarrow> nat option \<Rightarrow> gostring \<Rightarrow> addr option" where
  "parseIPv6_tail zone ellipsis s = (case parseIPv6_loop 8 [] ellipsis s of
      None \<Rightarrow> None
    | Some (ip, ell, rest) \<Rightarrow>
       (if rest \<noteq> [] then None
        else if length ip < 16 then
          (case ell of None \<Rightarrow> None
           | Some e \<Rightarrow> Some (WithZone (AddrFrom16 (take e ip @ replicate (16 - length ip) 0 @ drop e ip)) zone))
        else if ell \<noteq> None then None
        else Some (WithZone (AddrFrom16 ip) zone)))"

definition parseIPv6 :: "gostring \<Rightarrow> addr option" where
  "parseIPv6 inp =
     (let s = takeWhile (\<lambda>b. b \<noteq> 37) inp; has_zone = s \<noteq> inp; zone = drop (Suc (length s)) inp in
      if has_zone \<and> zone = [] then None
      else if take 2 s = [58, 58] then
        (if length s = 2 then Some (V6 0 zone) else parseIPv6_tail zone (Some 0) (drop 2 s))
      else parseIPv6_tail zone None s)"

definition ParseAddr :: "gostring \<Rightarrow> addr option" where
  "ParseAddr s = (case find (\<lambda>b. b = 46 \<or> b = 58 \<or> b = 37) s of
      None \<Rightarrow> None
    | Some b \<Rightarrow> if b = 46 then map_option AddrFrom4 (parseIPv4Fields s)
        else if b = 58 then parseIPv6 s else None)"

definition ParseAddrPort :: "gostring \<Rightarrow> addr_port option" where
  "ParseAddrPort s = (case cut_last 58 s of
      None \<Rightarrow> None
    | Some (ip, port) \<Rightarrow>
       (if ip = [] \<or> port = [] then None
        else if hd ip = 91 \<and> (length ip < 2 \<or> last ip \<noteq> 93) then None
        else let v6 = (hd ip = 91); ip' = (if v6 then butlast (tl ip) else ip) in
          (case (ParseUint 16 port, ParseAddr ip') of
             (Some n, Some a) \<Rightarrow> if v6 = Is4 a then None else Some (AddrPortFrom a (of_nat n))
           | _ \<Rightarrow> None)))"

definition ParsePrefix :: "gostring \<Rightarrow> net_prefix option" where
  "ParsePrefix s = (case cut_last 47 s of
      None \<Rightarrow> None
    | Some (ip, bits) \<Rightarrow>
       (case ParseAddr ip of
          None \<Rightarrow> None
        | Some a \<Rightarrow>
           (if Is6 a \<and> Zone a \<noteq> [] then None
            else if 1 < length bits \<and> \<not> (49 \<le> hd bits \<and> hd bits \<le> 57) then None
            else case ParseUint 63 bits of
                None \<Rightarrow> None
              | Some n \<Rightarrow> if n \<le> BitLen a then Some \<lparr>pf_addr = a, pf_bits = n\<rparr> else None)))"

section \<open>Lemmas\<close>

lemma parseIPv6_tail_valid: "parseIPv6_tail zone ell s = Some a \<Longrightarrow> Is6 a"
  by (auto simp: parseIPv6_tail_def WithZone_def AddrFrom16_def split: option.splits if_splits)

lemma parseIPv6_valid: "parseIPv6 s = Some a \<Longrightarrow> Is6 a"
  by (auto simp: parseIPv6_def Let_def dest: parseIPv6_tail_valid split: if_splits)

lemma ParseAddr_IsValid: "ParseAddr s = Some a \<Longrightarrow> IsValid a"
  by (auto simp: ParseAddr_def IsValid_def AddrFrom4_def dest: parseIPv6_valid
      split: option.splits if_splits)

text \<open>\<open>ParsePrefix\<close> promises a valid prefix: an address without zone and a length that fits it.\<close>

lemma ParsePrefix_valid:
  assumes "ParsePrefix s = Some p"
  shows "prefix_valid p"
  using assms
  by (cases "pf_addr p")
     (auto simp: ParsePrefix_def prefix_valid_def dest!: ParseAddr_IsValid split: option.splits if_splits)

lemma ParseAddrPort_IsValid: "ParseAddrPort s = Some ap \<Longrightarrow> IsValid (ap_addr ap)"
  by (auto simp: ParseAddrPort_def Let_def dest: ParseAddr_IsValid
      split: option.splits if_splits prod.splits)

lemma ParseAddr_samples:
  "ParseAddr (bytes_of ''127.0.0.1'') = Some (V4 0x7f000001)"
  "ParseAddr (bytes_of ''2001:db8::1'') = Some (V6 0x20010db8000000000000000000000001 [])"
  "ParseAddr (bytes_of ''::ffff:1.2.3.4'') = Some (V6 0xffff01020304 [])"
  "ParseAddr (bytes_of ''::'') = Some (V6 0 [])"
  "ParseAddr (bytes_of ''1.2.3'') = None"
  "ParseAddr (bytes_of ''eth0'') = None"
  by code_simp+

end
