(* ===== verification/Config.thy ===== *)
theory Config
  imports NetipParse
begin

text \<open>
  Model of \<open>internal/config/config.go\<close>: the boot configuration, its validation, its defaults, and the
  parsers of the fallback and of the log level. The error of a validation is the message the source
  builds, without the values \<open>fmt.Errorf\<close> fills in.
\<close>

section \<open>Definitions\<close>

record AuthMode =
  am_Username :: gostring
  am_Password :: gostring

definition HasAuth :: "AuthMode \<Rightarrow> bool" where
  "HasAuth a \<longleftrightarrow> am_Username a \<noteq> [] \<and> am_Password a \<noteq> []"

datatype ProxyKind = ProxyHTTP | ProxyHTTPS | ProxySocks5 | ProxyAuto

record ProxyConfig =
  pc_Kind :: ProxyKind
  pc_Auth :: AuthMode
  pc_TLSCert :: gostring
  pc_TLSKey :: gostring

record Fallback =
  fb_Address :: addr
  fb_Interface :: gostring

record UDPConfig =
  uc_MaxPacketSize :: int
  uc_BatchSize :: int
  uc_BatchBufferBudget :: int
  uc_SendQueueSize :: int
  uc_SendWorkers :: int
  uc_SocketBufferBytes :: int
  uc_MaxAssociations :: u32
  uc_MetricsIntervalSecs :: u64
  uc_AssociationIdleTimeoutSecs :: u64
  uc_GSO :: bool
  uc_GRO :: bool

definition IsInterface :: "Fallback \<Rightarrow> bool" where
  "IsInterface f \<longleftrightarrow> fb_Interface f \<noteq> []"

definition ParseFallback :: "gostring \<Rightarrow> Fallback res" where
  "ParseFallback s = (case ParseAddr s of
      Some a \<Rightarrow> Inr \<lparr>fb_Address = a, fb_Interface = []\<rparr>
    | None \<Rightarrow> Inr \<lparr>fb_Address = ZeroAddr, fb_Interface = s\<rparr>)"

record BootArgs =
  ba_LogLevel :: gostring
  ba_Bind :: addr_port
  ba_Concurrent :: u32
  ba_Workers :: int
  ba_CIDR :: "net_prefix option"
  ba_CIDRRange :: "byte option"
  ba_Fallback :: "Fallback option"
  ba_ConnectTimeout :: u64
  ba_TCPUserTimeout :: "u64 option"
  ba_ReuseAddr :: "bool option"
  ba_MaxPendingDials :: int
  ba_ReusePort :: bool
  ba_UDP :: UDPConfig
  ba_Proxy :: ProxyConfig

definition Validate :: "BootArgs \<Rightarrow> unit res" where
  "Validate a =
     (let u = ba_UDP a; auth = pc_Auth (ba_Proxy a); px = ba_Proxy a in
      if ba_Concurrent a = 0 then Inl (Message ''concurrent connection limit must be greater than zero'')
      else if ba_ConnectTimeout a = 0 then Inl (Message ''connect timeout must be greater than zero'')
      else if ba_Workers a < 0 then Inl (Message ''workers must not be negative'')
      else if uc_MaxPacketSize u < 512 \<or> uc_MaxPacketSize u > 65535
        then Inl (Message ''UDP maximum packet size must be between 512 and 65535'')
      else if uc_BatchSize u < 1 \<or> uc_BatchSize u > 1024
        then Inl (Message ''UDP batch size must be between 1 and 1024'')
      else if uc_BatchBufferBudget u < 0
        then Inl (Message ''UDP batch buffer budget must not be negative'')
      else if uc_SendQueueSize u < 1 then Inl (Message ''UDP send queue size must be greater than zero'')
      else if uc_SendWorkers u < 0 \<or> uc_SendWorkers u > 4096
        then Inl (Message ''UDP send workers must be between 0 and 4096'')
      else if uc_SocketBufferBytes u \<noteq> 0
          \<and> (uc_SocketBufferBytes u < 4096 \<or> uc_SocketBufferBytes u > 2 ^ 30)
        then Inl (Message ''UDP socket buffer must be 0 (system default) or between 4096 and 1<<30 bytes'')
      else if uc_MaxAssociations u > ba_Concurrent a
        then Inl (Message ''UDP association limit must not exceed concurrent connection limit'')
      else if (am_Username auth = []) \<noteq> (am_Password auth = [])
        then Inl (Message ''username and password must be configured together'')
      else if (pc_TLSCert px = []) \<noteq> (pc_TLSKey px = [])
        then Inl (Message ''TLS certificate and key must be configured together'')
      else (case ba_CIDRRange a of
          None \<Rightarrow> Inr ()
        | Some rng \<Rightarrow> (case ba_CIDR a of
             None \<Rightarrow> Inl (Message ''CIDR range requires a CIDR'')
           | Some cidr \<Rightarrow>
              let rangeBits = unat rng in
              if rangeBits < pf_bits cidr \<or> rangeBits > BitLen (pf_addr cidr)
              then Inl (Message ''CIDR range must be between the prefix length and the address width'')
              else Inr ())))"

definition DefaultUDPConfig :: UDPConfig where
  "DefaultUDPConfig =
     \<lparr>uc_MaxPacketSize = 65507, uc_BatchSize = 32, uc_BatchBufferBudget = 1024,
      uc_SendQueueSize = 4096, uc_SendWorkers = 0, uc_SocketBufferBytes = 0,
      uc_MaxAssociations = 0, uc_MetricsIntervalSecs = 30, uc_AssociationIdleTimeoutSecs = 0,
      uc_GSO = False, uc_GRO = False\<rparr>"

definition DefaultBootArgs :: BootArgs where
  "DefaultBootArgs =
     \<lparr>ba_LogLevel = bytes_of ''info'', ba_Bind = AddrPortFrom (V4 0x7f000001) 1080,
      ba_Concurrent = 8192, ba_Workers = 0, ba_CIDR = None, ba_CIDRRange = None,
      ba_Fallback = None, ba_ConnectTimeout = 10, ba_TCPUserTimeout = None,
      ba_ReuseAddr = Some True, ba_MaxPendingDials = 512, ba_ReusePort = False,
      ba_UDP = DefaultUDPConfig,
      ba_Proxy = \<lparr>pc_Kind = ProxyHTTP, pc_Auth = \<lparr>am_Username = [], am_Password = []\<rparr>,
        pc_TLSCert = [], pc_TLSKey = []\<rparr>\<rparr>"

definition ParseLogLevel :: "gostring \<Rightarrow> gostring" where
  "ParseLogLevel s =
     (let l = ToLower s in
      if l = bytes_of ''trace'' then bytes_of ''DEBUG''
      else if l = bytes_of ''debug'' then bytes_of ''DEBUG''
      else if l = bytes_of ''info'' then bytes_of ''INFO''
      else if l = bytes_of ''warn'' then bytes_of ''WARN''
      else if l = bytes_of ''error'' then bytes_of ''ERROR''
      else bytes_of ''INFO'')"

section \<open>Lemmas\<close>

text \<open>What a validated configuration guarantees; the consumers of the configuration rely on it.\<close>

definition boot_ok :: "BootArgs \<Rightarrow> bool" where
  "boot_ok a \<longleftrightarrow>
     0 < ba_Concurrent a \<and> 0 < ba_ConnectTimeout a \<and> 0 \<le> ba_Workers a
   \<and> uc_MaxPacketSize (ba_UDP a) \<in> {512..65535}
   \<and> uc_BatchSize (ba_UDP a) \<in> {1..1024}
   \<and> 0 \<le> uc_BatchBufferBudget (ba_UDP a)
   \<and> 1 \<le> uc_SendQueueSize (ba_UDP a)
   \<and> uc_SendWorkers (ba_UDP a) \<in> {0..4096}
   \<and> (uc_SocketBufferBytes (ba_UDP a) = 0 \<or> uc_SocketBufferBytes (ba_UDP a) \<in> {4096..2 ^ 30})
   \<and> uc_MaxAssociations (ba_UDP a) \<le> ba_Concurrent a
   \<and> (am_Username (pc_Auth (ba_Proxy a)) = [] \<longleftrightarrow> am_Password (pc_Auth (ba_Proxy a)) = [])
   \<and> (pc_TLSCert (ba_Proxy a) = [] \<longleftrightarrow> pc_TLSKey (ba_Proxy a) = [])
   \<and> (case ba_CIDRRange a of None \<Rightarrow> True
      | Some r \<Rightarrow> (case ba_CIDR a of None \<Rightarrow> False
         | Some c \<Rightarrow> pf_bits c \<le> unat r \<and> unat r \<le> BitLen (pf_addr c)))"

lemma Validate_iff: "Validate a = Inr () \<longleftrightarrow> boot_ok a"
  unfolding Validate_def boot_ok_def Let_def
  by (auto simp: word_gt_0 not_less not_le split: option.splits if_splits)

lemma ParseFallback_total: "\<exists>f. ParseFallback s = Inr f \<and> (IsInterface f \<longrightarrow> ParseAddr s = None)"
  by (auto simp: ParseFallback_def IsInterface_def split: option.splits)

end
