(* ===== verification/DnsCache.thy ===== *)
theory DnsCache
  imports NetipParse
begin

text \<open>
  Model of \<open>internal/connect/dns_cache.go\<close>: the bounded TTL cache that merges concurrent lookups of one
  name. Each section the code runs under the mutex is a function on the cache; a step relation lets
  any number of goroutines run \<open>Lookup\<close> concurrently, with the resolver's answers, the clock, the
  cancellation of contexts and Go's choice of the map entry to evict left open. Times are
  nanoseconds; a lookup's result is the pair (addresses, error) of the source.
\<close>

section \<open>Definitions\<close>

subsection \<open>The cache\<close>

type_synonym dns_result = "addr list \<times> go_error option"

record dnsCacheEntry =
  de_addrs :: "addr list"
  de_err :: "go_error option"
  de_expiresAt :: int

text \<open>
  The maps are association lists. \<open>dc_calls\<close> holds the results of the finished calls, the contents of
  the \<open>dnsLookupCall\<close> objects whose \<open>done\<close> channel is closed; a call is identified by a number.
\<close>

record dnsCache =
  dc_entries :: "(gostring \<times> dnsCacheEntry) list"
  dc_inflight :: "(gostring \<times> nat) list"
  dc_calls :: "(nat \<times> dns_result) list"
  dc_ttl :: int
  dc_negativeTTL :: int
  dc_maxEntries :: int
  dc_lookupSlots :: chan

definition newDNSCache :: "int \<Rightarrow> int \<Rightarrow> int \<Rightarrow> int \<Rightarrow> dnsCache" where
  "newDNSCache ttl negativeTTL maxEntries maxConcurrent =
     (let maxConcurrent = (if maxConcurrent < 1 then 1 else maxConcurrent) in
      \<lparr>dc_entries = [], dc_inflight = [], dc_calls = [], dc_ttl = ttl, dc_negativeTTL = negativeTTL,
       dc_maxEntries = maxEntries, dc_lookupSlots = chan_make (nat maxConcurrent)\<rparr>)"

definition defaultDNSCache :: dnsCache where
  "defaultDNSCache = newDNSCache (30 * 1000000000) (3 * 1000000000) 4096 128"

text \<open>The lookup function of the default cache unmaps what the resolver returns.\<close>

definition default_lookup :: "dns_result \<Rightarrow> dns_result" where
  "default_lookup r = (case snd r of Some e \<Rightarrow> ([], Some e) | None \<Rightarrow> (map Unmap (fst r), None))"

definition normalizeDNSName :: "gostring \<Rightarrow> gostring" where
  "normalizeDNSName host = ToLower (TrimSuffix host (bytes_of ''.''))"

definition LookupCached :: "dnsCache \<Rightarrow> int \<Rightarrow> gostring \<Rightarrow> addr list option" where
  "LookupCached c now host = (case map_of (dc_entries c) (normalizeDNSName host) of
      None \<Rightarrow> None
    | Some entry \<Rightarrow>
       (if de_err entry \<noteq> None \<or> length (de_addrs entry) = 0 \<or> \<not> now < de_expiresAt entry then None
        else Some (de_addrs entry)))"

text \<open>The read-locked fast path of \<open>Lookup\<close>.\<close>

definition lookup_fast :: "dnsCache \<Rightarrow> gostring \<Rightarrow> int \<Rightarrow> dns_result option" where
  "lookup_fast c key now = (case map_of (dc_entries c) key of
      Some entry \<Rightarrow> if now < de_expiresAt entry then Some (de_addrs entry, de_err entry) else None
    | None \<Rightarrow> None)"

text \<open>
  The write-locked section: a hit, an in-flight call to wait for, or a new call this goroutine leads.
\<close>

datatype lookup_decision = Hit dns_result | Join nat | Lead nat

definition del :: "'k \<Rightarrow> ('k \<times> 'v) list \<Rightarrow> ('k \<times> 'v) list" where
  "del k xs = filter (\<lambda>(k', v). k' \<noteq> k) xs"

definition lookup_locked :: "dnsCache \<Rightarrow> gostring \<Rightarrow> int \<Rightarrow> nat \<Rightarrow> lookup_decision \<times> dnsCache" where
  "lookup_locked c key now fresh = (case lookup_fast c key now of
      Some r \<Rightarrow> (Hit r, c)
    | None \<Rightarrow>
       (let c = c\<lparr>dc_entries := del key (dc_entries c)\<rparr> in
        case map_of (dc_inflight c) key of
          Some call \<Rightarrow> (Join call, c)
        | None \<Rightarrow> (Lead fresh, c\<lparr>dc_inflight := (key, fresh) # dc_inflight c\<rparr>)))"

text \<open>\<open>pick\<close> is the position of the entry Go's map iteration yields first.\<close>

definition evictLocked :: "int \<Rightarrow> int \<Rightarrow> nat \<Rightarrow> (gostring \<times> dnsCacheEntry) list \<Rightarrow> (gostring \<times> dnsCacheEntry) list" where
  "evictLocked maxEntries now pick entries =
     (if int (length entries) < maxEntries then entries
      else let entries = filter (\<lambda>(k, e). now < de_expiresAt e) entries in
        if int (length entries) < maxEntries then entries
        else let i = pick mod length entries in take i entries @ drop (Suc i) entries)"

text \<open>
  The second locked section, run by the leader when \<open>resolve\<close> has returned: \<open>now\<close> is the time read at the
  start of the call, \<open>now'\<close> the time of the insertion.
\<close>

definition lookup_finish ::
    "dnsCache \<Rightarrow> gostring \<Rightarrow> nat \<Rightarrow> int \<Rightarrow> int \<Rightarrow> bool \<Rightarrow> nat \<Rightarrow> dns_result \<Rightarrow> dnsCache" where
  "lookup_finish c key call now now' cancelled pick r =
     (let (addrs, err) = r;
          c = c\<lparr>dc_calls := (call, r) # dc_calls c, dc_inflight := del key (dc_inflight c)\<rparr>
      in if \<not> cancelled then
           (let ttl = (if err \<noteq> None then dc_negativeTTL c else dc_ttl c) in
            if ttl > 0 \<and> dc_maxEntries c > 0 then
              c\<lparr>dc_entries := (key, \<lparr>de_addrs = addrs, de_err = err, de_expiresAt = now' + ttl\<rparr>)
                 # del key (evictLocked (dc_maxEntries c) now pick (dc_entries c))\<rparr>
            else c)
         else c)"

subsection \<open>Concurrent lookups\<close>

text \<open>
  Where a goroutine stands in \<open>Lookup\<close>: not started, between the two locks, waiting for another's
  call, in \<open>resolve\<close> before and after it got a slot, back from \<open>resolve\<close>, returned.
\<close>

datatype phase =
    PIdle
  | PMiss gostring int
  | PWait gostring nat
  | PAwaitSlot gostring nat int
  | PLookup gostring nat int
  | PFinish gostring nat int dns_result
  | PDone dns_result

record dns_system =
  ds_cache :: dnsCache
  ds_phase :: "nat \<Rightarrow> phase"
  ds_now :: int
  ds_cancelled :: "nat set"
  ds_next :: nat
  ds_log :: "(gostring \<times> dns_result) set"

definition dns_init :: "dnsCache \<Rightarrow> int \<Rightarrow> dns_system" where
  "dns_init c now = \<lparr>ds_cache = c, ds_phase = (\<lambda>_. PIdle), ds_now = now, ds_cancelled = {}, ds_next = 0, ds_log = {}\<rparr>"

definition set_phase :: "nat \<Rightarrow> phase \<Rightarrow> dns_system \<Rightarrow> dns_system" where
  "set_phase t p s = s\<lparr>ds_phase := (ds_phase s)(t := p)\<rparr>"

definition decide :: "gostring \<Rightarrow> int \<Rightarrow> lookup_decision \<Rightarrow> phase" where
  "decide key now d = (case d of Hit r \<Rightarrow> PDone r | Join i \<Rightarrow> PWait key i | Lead i \<Rightarrow> PAwaitSlot key i now)"

inductive dns_step :: "dns_system \<Rightarrow> dns_system \<Rightarrow> bool" where
  fast_hit: "ds_phase s t = PIdle \<Longrightarrow>
     lookup_fast (ds_cache s) (normalizeDNSName host) (ds_now s) = Some r \<Longrightarrow>
     dns_step s (set_phase t (PDone r) s)"
| fast_miss: "ds_phase s t = PIdle \<Longrightarrow>
     lookup_fast (ds_cache s) (normalizeDNSName host) (ds_now s) = None \<Longrightarrow>
     dns_step s (set_phase t (PMiss (normalizeDNSName host) (ds_now s)) s)"
| locked: "ds_phase s t = PMiss key now \<Longrightarrow>
     lookup_locked (ds_cache s) key now (ds_next s) = (d, c) \<Longrightarrow>
     dns_step s (set_phase t (decide key now d) (s\<lparr>ds_cache := c, ds_next := Suc (ds_next s)\<rparr>))"
| slot: "ds_phase s t = PAwaitSlot key call now \<Longrightarrow>
     chan_try_send (dc_lookupSlots (ds_cache s)) = Some ch \<Longrightarrow>
     dns_step s (set_phase t (PLookup key call now) (s\<lparr>ds_cache := (ds_cache s)\<lparr>dc_lookupSlots := ch\<rparr>\<rparr>))"
| slot_cancelled: "ds_phase s t = PAwaitSlot key call now \<Longrightarrow> t \<in> ds_cancelled s \<Longrightarrow>
     dns_step s (set_phase t (PFinish key call now ([], Some CtxErr)) s)"
| resolved: "ds_phase s t = PLookup key call now \<Longrightarrow>
     chan_recv (dc_lookupSlots (ds_cache s)) = Some ch \<Longrightarrow>
     dns_step s (set_phase t (PFinish key call now r)
       (s\<lparr>ds_cache := (ds_cache s)\<lparr>dc_lookupSlots := ch\<rparr>, ds_log := insert (key, r) (ds_log s)\<rparr>))"
| finish: "ds_phase s t = PFinish key call now r \<Longrightarrow>
     dns_step s (set_phase t (PDone r) (s\<lparr>ds_cache :=
       lookup_finish (ds_cache s) key call now (ds_now s) (t \<in> ds_cancelled s) pick r\<rparr>))"
| wait_done: "ds_phase s t = PWait key call \<Longrightarrow> map_of (dc_calls (ds_cache s)) call = Some r \<Longrightarrow>
     dns_step s (set_phase t (PDone r) s)"
| wait_cancelled: "ds_phase s t = PWait key call \<Longrightarrow> t \<in> ds_cancelled s \<Longrightarrow>
     dns_step s (set_phase t (PDone ([], Some CtxErr)) s)"
| tick: "ds_now s \<le> now' \<Longrightarrow> dns_step s (s\<lparr>ds_now := now'\<rparr>)"
| cancel: "dns_step s (s\<lparr>ds_cancelled := insert t (ds_cancelled s)\<rparr>)"

inductive dns_reachable :: "dns_system \<Rightarrow> bool" where
  start: "dns_reachable (dns_init (newDNSCache ttl nttl mx conc) now)"
| step: "dns_reachable s \<Longrightarrow> dns_step s s' \<Longrightarrow> dns_reachable s'"

section \<open>Maps and eviction\<close>

definition keys :: "('k \<times> 'v) list \<Rightarrow> 'k set" where
  "keys xs = fst ` set xs"

lemma set_del: "set (del k xs) = {p \<in> set xs. fst p \<noteq> k}"
  by (auto simp: del_def)

lemma in_del [simp]: "(a, b) \<in> set (del k xs) \<longleftrightarrow> (a, b) \<in> set xs \<and> a \<noteq> k"
  by (auto simp: del_def)

lemma keys_simps [simp]: "keys [] = {}" "keys (p # xs) = insert (fst p) (keys xs)"
  "keys (del k xs) = keys xs - {k}"
  by (auto simp: keys_def set_del)

lemma keys_fold [simp]: "fst ` set xs = keys xs"
  by (simp add: keys_def)

lemma keysI: "(k, v) \<in> set xs \<Longrightarrow> k \<in> keys xs"
  by (force simp: keys_def simp del: keys_fold)

lemma distinct_del [simp]: "distinct (map fst xs) \<Longrightarrow> distinct (map fst (del k xs))"
  by (simp add: del_def distinct_map_filter)

lemma length_del: "length (del k xs) \<le> length xs"
  by (simp add: del_def)

lemma evictLocked_subset: "set (evictLocked mx now pick es) \<subseteq> set es"
  by (auto simp: evictLocked_def Let_def dest: in_set_takeD in_set_dropD)

lemma evictLocked_distinct:
  assumes "distinct (map fst es)"
  shows "distinct (map fst (evictLocked mx now pick es))"
proof -
  have f: "distinct (map fst (filter P es))" for P using assms by (rule distinct_map_filter)
  have "distinct (map fst (take i xs @ drop (Suc i) xs))" if "distinct (map fst xs)" for i and xs :: "(gostring \<times> dnsCacheEntry) list"
  proof -
    have "map fst (take i xs @ drop (Suc i) xs) = take i (map fst xs) @ drop (Suc i) (map fst xs)"
      by (simp add: take_map drop_map)
    moreover have "set (take i (map fst xs)) \<inter> set (drop (Suc i) (map fst xs)) = {}"
      using that set_take_disj_set_drop_if_distinct [of "map fst xs" i "Suc i"] by simp
    ultimately show ?thesis using that by simp
  qed
  then show ?thesis using assms f by (simp add: evictLocked_def Let_def)
qed

lemma evictLocked_length:
  assumes "0 < mx" "int (length es) \<le> mx"
  shows "int (length (evictLocked mx now pick es)) < mx"
proof -
  define fs where "fs = filter (\<lambda>(k, e). now < de_expiresAt e) es"
  have "length fs \<le> length es" by (simp add: fs_def)
  moreover have "int (length (take i fs @ drop (Suc i) fs)) < mx" if "\<not> int (length fs) < mx" "i = pick mod length fs" for i
  proof -
    have "0 < length fs" using that(1) assms(1) by auto
    then have "i < length fs" using that(2) by simp
    then show ?thesis using assms(2) \<open>length fs \<le> length es\<close> by simp
  qed
  ultimately show ?thesis by (auto simp: evictLocked_def Let_def simp flip: fs_def)
qed

section \<open>Invariants of the concurrent cache\<close>

definition cache_ok :: "dnsCache \<Rightarrow> bool" where
  "cache_ok c \<longleftrightarrow> distinct (map fst (dc_entries c)) \<and>
     int (length (dc_entries c)) \<le> max 0 (dc_maxEntries c) \<and>
     keys (dc_inflight c) \<inter> keys (dc_entries c) = {}"

lemma cache_ok_locked:
  assumes "cache_ok c" "lookup_locked c key now fresh = (d, c')"
  shows "cache_ok c'" "dc_maxEntries c' = dc_maxEntries c" "dc_lookupSlots c' = dc_lookupSlots c"
    "dc_calls c' = dc_calls c"
  using assms length_del [of key "dc_entries c"]
  by (auto simp: cache_ok_def lookup_locked_def Let_def split: option.splits)

lemma cache_ok_finish:
  assumes "cache_ok c"
  shows "cache_ok (lookup_finish c key call now now' cc pick r)"
proof (cases "\<not> cc \<and> 0 < dc_maxEntries c")
  case True
  let ?e = "evictLocked (dc_maxEntries c) now pick (dc_entries c)"
  have "int (length ?e) < dc_maxEntries c"
    using True assms by (intro evictLocked_length) (auto simp: cache_ok_def)
  then have "int (length (del key ?e)) < dc_maxEntries c"
    using length_del [of key ?e] by simp
  moreover have "distinct (map fst (del key ?e))"
    using assms by (intro distinct_del evictLocked_distinct) (simp add: cache_ok_def)
  moreover have "keys (del key ?e) \<subseteq> keys (dc_entries c)"
    using evictLocked_subset [of "dc_maxEntries c" now pick "dc_entries c"] by (auto simp: keys_def set_del simp del: keys_fold)
  ultimately show ?thesis
    using assms True
    by (cases r) (auto simp: cache_ok_def lookup_finish_def Let_def)
next
  case False
  then show ?thesis using assms
    by (cases r) (auto simp: cache_ok_def lookup_finish_def Let_def)
qed

definition leads :: "phase \<Rightarrow> (gostring \<times> nat) option" where
  "leads p = (case p of
      PAwaitSlot k i _ \<Rightarrow> Some (k, i)
    | PLookup k i _ \<Rightarrow> Some (k, i)
    | PFinish k i _ _ \<Rightarrow> Some (k, i)
    | _ \<Rightarrow> None)"

definition waits :: "phase \<Rightarrow> (gostring \<times> nat) option" where
  "waits p = (case p of PWait k i \<Rightarrow> Some (k, i) | _ \<Rightarrow> None)"

lemma phase_simps [simp]:
  "leads PIdle = None" "leads (PMiss k n) = None" "leads (PWait k i) = None"
  "leads (PAwaitSlot k i n) = Some (k, i)" "leads (PLookup k i n) = Some (k, i)"
  "leads (PFinish k i n r) = Some (k, i)" "leads (PDone r) = None"
  "waits PIdle = None" "waits (PMiss k n) = None" "waits (PWait k i) = Some (k, i)"
  "waits (PAwaitSlot k i n) = None" "waits (PLookup k i n) = None"
  "waits (PFinish k i n r) = None" "waits (PDone r) = None"
  by (simp_all add: leads_def waits_def)

text \<open>
  Single flight: the calls in flight have distinct names, each is led by exactly one goroutine, and
  whoever waits does so for a call that is in flight or finished.
\<close>

definition flight_inv :: "(gostring \<times> nat) list \<Rightarrow> (nat \<Rightarrow> (gostring \<times> nat) option)
    \<Rightarrow> (nat \<Rightarrow> (gostring \<times> nat) option) \<Rightarrow> nat set \<Rightarrow> bool" where
  "flight_inv fl ld wt dn \<longleftrightarrow> distinct (map fst fl)
   \<and> (\<forall>t p. ld t = Some p \<longrightarrow> p \<in> set fl)
   \<and> (\<forall>t t' k i i'. ld t = Some (k, i) \<longrightarrow> ld t' = Some (k, i') \<longrightarrow> t = t')
   \<and> (\<forall>p \<in> set fl. \<exists>t. ld t = Some p)
   \<and> (\<forall>t k i. wt t = Some (k, i) \<longrightarrow> (k, i) \<in> set fl \<or> i \<in> dn)"

definition flight_ok :: "dns_system \<Rightarrow> bool" where
  "flight_ok s \<longleftrightarrow> flight_inv (dc_inflight (ds_cache s)) (leads \<circ> ds_phase s) (waits \<circ> ds_phase s)
     (keys (dc_calls (ds_cache s)))"

lemma flight_lead:
  assumes "flight_inv fl ld wt dn" "k \<notin> keys fl" "ld t = None"
  shows "flight_inv ((k, i) # fl) (ld(t := Some (k, i))) wt dn"
proof -
  have "k' \<noteq> k" if "ld t' = Some (k', i')" for t' k' i'
    using assms(1,2) that keysI [of k' i' fl] unfolding flight_inv_def by blast
  then show ?thesis using assms unfolding flight_inv_def
    by (auto; metis option.distinct(1))
qed

lemma flight_join:
  "flight_inv fl ld wt dn \<Longrightarrow> (k, i) \<in> set fl \<Longrightarrow> flight_inv fl ld (wt(t := Some (k, i))) dn"
  unfolding flight_inv_def by auto

lemma flight_leave: "flight_inv fl ld wt dn \<Longrightarrow> flight_inv fl ld (wt(t := None)) dn"
  unfolding flight_inv_def by auto

lemma flight_finish:
  assumes "flight_inv fl ld wt dn" "ld t = Some (k, i)"
  shows "flight_inv (del k fl) (ld(t := None)) wt (insert i dn)"
proof -
  have d: "distinct (map fst fl)" and ki: "(k, i) \<in> set fl" using assms unfolding flight_inv_def by blast+
  have "i' = i" if "(k, i') \<in> set fl" for i' using d ki that by (metis eq_key_imp_eq_value)
  then show ?thesis using assms unfolding flight_inv_def
    by (auto simp: set_del; metis fst_conv option.sel)
qed

definition in_lookup :: "phase \<Rightarrow> bool" where
  "in_lookup p = (case p of PLookup _ _ _ \<Rightarrow> True | _ \<Rightarrow> False)"

definition slots_ok :: "dns_system \<Rightarrow> bool" where
  "slots_ok s \<longleftrightarrow> chan_wf (dc_lookupSlots (ds_cache s)) \<and> finite {t. in_lookup (ds_phase s t)} \<and>
     card {t. in_lookup (ds_phase s t)} = ch_len (dc_lookupSlots (ds_cache s))"

text \<open>What a leader brings back came from the resolver or from its own cancelled context.\<close>

definition back_ok :: "(gostring \<times> dns_result) set \<Rightarrow> bool \<Rightarrow> phase \<Rightarrow> bool" where
  "back_ok lg cc p = (case p of
      PFinish k i now r \<Rightarrow> (k, r) \<in> lg \<or> (r = ([], Some CtxErr) \<and> cc)
    | _ \<Rightarrow> True)"

definition log_ok :: "dns_system \<Rightarrow> bool" where
  "log_ok s \<longleftrightarrow>
     (\<forall>(k, e) \<in> set (dc_entries (ds_cache s)). (k, (de_addrs e, de_err e)) \<in> ds_log s)
   \<and> (\<forall>t. back_ok (ds_log s) (t \<in> ds_cancelled s) (ds_phase s t))"

lemma back_ok_simps [simp]:
  "back_ok lg cc PIdle" "back_ok lg cc (PMiss k n)" "back_ok lg cc (PWait k i)"
  "back_ok lg cc (PAwaitSlot k i n)" "back_ok lg cc (PLookup k i n)" "back_ok lg cc (PDone r)"
  "back_ok lg cc (PFinish k i n r) \<longleftrightarrow> (k, r) \<in> lg \<or> (r = ([], Some CtxErr) \<and> cc)"
  "back_ok lg cc (decide key now d)"
  by (simp_all add: back_ok_def decide_def split: lookup_decision.splits)

lemma back_ok_mono: "back_ok lg cc p \<Longrightarrow> lg \<subseteq> lg' \<Longrightarrow> (cc \<Longrightarrow> cc') \<Longrightarrow> back_ok lg' cc' p"
  by (cases p) auto

lemmas dns_defs = set_phase_def decide_def leads_def waits_def in_lookup_def

lemma dns_step_cache_ok: "dns_step s s' \<Longrightarrow> cache_ok (ds_cache s) \<Longrightarrow> cache_ok (ds_cache s')"
  by (induction rule: dns_step.induct)
     (auto simp: set_phase_def cache_ok_finish dest: cache_ok_locked(1), auto simp: cache_ok_def)

lemma lookup_locked_cases:
  assumes "lookup_locked c key now fresh = (d, c')"
  obtains (hit) r where "d = Hit r" "c' = c"
    | (join) i where "d = Join i" "(key, i) \<in> set (dc_inflight c)" "dc_inflight c' = dc_inflight c"
    | (lead) "d = Lead fresh" "key \<notin> keys (dc_inflight c)" "dc_inflight c' = (key, fresh) # dc_inflight c"
proof (cases "lookup_fast c key now")
  case (Some r)
  then show ?thesis using assms hit [of r] by (simp add: lookup_locked_def)
next
  case None
  show ?thesis
  proof (cases "map_of (dc_inflight c) key")
    case None
    then have "key \<notin> keys (dc_inflight c)" by (simp add: map_of_eq_None_iff)
    with None \<open>lookup_fast c key now = None\<close> assms lead show ?thesis
      by (auto simp: lookup_locked_def Let_def)
  next
    case (Some i)
    then have "(key, i) \<in> set (dc_inflight c)" by (rule map_of_SomeD)
    with Some \<open>lookup_fast c key now = None\<close> assms join [of i] show ?thesis
      by (auto simp: lookup_locked_def Let_def)
  qed
qed

lemma lookup_finish_sel:
  "dc_inflight (lookup_finish c key call now now' cc pick r) = del key (dc_inflight c)"
  "dc_calls (lookup_finish c key call now now' cc pick r) = (call, r) # dc_calls c"
  "dc_lookupSlots (lookup_finish c key call now now' cc pick r) = dc_lookupSlots c"
  "dc_maxEntries (lookup_finish c key call now now' cc pick r) = dc_maxEntries c"
  by (cases r; auto simp: lookup_finish_def Let_def)+

lemma flight_phase:
  assumes "flight_inv fl (leads \<circ> f) (waits \<circ> f) dn" "leads p = leads (f t)" "waits p = None"
  shows "flight_inv fl (leads \<circ> f(t := p)) (waits \<circ> f(t := p)) dn"
proof -
  have "(leads \<circ> f)(t := leads (f t)) = leads \<circ> f" by auto
  then show ?thesis using flight_leave [OF assms(1), of t] assms(2,3) by (simp add: fun_upd_comp)
qed

lemma dns_step_flight_ok:
  assumes "dns_step s s'" "flight_ok s"
  shows "flight_ok s'"
  using assms
proof (induction rule: dns_step.induct)
  case (locked s t key now d c)
  have calls: "dc_calls c = dc_calls (ds_cache s)"
    using locked(2) by (auto simp: lookup_locked_def Let_def split: option.splits)
  let ?ld = "leads \<circ> ds_phase s" and ?wt = "waits \<circ> ds_phase s" and ?dn = "keys (dc_calls (ds_cache s))"
  have fl: "flight_inv (dc_inflight (ds_cache s)) ?ld ?wt ?dn" using locked(3) by (simp add: flight_ok_def)
  have t: "?ld t = None" "?wt t = None" using locked(1) by simp_all
  have triv: "?ld(t := None) = ?ld" "?wt(t := None) = ?wt" using t by auto
  from locked(2) show ?case
  proof (cases rule: lookup_locked_cases)
    case (hit r)
    then show ?thesis using fl triv
      by (simp add: flight_ok_def set_phase_def fun_upd_comp decide_def)
  next
    case (join i)
    then show ?thesis using flight_join [OF fl join(2), of t] triv calls
      by (simp add: flight_ok_def set_phase_def fun_upd_comp decide_def)
  next
    case lead
    then show ?thesis using flight_lead [of _ ?ld, OF fl lead(2) t(1), of "ds_next s"] triv calls
      by (simp add: flight_ok_def set_phase_def fun_upd_comp decide_def)
  qed
next
  case (finish s t key call now r pick)
  have fl: "flight_inv (dc_inflight (ds_cache s)) (leads \<circ> ds_phase s) (waits \<circ> ds_phase s)
      (keys (dc_calls (ds_cache s)))" using finish(2) by (simp add: flight_ok_def)
  have t: "(leads \<circ> ds_phase s) t = Some (key, call)" "(waits \<circ> ds_phase s) t = None"
    using finish(1) by simp_all
  have "(waits \<circ> ds_phase s)(t := None) = waits \<circ> ds_phase s" using t(2) by auto
  with flight_finish [of _ "leads \<circ> ds_phase s", OF fl t(1)] show ?case
    by (simp add: flight_ok_def set_phase_def fun_upd_comp lookup_finish_sel)
qed (auto simp: flight_ok_def set_phase_def intro!: flight_phase)

lemma in_lookup_simps [simp]:
  "\<not> in_lookup PIdle" "\<not> in_lookup (PMiss k n)" "\<not> in_lookup (PWait k i)"
  "\<not> in_lookup (PAwaitSlot k i n)" "in_lookup (PLookup k i n)"
  "\<not> in_lookup (PFinish k i n r)" "\<not> in_lookup (PDone r)" "\<not> in_lookup (decide key now d)"
  by (simp_all add: in_lookup_def decide_def split: lookup_decision.splits)

lemma lookups_upd:
  "{u. in_lookup ((f(t := p)) u)} =
     (if in_lookup p then insert t {u. in_lookup (f u)} else {u. in_lookup (f u)} - {t})"
  by auto

lemma dns_step_slots_ok:
  assumes "dns_step s s'" "slots_ok s"
  shows "slots_ok s'"
  using assms
proof (induction rule: dns_step.induct)
  case (locked s t key now d c)
  have "dc_lookupSlots c = dc_lookupSlots (ds_cache s)"
    using locked(2) by (auto simp: lookup_locked_def Let_def split: option.splits)
  moreover have "{u. in_lookup (ds_phase s u)} - {t} = {u. in_lookup (ds_phase s u)}"
    using locked(1) by auto
  ultimately show ?case using locked(3)
    by (simp add: slots_ok_def set_phase_def lookups_upd del: fun_upd_apply)
next
  case (slot s t key call now ch)
  then have "t \<notin> {u. in_lookup (ds_phase s u)}" by simp
  with slot show ?case
    by (auto simp: slots_ok_def set_phase_def lookups_upd chan_try_send_def chan_wf_def simp del: fun_upd_apply
        split: if_splits)
next
  case (resolved s t key call now ch r)
  then have "t \<in> {u. in_lookup (ds_phase s u)}" by simp
  with resolved show ?case
    by (auto simp: slots_ok_def set_phase_def lookups_upd chan_recv_def chan_wf_def card_Diff_singleton
        simp del: fun_upd_apply split: if_splits)
qed (auto simp: slots_ok_def set_phase_def lookups_upd lookup_finish_sel simp del: fun_upd_apply)

lemma dns_step_log_ok:
  assumes "dns_step s s'" "log_ok s"
  shows "log_ok s'"
  using assms
proof (induction rule: dns_step.induct)
  case (locked s t key now d c)
  have "set (dc_entries c) \<subseteq> set (dc_entries (ds_cache s))"
    using locked(2) by (auto simp: lookup_locked_def Let_def set_del split: option.splits)
  with locked(3) show ?case
    by (auto simp: log_ok_def set_phase_def)
next
  case (finish s t key call now r pick)
  have "back_ok (ds_log s) (t \<in> ds_cancelled s) (ds_phase s t)" using finish(2) by (simp add: log_ok_def)
  then have "t \<notin> ds_cancelled s \<Longrightarrow> (key, r) \<in> ds_log s" using finish(1) by simp
  then have "\<forall>(k, e) \<in> set (dc_entries (lookup_finish (ds_cache s) key call now (ds_now s) (t \<in> ds_cancelled s) pick r)).
      (k, (de_addrs e, de_err e)) \<in> ds_log s"
    using finish(2) evictLocked_subset [of "dc_maxEntries (ds_cache s)" now pick "dc_entries (ds_cache s)"]
    by (cases r) (auto simp: log_ok_def lookup_finish_def Let_def set_del)
  with finish(2) show ?case by (simp add: log_ok_def set_phase_def)
qed (auto simp: log_ok_def set_phase_def intro: back_ok_mono)

section \<open>Reachable states\<close>

lemma dns_step_limits:
  assumes "dns_step s s'"
  shows "dc_maxEntries (ds_cache s') = dc_maxEntries (ds_cache s)"
    "ch_cap (dc_lookupSlots (ds_cache s')) = ch_cap (dc_lookupSlots (ds_cache s))"
  using assms
  by (induction rule: dns_step.induct)
     (auto simp: set_phase_def lookup_finish_sel lookup_locked_def Let_def chan_try_send_def chan_recv_def
        split: option.splits if_splits)

lemma dns_reachable_ok:
  assumes "dns_reachable s"
  shows "cache_ok (ds_cache s) \<and> flight_ok s \<and> slots_ok s \<and> log_ok s"
  using assms
proof (induction rule: dns_reachable.induct)
  case (start ttl nttl mx conc now)
  have "leads \<circ> (\<lambda>_. PIdle) = (\<lambda>_. None)" "waits \<circ> (\<lambda>_. PIdle) = (\<lambda>_. None)" by auto
  then show ?case
    by (simp add: dns_init_def newDNSCache_def cache_ok_def flight_ok_def flight_inv_def slots_ok_def
        log_ok_def chan_make_def chan_wf_def Let_def)
next
  case (step s s')
  then show ?case
    using dns_step_cache_ok dns_step_flight_ok dns_step_slots_ok dns_step_log_ok by blast
qed

text \<open>
  A run with two goroutines: the first leads the lookup of \<open>a\<close>, the second joins it; the resolver
  answers and the result is cached.
\<close>

lemma example_join:
  fixes k :: gostring
  defines "k \<equiv> normalizeDNSName (bytes_of ''a'')"
  shows "\<exists>s. dns_reachable s \<and> ds_phase s 0 = PAwaitSlot k 0 0 \<and> ds_phase s 1 = PWait k 0 \<and>
    ds_cache s = (newDNSCache 30 3 2 1)\<lparr>dc_inflight := [(k, 0)]\<rparr> \<and> ds_now s = 0 \<and> ds_cancelled s = {} \<and> ds_log s = {}"
proof -
  let ?c = "newDNSCache 30 3 2 1" and ?c1 = "(newDNSCache 30 3 2 1)\<lparr>dc_inflight := [(k, 0)]\<rparr>"
  let ?s0 = "dns_init ?c 0"
  let ?s1 = "set_phase 0 (PMiss k 0) ?s0"
  let ?s2 = "set_phase 1 (PMiss k 0) ?s1"
  let ?s3 = "set_phase 0 (decide k 0 (Lead 0)) (?s2\<lparr>ds_cache := ?c1, ds_next := Suc 0\<rparr>)"
  let ?s4 = "set_phase 1 (decide k 0 (Join 0)) (?s3\<lparr>ds_cache := ?c1, ds_next := Suc (Suc 0)\<rparr>)"
  have "dns_reachable ?s0" by (rule start)
  moreover have "dns_step ?s0 ?s1"
    using fast_miss [of ?s0 0 "bytes_of ''a''"]
    by (simp add: k_def dns_init_def newDNSCache_def lookup_fast_def)
  moreover have "dns_step ?s1 ?s2"
    using fast_miss [of ?s1 1 "bytes_of ''a''"]
    by (simp add: k_def dns_init_def newDNSCache_def lookup_fast_def set_phase_def)
  moreover have "dns_step ?s2 ?s3"
    using locked [of ?s2 0 k 0 "Lead 0" ?c1]
    by (simp add: dns_init_def newDNSCache_def lookup_fast_def set_phase_def lookup_locked_def del_def)
  moreover have "dns_step ?s3 ?s4"
    using locked [of ?s3 1 k 0 "Join 0" ?c1]
    by (simp add: dns_init_def newDNSCache_def lookup_fast_def set_phase_def lookup_locked_def del_def)
  ultimately have "dns_reachable ?s4" by (meson dns_reachable.step)
  then show ?thesis
    by (intro exI [of _ ?s4]) (simp add: set_phase_def decide_def dns_init_def)
qed

lemma example_cached:
  fixes k :: gostring
  defines "k \<equiv> normalizeDNSName (bytes_of ''a'')"
  shows "\<exists>s. dns_reachable s \<and> LookupCached (ds_cache s) 7 (bytes_of ''a'') = Some [V4 1]"
proof -
  obtain s where s: "dns_reachable s" "ds_phase s 0 = PAwaitSlot k 0 0"
    "ds_cache s = (newDNSCache 30 3 2 1)\<lparr>dc_inflight := [(k, 0)]\<rparr>" "ds_now s = 0" "ds_cancelled s = {}"
    using example_join unfolding k_def by blast
  let ?u = "set_phase 0 (PLookup k 0 0) (s\<lparr>ds_cache := (ds_cache s)\<lparr>dc_lookupSlots := \<lparr>ch_cap = 1, ch_len = 1\<rparr>\<rparr>\<rparr>)"
  let ?v = "set_phase 0 (PFinish k 0 0 ([V4 1], None))
    (?u\<lparr>ds_cache := (ds_cache ?u)\<lparr>dc_lookupSlots := \<lparr>ch_cap = 1, ch_len = 0\<rparr>\<rparr>, ds_log := insert (k, ([V4 1], None)) (ds_log ?u)\<rparr>)"
  let ?w = "set_phase 0 (PDone ([V4 1], None)) (?v\<lparr>ds_cache :=
    lookup_finish (ds_cache ?v) k 0 0 (ds_now ?v) (0 \<in> ds_cancelled ?v) 0 ([V4 1], None)\<rparr>)"
  have "dns_step s ?u"
    using slot [OF s(2), of "\<lparr>ch_cap = 1, ch_len = 1\<rparr>"] s(3)
    by (simp add: newDNSCache_def chan_make_def chan_try_send_def)
  moreover have "dns_step ?u ?v"
    using resolved [of ?u 0 k 0 0 "\<lparr>ch_cap = 1, ch_len = 0\<rparr>" "([V4 1], None)"]
    by (simp add: set_phase_def chan_recv_def)
  moreover have "dns_step ?v ?w"
    by (rule finish [of ?v 0 k 0 0 "([V4 1], None)" 0]) (simp add: set_phase_def)
  ultimately have "dns_reachable ?w" using s(1) by (meson dns_reachable.step)
  moreover have "LookupCached (ds_cache ?w) 7 (bytes_of ''a'') = Some [V4 1]"
    using s(3-5) unfolding k_def
    by (simp add: LookupCached_def set_phase_def lookup_finish_def evictLocked_def newDNSCache_def del_def)
  ultimately show ?thesis by blast
qed

section \<open>Properties\<close>

text \<open>
  C17. In every reachable state of the concurrent cache: it holds at most \<open>maxEntries\<close> names, at most as
  many lookups run as there are slots, and no two goroutines resolve the same name at a time.
\<close>

theorem dns_cache_bounded_and_single_flight:
  assumes "dns_reachable s"
  shows "int (length (dc_entries (ds_cache s))) \<le> max 0 (dc_maxEntries (ds_cache s)) \<and>
    finite {t. in_lookup (ds_phase s t)} \<and>
    card {t. in_lookup (ds_phase s t)} \<le> ch_cap (dc_lookupSlots (ds_cache s)) \<and>
    (\<forall>t t' k i i' n n'. ds_phase s t = PLookup k i n \<longrightarrow> ds_phase s t' = PLookup k i' n' \<longrightarrow> t = t')"
proof -
  have ok: "cache_ok (ds_cache s)" "flight_ok s" "slots_ok s"
    using dns_reachable_ok [OF assms] by auto
  have "t = t'" if "ds_phase s t = PLookup k i n" "ds_phase s t' = PLookup k i' n'" for t t' k i i' n n'
  proof -
    have "(leads \<circ> ds_phase s) t = Some (k, i)" "(leads \<circ> ds_phase s) t' = Some (k, i')" using that by simp_all
    then show ?thesis using ok(2) unfolding flight_ok_def flight_inv_def by blast
  qed
  then show ?thesis using ok(1,3) by (auto simp: cache_ok_def slots_ok_def chan_wf_def)
qed

theorem dns_cache_bounded_and_single_flight_witness:
  "\<exists>s. dns_reachable s \<and> LookupCached (ds_cache s) 7 (bytes_of ''a'') = Some [V4 1] \<and>
     int (length (dc_entries (ds_cache s))) \<le> max 0 (dc_maxEntries (ds_cache s))"
  using example_cached dns_cache_bounded_and_single_flight by blast

text \<open>
  C34. No lost wake-up: a goroutine that waits for another's lookup waits for a call that is finished
  or that some goroutine still leads.
\<close>

theorem dns_no_lost_wakeup:
  assumes "dns_reachable s" "ds_phase s t = PWait key call"
  shows "(\<exists>r. map_of (dc_calls (ds_cache s)) call = Some r) \<or>
    (\<exists>u now r. ds_phase s u = PAwaitSlot key call now \<or> ds_phase s u = PLookup key call now \<or>
       ds_phase s u = PFinish key call now r)"
proof -
  have fl: "flight_inv (dc_inflight (ds_cache s)) (leads \<circ> ds_phase s) (waits \<circ> ds_phase s)
      (keys (dc_calls (ds_cache s)))"
    using dns_reachable_ok [OF assms(1)] by (simp add: flight_ok_def)
  have "(waits \<circ> ds_phase s) t = Some (key, call)" using assms(2) by simp
  then consider "(key, call) \<in> set (dc_inflight (ds_cache s))" | "call \<in> keys (dc_calls (ds_cache s))"
    using fl unfolding flight_inv_def by blast
  then show ?thesis
  proof cases
    case 1
    then obtain u where "leads (ds_phase s u) = Some (key, call)"
      using fl unfolding flight_inv_def by fastforce
    then show ?thesis by (cases "ds_phase s u") auto
  next
    case 2
    then have "map_of (dc_calls (ds_cache s)) call \<noteq> None" by (simp add: map_of_eq_None_iff)
    then show ?thesis by blast
  qed
qed

theorem dns_no_lost_wakeup_witness:
  "\<exists>s t key call. dns_reachable s \<and> ds_phase s t = PWait key call \<and>
    ((\<exists>r. map_of (dc_calls (ds_cache s)) call = Some r) \<or>
     (\<exists>u now r. ds_phase s u = PAwaitSlot key call now \<or> ds_phase s u = PLookup key call now \<or>
       ds_phase s u = PFinish key call now r))"
  using example_join dns_no_lost_wakeup by meson

text \<open>
  \<open>LookupCached\<close> never invents an answer: what it returns is non-empty and is the successful result
  of a lookup of the normalized name.
\<close>

theorem LookupCached_sound:
  assumes "dns_reachable s" "LookupCached (ds_cache s) now host = Some addrs"
  shows "addrs \<noteq> [] \<and> (normalizeDNSName host, (addrs, None)) \<in> ds_log s"
proof -
  obtain e where e: "map_of (dc_entries (ds_cache s)) (normalizeDNSName host) = Some e"
    "de_err e = None" "de_addrs e = addrs" "addrs \<noteq> []"
    using assms(2) by (auto simp: LookupCached_def split: option.splits if_splits)
  have "log_ok s" using dns_reachable_ok [OF assms(1)] by simp
  with map_of_SomeD [OF e(1)] e show ?thesis by (auto simp: log_ok_def)
qed

theorem LookupCached_sound_witness:
  "\<exists>s. dns_reachable s \<and> (normalizeDNSName (bytes_of ''a''), ([V4 1], None)) \<in> ds_log s"
  using example_cached LookupCached_sound by blast

text \<open>
  C35. A goroutine that joined another's lookup gets that lookup's result even when the error is the
  cancellation of the leader's own context: a waiter with a live context can fail with the context
  error of somebody else.
\<close>

theorem waiter_gets_leader_cancellation:
  "\<exists>s t. dns_reachable s \<and> t \<notin> ds_cancelled s \<and> ds_phase s t = PDone ([], Some CtxErr) \<and> ds_log s = {}"
proof -
  define k where "k = normalizeDNSName (bytes_of ''a'')"
  obtain s where s: "dns_reachable s" "ds_phase s 0 = PAwaitSlot k 0 0" "ds_phase s 1 = PWait k 0"
    "ds_cancelled s = {}" "ds_log s = {}"
    using example_join unfolding k_def by blast
  let ?r = "([], Some CtxErr) :: dns_result"
  let ?u = "s\<lparr>ds_cancelled := insert 0 (ds_cancelled s)\<rparr>"
  let ?v = "set_phase 0 (PFinish k 0 0 ?r) ?u"
  let ?w = "set_phase 0 (PDone ?r) (?v\<lparr>ds_cache :=
    lookup_finish (ds_cache ?v) k 0 0 (ds_now ?v) (0 \<in> ds_cancelled ?v) 0 ?r\<rparr>)"
  let ?x = "set_phase 1 (PDone ?r) ?w"
  have "dns_step s ?u" by (rule cancel)
  moreover have "dns_step ?u ?v" using slot_cancelled [of ?u 0 k 0 0] s(2) by simp
  moreover have "dns_step ?v ?w" by (rule finish [of ?v 0 k 0 0 ?r 0]) (simp add: set_phase_def)
  moreover have "dns_step ?w ?x"
    using wait_done [of ?w 1 k 0 ?r] s(3) by (simp add: set_phase_def lookup_finish_sel)
  ultimately have "dns_reachable ?x" using s(1) by (meson dns_reachable.step)
  moreover have "1 \<notin> ds_cancelled ?x" "ds_phase ?x 1 = PDone ?r" "ds_log ?x = {}"
    using s(4,5) by (simp_all add: set_phase_def)
  ultimately show ?thesis by blast
qed

end
