(* ===== verification/Dial.thy ===== *)
theory Dial
  imports SourceSelect Config DnsCache "HOL-Library.Multiset" "HOL-Library.Signed_Division"
begin

text \<open>
  Model of the dialing half of \<open>internal/connect/connect.go\<close>: targets, the connector, the choice of the
  source of a dial, host resolution, the race over resolved addresses and the race between CIDR and
  fallback, and the UDP connector. What the operating system answers (a dial's result, whether a
  listener opens, a send's result) is a parameter. The two races are event-driven loops over
  goroutines; their steps are functions on a state, one per event.
\<close>

section \<open>Definitions\<close>

subsection \<open>Targets and the connector\<close>

record TargetAddr =
  ta_Addr :: "addr_port option"
  ta_Host :: gostring
  ta_Port :: u16

definition FromAddr :: "addr_port \<Rightarrow> TargetAddr" where
  "FromAddr a = \<lparr>ta_Addr = Some a, ta_Host = [], ta_Port = 0\<rparr>"

definition FromHost :: "gostring \<Rightarrow> u16 \<Rightarrow> TargetAddr" where
  "FromHost h p = \<lparr>ta_Addr = None, ta_Host = h, ta_Port = p\<rparr>"

record Connector =
  cn_CIDR :: "net_prefix option"
  cn_CIDRRange :: "byte option"
  cn_Fallback :: "Fallback option"
  cn_ConnectTimeout :: int
  cn_TCPUserTimeout :: "int option"
  cn_ReuseAddr :: "bool option"
  cn_dialSlots :: "chan option"

text \<open>\<open>time.Duration(x) * time.Second\<close>, a product of 64-bit signed integers.\<close>

definition seconds :: "u64 \<Rightarrow> int" where
  "seconds x = sint (x * 1000000000)"

definition New :: "net_prefix option \<Rightarrow> byte option \<Rightarrow> Fallback option \<Rightarrow> u64 \<Rightarrow> u64 option
    \<Rightarrow> bool option \<Rightarrow> int \<Rightarrow> Connector" where
  "New cidr cidrRange fallback connectTimeoutSec tcpUserTimeout reuseaddr maxPendingDials =
     \<lparr>cn_CIDR = cidr, cn_CIDRRange = cidrRange, cn_Fallback = fallback,
      cn_ConnectTimeout = seconds connectTimeoutSec,
      cn_TCPUserTimeout = map_option seconds tcpUserTimeout,
      cn_ReuseAddr = reuseaddr,
      cn_dialSlots = (if maxPendingDials > 0 then Some (chan_make (nat maxPendingDials)) else None)\<rparr>"

definition SocketAddr :: "rand_src \<Rightarrow> Connector \<Rightarrow> Extension \<Rightarrow> addr res \<Rightarrow> addr_port res" where
  "SocketAddr rd c e defaultFn = (case cn_CIDR c of
      Some cidr \<Rightarrow>
        if Is4 (pf_addr cidr) then Inr (AddrPortFrom (assignIPv4FromExtension rd cidr (cn_CIDRRange c) e) 0)
        else Inr (AddrPortFrom (assignIPv6FromExtension rd cidr (cn_CIDRRange c) e) 0)
    | None \<Rightarrow> (case (case cn_Fallback c of Some fb \<Rightarrow> if \<not> IsInterface fb then Some (fb_Address fb) else None
                     | None \<Rightarrow> None) of
        Some a \<Rightarrow> Inr (AddrPortFrom a 0)
      | None \<Rightarrow> (case defaultFn of Inl err \<Rightarrow> Inl err | Inr ip \<Rightarrow> Inr (AddrPortFrom ip 0))))"

subsection \<open>One dial\<close>

text \<open>The arguments of \<open>dialContext\<close>: source address (or the zero address), interface, target.\<close>

record dial_req =
  dr_bindIP :: addr
  dr_interface :: gostring
  dr_target :: addr_port

definition connectPlain :: "addr_port \<Rightarrow> dial_req" where
  "connectPlain target = \<lparr>dr_bindIP = ZeroAddr, dr_interface = [], dr_target = target\<rparr>"

definition connectWithCIDR :: "rand_src \<Rightarrow> Connector \<Rightarrow> Extension \<Rightarrow> addr_port \<Rightarrow> net_prefix \<Rightarrow> dial_req" where
  "connectWithCIDR rd c e target cidr =
     \<lparr>dr_bindIP = assignSourceIP rd cidr (cn_CIDRRange c) e, dr_interface = [], dr_target = target\<rparr>"

definition connectWithFallback :: "addr_port \<Rightarrow> Fallback \<Rightarrow> dial_req" where
  "connectWithFallback target fb =
     (if IsInterface fb then \<lparr>dr_bindIP = ZeroAddr, dr_interface = fb_Interface fb, dr_target = target\<rparr>
      else \<lparr>dr_bindIP = fb_Address fb, dr_interface = [], dr_target = target\<rparr>)"

text \<open>
  \<open>connectAddr\<close> decides between one dial, the race of two dials, and an error.
\<close>

datatype dial_plan = DialOne dial_req | DialRace dial_req dial_req | DialError go_error

definition connectAddr :: "rand_src \<Rightarrow> Connector \<Rightarrow> Extension \<Rightarrow> addr_port \<Rightarrow> dial_plan" where
  "connectAddr rd c e target =
     (case cn_CIDR c of
        Some cidr \<Rightarrow>
          if Is4 (pf_addr cidr) \<noteq> Is4 (ap_addr target) then
            (case cn_Fallback c of
               Some fb \<Rightarrow> DialOne (connectWithFallback target fb)
             | None \<Rightarrow> DialError (Message ''target address family does not match source CIDR''))
          else (case cn_Fallback c of
               Some fb \<Rightarrow> DialRace (connectWithCIDR rd c e target cidr) (connectWithFallback target fb)
             | None \<Rightarrow> DialOne (connectWithCIDR rd c e target cidr))
      | None \<Rightarrow> (case cn_Fallback c of
             Some fb \<Rightarrow> DialOne (connectWithFallback target fb)
           | None \<Rightarrow> DialOne (connectPlain target)))"

text \<open>
  \<open>dialContext\<close>: \<open>got\<close> tells whether a slot became free before the context was done; the slot is held
  during the dial and given back when it returns.
\<close>

definition dialContext :: "chan option \<Rightarrow> bool \<Rightarrow> (dial_req \<Rightarrow> 'c res) \<Rightarrow> dial_req \<Rightarrow> 'c res \<times> chan option" where
  "dialContext slots got dial req = (case slots of
      None \<Rightarrow> (dial req, None)
    | Some ch \<Rightarrow> (case (if got then chan_try_send ch else None) of
         None \<Rightarrow> (Inl CtxErr, Some ch)
       | Some ch' \<Rightarrow> (dial req, chan_recv ch')))"

text \<open>The options \<open>applySocketOptions\<close> sets, and whether binding to the interface failed.\<close>

datatype sockopt = SetReuseAddr | SetTCPUserTimeout int | BindToDevice gostring

definition applySocketOptions ::
    "gostring \<Rightarrow> (gostring \<Rightarrow> go_error option) \<Rightarrow> gostring \<Rightarrow> gostring \<Rightarrow> Connector \<Rightarrow> sockopt list \<times> go_error option" where
  "applySocketOptions goos bindToDevice network iface c =
     (let o1 = (if cn_ReuseAddr c = Some True then [SetReuseAddr] else []);
          tcp = network \<in> {bytes_of ''tcp'', bytes_of ''tcp4'', bytes_of ''tcp6''};
          o2 = (case cn_TCPUserTimeout c of
                  Some d \<Rightarrow> if goos = bytes_of ''linux'' \<and> tcp then [SetTCPUserTimeout (d sdiv 1000000)] else []
                | None \<Rightarrow> [])
      in if goos = bytes_of ''linux'' \<and> iface \<noteq> [] then (o1 @ o2 @ [BindToDevice iface], bindToDevice iface)
         else (o1 @ o2, None))"

subsection \<open>Resolution\<close>

definition LookupCachedHost :: "dnsCache \<Rightarrow> int \<Rightarrow> gostring \<Rightarrow> addr list option" where
  "LookupCachedHost c now host = (case ParseAddr host of
      Some ip \<Rightarrow> Some [ip]
    | None \<Rightarrow> LookupCached c now host)"

text \<open>\<open>lookup\<close> is the result of \<open>defaultDNSCache.Lookup\<close>.\<close>

definition resolveHost :: "(gostring \<Rightarrow> dns_result) \<Rightarrow> gostring \<Rightarrow> u16 \<Rightarrow> addr_port list res" where
  "resolveHost lookup host port = (case ParseAddr host of
      Some ip \<Rightarrow> Inr [AddrPortFrom ip port]
    | None \<Rightarrow> (case lookup host of
        (ips, Some err) \<Rightarrow> Inl err
      | (ips, None) \<Rightarrow>
          (let addrs = map (\<lambda>ip. AddrPortFrom ip port) ips in
           if length addrs = 0 then Inl (Message ''failed to resolve'') else Inr addrs)))"

subsection \<open>The race over resolved addresses\<close>

text \<open>
  \<open>connectAny\<close> on two or more addresses. Dial \<open>i\<close> goes from running to parked (its goroutine offers the
  result on the unbuffered channel) to delivered or dropped. A dropped successful dial is closed by
  its goroutine. The race context is cancelled when the loop has returned, and when the parent
  context is done.
\<close>

record 'c race =
  rc_n :: nat
  rc_started :: nat
  rc_completed :: nat
  rc_running :: "nat list"
  rc_parked :: "(nat \<times> 'c res) list"
  rc_lastErr :: "go_error option"
  rc_timer :: bool
  rc_ctxDone :: bool
  rc_ret :: "'c res option"
  rc_closed :: "'c list"

datatype 'c race_event =
    Dialed nat "'c res"
  | Deliver nat
  | TimerFires
  | CtxDone
  | LoopSeesDone
  | Drop nat

definition race_start :: "'c race \<Rightarrow> 'c race" where
  "race_start s = s\<lparr>rc_running := rc_started s # rc_running s, rc_started := Suc (rc_started s)\<rparr>"

definition race_start_next :: "'c race \<Rightarrow> 'c race" where
  "race_start_next s = (let s = race_start s in
     if rc_started s < rc_n s then s\<lparr>rc_timer := True\<rparr> else s)"

definition connectAny_init :: "nat \<Rightarrow> 'c race" where
  "connectAny_init n = race_start \<lparr>rc_n = n, rc_started = 0, rc_completed = 0, rc_running = [], rc_parked = [],
     rc_lastErr = None, rc_timer = True, rc_ctxDone = False, rc_ret = None, rc_closed = []\<rparr>"

text \<open>The body of the loop for a received result.\<close>

definition connectAny_result :: "'c res \<Rightarrow> 'c race \<Rightarrow> 'c race" where
  "connectAny_result r s =
     (let s = s\<lparr>rc_completed := Suc (rc_completed s)\<rparr> in
      case r of
        Inr c \<Rightarrow> s\<lparr>rc_ret := Some (Inr c)\<rparr>
      | Inl e \<Rightarrow>
         (let s = s\<lparr>rc_lastErr := Some e\<rparr> in
          if rc_completed s = rc_n s then s\<lparr>rc_ret := Some (Inl e)\<rparr>
          else if rc_completed s = rc_started s \<and> rc_started s < rc_n s then race_start_next s
          else s))"

definition connectAny_timer :: "'c race \<Rightarrow> 'c race" where
  "connectAny_timer s =
     (let s = s\<lparr>rc_timer := False\<rparr> in
      if rc_started s < rc_n s then race_start_next s else s)"

definition close_result :: "'c res \<Rightarrow> 'c race \<Rightarrow> 'c race" where
  "close_result r s = (case r of Inr c \<Rightarrow> s\<lparr>rc_closed := c # rc_closed s\<rparr> | Inl _ \<Rightarrow> s)"

definition race_step ::
    "('c res \<Rightarrow> 'c race \<Rightarrow> 'c race) \<Rightarrow> ('c race \<Rightarrow> 'c race) \<Rightarrow> 'c race \<Rightarrow> 'c race_event \<Rightarrow> 'c race option" where
  "race_step on_result on_timer s ev = (case ev of
      Dialed i r \<Rightarrow> if i \<in> set (rc_running s)
        then Some (s\<lparr>rc_running := remove1 i (rc_running s), rc_parked := (i, r) # rc_parked s\<rparr>) else None
    | Deliver i \<Rightarrow> (case map_of (rc_parked s) i of
          Some r \<Rightarrow> if rc_ret s = None then Some (on_result r (s\<lparr>rc_parked := del i (rc_parked s)\<rparr>)) else None
        | None \<Rightarrow> None)
    | TimerFires \<Rightarrow> if rc_timer s \<and> rc_ret s = None then Some (on_timer s) else None
    | CtxDone \<Rightarrow> Some (s\<lparr>rc_ctxDone := True\<rparr>)
    | LoopSeesDone \<Rightarrow> if rc_ctxDone s \<and> rc_ret s = None then Some (s\<lparr>rc_ret := Some (Inl CtxErr)\<rparr>) else None
    | Drop i \<Rightarrow> (case map_of (rc_parked s) i of
          Some r \<Rightarrow> if rc_ctxDone s \<or> rc_ret s \<noteq> None
            then Some (close_result r (s\<lparr>rc_parked := del i (rc_parked s)\<rparr>)) else None
        | None \<Rightarrow> None))"

fun race_run :: "('c res \<Rightarrow> 'c race \<Rightarrow> 'c race) \<Rightarrow> ('c race \<Rightarrow> 'c race) \<Rightarrow> 'c race \<Rightarrow> 'c race_event list \<Rightarrow> 'c race option" where
  "race_run on_result on_timer s [] = Some s"
| "race_run on_result on_timer s (e # es) = (case race_step on_result on_timer s e of
      None \<Rightarrow> None | Some s' \<Rightarrow> race_run on_result on_timer s' es)"

text \<open>\<open>connectAny\<close>: no address, one address, or the race.\<close>

datatype connect_any = AnyError go_error | AnyOne addr_port | AnyRace nat

definition connectAny :: "addr_port list \<Rightarrow> connect_any" where
  "connectAny addrs =
     (if length addrs = 0 then AnyError (Message ''failed to connect to any resolved address'')
      else if length addrs = 1 then AnyOne (addrs ! 0)
      else AnyRace (length addrs))"

definition Connect :: "(gostring \<Rightarrow> dns_result) \<Rightarrow> TargetAddr \<Rightarrow> connect_any" where
  "Connect lookup target = (case ta_Addr target of
      Some a \<Rightarrow> AnyOne a
    | None \<Rightarrow> (case resolveHost lookup (ta_Host target) (ta_Port target) of
        Inl e \<Rightarrow> AnyError e
      | Inr addrs \<Rightarrow> connectAny addrs))"

subsection \<open>The race between CIDR and fallback\<close>

text \<open>
  The state of \<open>connectWithCIDRFallback\<close> uses the same record: dial 0 is the CIDR path, dial 1 the
  fallback; \<open>fallbackStarted\<close> is \<open>rc_started = 2\<close> and \<open>failures\<close> is \<open>rc_completed\<close> as long as the loop runs.
\<close>

definition fallbackDelay :: "int \<Rightarrow> int" where
  "fallbackDelay connectTimeout =
     (let halfTimeout = connectTimeout sdiv 2 in if halfTimeout < 500000000 then halfTimeout else 500000000)"

definition cidrFallback_result :: "'c res \<Rightarrow> 'c race \<Rightarrow> 'c race" where
  "cidrFallback_result r s = (case r of
      Inr c \<Rightarrow> s\<lparr>rc_ret := Some (Inr c)\<rparr>
    | Inl e \<Rightarrow>
       (let s = s\<lparr>rc_lastErr := Some e, rc_completed := Suc (rc_completed s)\<rparr> in
        if rc_started s \<noteq> 2 then race_start (s\<lparr>rc_timer := False\<rparr>)
        else if rc_completed s = 2 then s\<lparr>rc_ret := Some (Inl e)\<rparr>
        else s))"

definition cidrFallback_timer :: "'c race \<Rightarrow> 'c race" where
  "cidrFallback_timer s =
     (let s = s\<lparr>rc_timer := False\<rparr> in if rc_started s \<noteq> 2 then race_start s else s)"

subsection \<open>UDP\<close>

text \<open>
  \<open>CreateSocketDualStack\<close>: \<open>lst network ip\<close> is the result of \<open>net.ListenUDP\<close>. Returns the sockets, or the
  error, and the sockets closed on the way.
\<close>

definition createSocketWithAddr :: "(gostring \<Rightarrow> byte list \<Rightarrow> 's res) \<Rightarrow> addr \<Rightarrow> 's res" where
  "createSocketWithAddr lst ip = lst (bytes_of ''udp'') (AsSlice ip)"

definition createSocketWithCIDR ::
    "(gostring \<Rightarrow> byte list \<Rightarrow> 's res) \<Rightarrow> rand_src \<Rightarrow> Connector \<Rightarrow> Extension \<Rightarrow> net_prefix \<Rightarrow> 's res" where
  "createSocketWithCIDR lst rd c e cidr = createSocketWithAddr lst (assignSourceIP rd cidr (cn_CIDRRange c) e)"

definition CreateSocketDualStack ::
    "(gostring \<Rightarrow> byte list \<Rightarrow> 's res) \<Rightarrow> rand_src \<Rightarrow> Connector \<Rightarrow> Extension \<Rightarrow> ('s \<times> 's option) res \<times> 's list" where
  "CreateSocketDualStack lst rd c e =
     (case (cn_CIDR c, cn_Fallback c) of
        (Some cidr, Some fb) \<Rightarrow>
          if \<not> IsInterface fb then
            (case createSocketWithCIDR lst rd c e cidr of
               Inl err \<Rightarrow> (Inl err, [])
             | Inr preferred \<Rightarrow> (case createSocketWithAddr lst (fb_Address fb) of
                 Inl err \<Rightarrow> (Inl err, [preferred])
               | Inr fallback \<Rightarrow> (Inr (preferred, Some fallback), [])))
          else (case createSocketWithCIDR lst rd c e cidr of
               Inl err \<Rightarrow> (Inl err, []) | Inr preferred \<Rightarrow> (Inr (preferred, None), []))
      | (Some cidr, None) \<Rightarrow> (case createSocketWithCIDR lst rd c e cidr of
               Inl err \<Rightarrow> (Inl err, []) | Inr preferred \<Rightarrow> (Inr (preferred, None), []))
      | (None, fb) \<Rightarrow>
          (case (case fb of Some f \<Rightarrow> if \<not> IsInterface f then Some (fb_Address f) else None | None \<Rightarrow> None) of
             Some a \<Rightarrow> (case createSocketWithAddr lst a of
               Inl err \<Rightarrow> (Inl err, []) | Inr fallback \<Rightarrow> (Inr (fallback, None), []))
           | None \<Rightarrow> (case lst (bytes_of ''udp4'') (replicate 10 0 @ [0xff, 0xff, 0, 0, 0, 0]) of
               Inl err \<Rightarrow> (Inl err, [])
             | Inr preferred \<Rightarrow> (case lst (bytes_of ''udp6'') (replicate 16 0) of
                 Inl _ \<Rightarrow> (Inr (preferred, None), [])
               | Inr fallback \<Rightarrow> (Inr (preferred, Some fallback), [])))))"

text \<open>
  Sending: \<open>wr s u\<close> is the result of \<open>WriteToUDP\<close> on socket \<open>s\<close>; \<open>ctxErr i\<close> is the context's error when the
  i-th address is tried.
\<close>

definition trySendTo :: "('s \<Rightarrow> udp_addr \<Rightarrow> nat res) \<Rightarrow> addr_port \<Rightarrow> 's \<Rightarrow> nat res" where
  "trySendTo wr a s = wr s (UDPAddrFromAddrPort a)"

definition sendPacketWithAddr ::
    "('s \<Rightarrow> udp_addr \<Rightarrow> nat res) \<Rightarrow> go_error option \<Rightarrow> addr_port \<Rightarrow> 's \<Rightarrow> 's option \<Rightarrow> nat res" where
  "sendPacketWithAddr wr ctxErr a preferred fallback = (case ctxErr of
      Some e \<Rightarrow> Inl e
    | None \<Rightarrow> (case trySendTo wr a preferred of
        Inr n \<Rightarrow> Inr n
      | Inl e \<Rightarrow> (case fallback of None \<Rightarrow> Inl e | Some f \<Rightarrow> trySendTo wr a f)))"

fun send_loop ::
    "('s \<Rightarrow> udp_addr \<Rightarrow> nat res) \<Rightarrow> (nat \<Rightarrow> go_error option) \<Rightarrow> 's \<Rightarrow> 's option \<Rightarrow> nat \<Rightarrow> go_error option
      \<Rightarrow> addr_port list \<Rightarrow> nat res" where
  "send_loop wr ctxErr p f i lastErr [] =
     Inl (case lastErr of None \<Rightarrow> Message ''failed to send packet to any resolved address'' | Some e \<Rightarrow> e)"
| "send_loop wr ctxErr p f i lastErr (a # as) = (case sendPacketWithAddr wr (ctxErr i) a p f of
      Inr n \<Rightarrow> Inr n
    | Inl e \<Rightarrow> send_loop wr ctxErr p f (Suc i) (Some e) as)"

definition SendPacket ::
    "('s \<Rightarrow> udp_addr \<Rightarrow> nat res) \<Rightarrow> (nat \<Rightarrow> go_error option) \<Rightarrow> (gostring \<Rightarrow> dns_result)
      \<Rightarrow> TargetAddr \<Rightarrow> 's \<Rightarrow> 's option \<Rightarrow> nat res" where
  "SendPacket wr ctxErr lookup target preferred fallback =
     (case (case ta_Addr target of Some a \<Rightarrow> Inr [a] | None \<Rightarrow> resolveHost lookup (ta_Host target) (ta_Port target)) of
        Inl e \<Rightarrow> Inl e
      | Inr addrs \<Rightarrow> send_loop wr ctxErr preferred fallback 0 None addrs)"

section \<open>The race interface\<close>

text \<open>
  What both races promise of their two loop bodies: a result is the caller's when it is a success,
  the state of the goroutines is only changed by starting the next dial, and a failed result either
  ends the race or leaves a dial outstanding.
\<close>

lemma length_del_Suc:
  assumes "distinct (map fst xs)" "map_of xs k = Some v"
  shows "Suc (length (del k xs)) = length xs" "mset xs = add_mset (k, v) (mset (del k xs))"
  using assms
proof (induction xs)
  case (Cons x xs)
  obtain a b where x: "x = (a, b)" by (cases x)
  have skip: "del k xs = xs" if "k \<notin> keys xs"
    using that keysI [of k _ xs] by (auto simp: del_def filter_id_conv)
  case 1
  then show ?case using Cons.IH skip x by (auto simp: del_def split: if_splits)
  case 2
  then show ?case using Cons.IH skip x by (auto simp: del_def simp del: mset_filter split: if_splits)
qed simp_all

text \<open>The connections a list of results holds, and those the dials of a trace opened.\<close>

fun conns_of :: "'c res list \<Rightarrow> 'c list" where
  "conns_of [] = []"
| "conns_of (Inl e # rs) = conns_of rs"
| "conns_of (Inr c # rs) = c # conns_of rs"

fun opened :: "'c race_event list \<Rightarrow> 'c list" where
  "opened [] = []"
| "opened (Dialed i (Inr c) # es) = c # opened es"
| "opened (_ # es) = opened es"

lemma mset_conns_of: "mset (conns_of rs) = image_mset projr (filter_mset (\<lambda>r. \<not> isl r) (mset rs))"
  by (induction rs rule: conns_of.induct) auto

definition owned :: "'c race \<Rightarrow> 'c multiset" where
  "owned s = mset (rc_closed s) + mset (conns_of (map snd (rc_parked s))) +
     (case rc_ret s of Some (Inr c) \<Rightarrow> {#c#} | _ \<Rightarrow> {#})"

lemma conns_of_del:
  assumes "distinct (map fst xs)" "map_of xs k = Some r"
  shows "mset (conns_of (map snd xs)) =
    mset (conns_of (map snd (del k xs))) + (case r of Inr c \<Rightarrow> {#c#} | Inl _ \<Rightarrow> {#})"
  using length_del_Suc(2) [OF assms]
  by (simp add: mset_conns_of mset_map [symmetric] del: mset_map) (auto simp: mset_map split: sum.splits)

definition starts_at_most_one :: "'c race \<Rightarrow> 'c race \<Rightarrow> bool" where
  "starts_at_most_one s s' \<longleftrightarrow>
     rc_running s' = rc_running s \<and> rc_started s' = rc_started s
   \<or> rc_running s' = rc_started s # rc_running s \<and> rc_started s' = Suc (rc_started s)
       \<and> Suc (rc_started s) \<le> rc_n s"

locale dial_race =
  fixes on_result :: "'c res \<Rightarrow> 'c race \<Rightarrow> 'c race"
    and on_timer :: "'c race \<Rightarrow> 'c race"
    and size_ok :: "nat \<Rightarrow> bool"
  assumes result_keeps: "rc_parked (on_result r s) = rc_parked s \<and> rc_closed (on_result r s) = rc_closed s \<and>
        rc_ctxDone (on_result r s) = rc_ctxDone s \<and> rc_n (on_result r s) = rc_n s"
    and result_ok: "rc_ret s = None \<Longrightarrow> rc_ret (on_result (Inr c) s) = Some (Inr c)"
    and result_err: "rc_ret s = None \<Longrightarrow> rc_ret (on_result (Inl e) s) = None \<or> rc_ret (on_result (Inl e) s) = Some (Inl e)"
    and result_starts: "size_ok (rc_n s) \<Longrightarrow> rc_started s \<le> rc_n s \<Longrightarrow> 0 < rc_started s \<Longrightarrow> starts_at_most_one s (on_result r s)"
    and result_count: "rc_completed s < rc_started s \<Longrightarrow> rc_started s \<le> rc_n s \<Longrightarrow> size_ok (rc_n s) \<Longrightarrow> rc_ret s = None \<Longrightarrow>
        rc_ret (on_result (Inl e) s) = None \<Longrightarrow>
        rc_completed (on_result (Inl e) s) = Suc (rc_completed s) \<and>
        rc_completed (on_result (Inl e) s) < rc_started (on_result (Inl e) s)"
    and timer_keeps: "rc_parked (on_timer s) = rc_parked s \<and> rc_closed (on_timer s) = rc_closed s \<and>
        rc_ctxDone (on_timer s) = rc_ctxDone s \<and> rc_n (on_timer s) = rc_n s \<and> rc_ret (on_timer s) = rc_ret s \<and>
        rc_completed (on_timer s) = rc_completed s"
    and result_timer: "rc_timer (on_result r s) \<Longrightarrow> rc_timer s \<or> rc_started s < rc_started (on_result r s)"
    and timer_stops: "rc_started (on_timer s) = rc_started s \<Longrightarrow> \<not> rc_timer (on_timer s)"
    and timer_starts: "size_ok (rc_n s) \<Longrightarrow> rc_started s \<le> rc_n s \<Longrightarrow> 0 < rc_started s \<Longrightarrow> starts_at_most_one s (on_timer s)"
begin

definition inv :: "'c race \<Rightarrow> bool" where
  "inv s \<longleftrightarrow> size_ok (rc_n s) \<and> 0 < rc_started s \<and> rc_started s \<le> rc_n s \<and>
     distinct (rc_running s @ map fst (rc_parked s)) \<and>
     set (rc_running s @ map fst (rc_parked s)) \<subseteq> {..<rc_started s} \<and>
     (rc_ret s = None \<and> \<not> rc_ctxDone s \<longrightarrow>
        rc_completed s + length (rc_running s) + length (rc_parked s) = rc_started s \<and>
        rc_completed s < rc_started s)"

lemma step_inv:
  assumes inv: "inv s" and st: "race_step on_result on_timer s ev = Some s'"
  shows "inv s'"
proof (cases ev)
  case (Dialed i r)
  then have "i \<in> set (rc_running s)" using st by (simp add: race_step_def split: if_splits)
  then obtain m where "length (rc_running s) = Suc m" by (cases "rc_running s") auto
  then show ?thesis using assms Dialed
    by (auto simp: inv_def race_step_def length_remove1 distinct_remove1 split: if_splits)
next
  case (Deliver i)
  then obtain r where r: "map_of (rc_parked s) i = Some r" "rc_ret s = None"
    and s': "s' = on_result r (s\<lparr>rc_parked := del i (rc_parked s)\<rparr>)"
    using st by (auto simp: race_step_def split: option.splits if_splits)
  let ?s = "s\<lparr>rc_parked := del i (rc_parked s)\<rparr>"
  have d: "distinct (map fst (rc_parked s))" using inv by (simp add: inv_def)
  have len: "Suc (length (del i (rc_parked s))) = length (rc_parked s)" by (rule length_del_Suc(1) [OF d r(1)])
  have keep: "rc_parked s' = del i (rc_parked s)" "rc_n s' = rc_n s" "rc_ctxDone s' = rc_ctxDone s"
    using result_keeps [of r ?s] s' by simp_all
  have one: "starts_at_most_one ?s s'" using result_starts [of ?s r] inv s' by (simp add: inv_def)
  have cnt: "rc_completed s' = Suc (rc_completed s) \<and> rc_completed s' < rc_started s'"
    if "rc_ret s' = None" "\<not> rc_ctxDone s"
  proof (cases r)
    case (Inl e)
    then show ?thesis using result_count [of ?s e] inv that r(2) s' by (simp add: inv_def)
  next
    case (Inr c)
    then show ?thesis using result_ok [of ?s c] that(1) r(2) s' by simp
  qed
  show ?thesis
    using inv keep one cnt len d r(2) unfolding inv_def starts_at_most_one_def
    by auto
next
  case TimerFires
  then have s': "s' = on_timer s" "rc_ret s = None" using st by (auto simp: race_step_def split: if_splits)
  have one: "starts_at_most_one s s'" using timer_starts [of s] inv s' by (simp add: inv_def)
  then show ?thesis
    using inv timer_keeps [of s] s' unfolding inv_def starts_at_most_one_def by auto
next
  case CtxDone
  then show ?thesis using assms by (auto simp: inv_def race_step_def)
next
  case LoopSeesDone
  then show ?thesis using assms by (auto simp: inv_def race_step_def split: if_splits)
next
  case (Drop i)
  then obtain r where r: "map_of (rc_parked s) i = Some r" "rc_ctxDone s \<or> rc_ret s \<noteq> None"
    and s': "s' = close_result r (s\<lparr>rc_parked := del i (rc_parked s)\<rparr>)"
    using st by (auto simp: race_step_def split: option.splits if_splits)
  then show ?thesis using inv by (cases r) (auto simp: inv_def close_result_def)
qed

lemma step_owned:
  assumes inv: "inv s" and st: "race_step on_result on_timer s ev = Some s'"
  shows "owned s' = owned s + mset (opened [ev])"
proof (cases ev)
  case (Dialed i r)
  then show ?thesis using st
    by (cases r) (auto simp: race_step_def owned_def split: if_splits)
next
  case (Deliver i)
  then obtain r where r: "map_of (rc_parked s) i = Some r" "rc_ret s = None"
    and s': "s' = on_result r (s\<lparr>rc_parked := del i (rc_parked s)\<rparr>)"
    using st by (auto simp: race_step_def split: option.splits if_splits)
  let ?s = "s\<lparr>rc_parked := del i (rc_parked s)\<rparr>"
  have d: "distinct (map fst (rc_parked s))" using inv by (simp add: inv_def)
  show ?thesis
  proof (cases r)
    case (Inl e)
    then show ?thesis
      using Deliver conns_of_del [OF d r(1)] result_keeps [of r ?s] result_err [of ?s e] s' r(2)
      by (auto simp: owned_def)
  next
    case (Inr c)
    then show ?thesis
      using Deliver conns_of_del [OF d r(1)] result_keeps [of r ?s] result_ok [of ?s c] s' r(2)
      by (auto simp: owned_def)
  qed
next
  case TimerFires
  then have "s' = on_timer s" using st by (auto simp: race_step_def split: if_splits)
  then show ?thesis using TimerFires timer_keeps [of s] by (simp add: owned_def)
next
  case CtxDone
  then show ?thesis using st by (auto simp: race_step_def owned_def)
next
  case LoopSeesDone
  then show ?thesis using st by (auto simp: race_step_def owned_def split: if_splits)
next
  case (Drop i)
  then obtain r where r: "map_of (rc_parked s) i = Some r"
    and s': "s' = close_result r (s\<lparr>rc_parked := del i (rc_parked s)\<rparr>)"
    using st by (auto simp: race_step_def split: option.splits if_splits)
  have d: "distinct (map fst (rc_parked s))" using inv by (simp add: inv_def)
  show ?thesis using Drop conns_of_del [OF d r] s'
    by (cases r) (auto simp: owned_def close_result_def)
qed

lemma run_inv:
  assumes "inv s" "race_run on_result on_timer s es = Some s'"
  shows "inv s' \<and> owned s' = owned s + mset (opened es)"
  using assms
proof (induction es arbitrary: s)
  case (Cons e es)
  then obtain t where t: "race_step on_result on_timer s e = Some t" "race_run on_result on_timer t es = Some s'"
    by (auto split: option.splits)
  have "opened (e # es) = opened [e] @ opened es" by (cases "e # es" rule: opened.cases) auto
  with Cons.IH [OF step_inv [OF Cons.prems(1) t(1)] t(2)] step_owned [OF Cons.prems(1) t(1)]
  show ?case by simp
qed simp

lemma run_not_stuck:
  assumes "inv s" "race_run on_result on_timer s es = Some s'" "rc_ret s' = None" "\<not> rc_ctxDone s'"
  shows "rc_running s' \<noteq> [] \<or> rc_parked s' \<noteq> []"
  using run_inv [OF assms(1,2)] assms(3,4) by (auto simp: inv_def)

text \<open>
  Every step but the end of the context decreases \<open>fuel\<close>; so a race has at most as many of them as its
  initial state's fuel.
\<close>

definition fuel :: "'c race \<Rightarrow> nat" where
  "fuel s = 4 * (rc_n s - rc_started s) + 2 * length (rc_running s) + length (rc_parked s) +
     (if rc_timer s then 1 else 0) + (if rc_ret s = None then 1 else 0)"

lemma step_fuel:
  assumes inv: "inv s" and st: "race_step on_result on_timer s ev = Some s'"
  shows "fuel s' + (if ev = CtxDone then 0 else 1) \<le> fuel s"
proof (cases ev)
  case (Dialed i r)
  then have "i \<in> set (rc_running s)" using st by (simp add: race_step_def split: if_splits)
  then obtain m where "length (rc_running s) = Suc m" by (cases "rc_running s") auto
  then show ?thesis using assms Dialed
    by (auto simp: fuel_def race_step_def length_remove1 split: if_splits)
next
  case (Deliver i)
  then obtain r where r: "map_of (rc_parked s) i = Some r" "rc_ret s = None"
    and s': "s' = on_result r (s\<lparr>rc_parked := del i (rc_parked s)\<rparr>)"
    using st by (auto simp: race_step_def split: option.splits if_splits)
  let ?s = "s\<lparr>rc_parked := del i (rc_parked s)\<rparr>"
  have "Suc (length (del i (rc_parked s))) = length (rc_parked s)"
    using length_del_Suc(1) [OF _ r(1)] inv by (simp add: inv_def)
  moreover have "starts_at_most_one ?s s'" using result_starts [of ?s r] inv s' by (simp add: inv_def)
  ultimately show ?thesis
    using Deliver result_keeps [of r ?s] result_timer [of r ?s] r(2) s'
    unfolding starts_at_most_one_def fuel_def by auto
next
  case TimerFires
  then have s': "s' = on_timer s" "rc_ret s = None" "rc_timer s" using st by (auto simp: race_step_def split: if_splits)
  have "starts_at_most_one s s'" using timer_starts [of s] inv s' by (simp add: inv_def)
  then show ?thesis
    using TimerFires timer_keeps [of s] timer_stops [of s] s' unfolding starts_at_most_one_def fuel_def by auto
next
  case (Drop i)
  then obtain r where r: "map_of (rc_parked s) i = Some r"
    and s': "s' = close_result r (s\<lparr>rc_parked := del i (rc_parked s)\<rparr>)"
    using st by (auto simp: race_step_def split: option.splits if_splits)
  have "Suc (length (del i (rc_parked s))) = length (rc_parked s)"
    using length_del_Suc(1) [OF _ r] inv by (simp add: inv_def)
  then show ?thesis using Drop s' by (cases r) (auto simp: fuel_def close_result_def)
qed (use st in \<open>auto simp: race_step_def fuel_def split: if_splits\<close>)

lemma run_bounded:
  assumes "inv s" "race_run on_result on_timer s es = Some s'"
  shows "length (filter (\<lambda>e. e \<noteq> CtxDone) es) \<le> fuel s"
  using assms
proof (induction es arbitrary: s)
  case (Cons e es)
  then obtain t where t: "race_step on_result on_timer s e = Some t" "race_run on_result on_timer t es = Some s'"
    by (auto split: option.splits)
  show ?case using Cons.IH [OF step_inv [OF Cons.prems(1) t(1)] t(2)] step_fuel [OF Cons.prems(1) t(1)]
    by (auto split: if_splits)
qed simp

text \<open>A race with no dial running and no step left but the end of the context has returned.\<close>

lemma run_returns:
  assumes "inv s" "race_run on_result on_timer s es = Some s'"
    and "rc_running s' = []" "\<And>ev. ev \<noteq> CtxDone \<Longrightarrow> race_step on_result on_timer s' ev = None"
  shows "rc_ret s' \<noteq> None"
proof
  assume n: "rc_ret s' = None"
  show False
  proof (cases "rc_ctxDone s'")
    case True
    then show False using n assms(4) [of LoopSeesDone] by (simp add: race_step_def)
  next
    case False
    then obtain i r where "(i, r) \<in> set (rc_parked s')"
      using run_not_stuck [OF assms(1,2) n] assms(3) by (cases "rc_parked s'") auto
    then obtain r' where "map_of (rc_parked s') i = Some r'" by (metis weak_map_of_SomeI)
    then show False using n assms(4) [of "Deliver i"] by (simp add: race_step_def)
  qed
qed

end

interpretation any: dial_race connectAny_result connectAny_timer "\<lambda>n. True"
  by unfold_locales
     (auto simp: connectAny_result_def connectAny_timer_def race_start_next_def race_start_def Let_def
        starts_at_most_one_def split: sum.splits if_splits)

interpretation cidr: dial_race cidrFallback_result cidrFallback_timer "\<lambda>n. n = 2"
  by unfold_locales
     (auto simp: cidrFallback_result_def cidrFallback_timer_def race_start_def Let_def
        starts_at_most_one_def split: sum.splits if_splits)

section \<open>Properties\<close>

lemma any_init_inv: "0 < n \<Longrightarrow> any.inv (connectAny_init n)"
  by (simp add: any.inv_def connectAny_init_def race_start_def)

lemma init_simps [simp]:
  "owned (connectAny_init n) = {#}" "any.fuel (connectAny_init n) = 4 * (n - 1) + 4"
  by (simp_all add: owned_def any.fuel_def connectAny_init_def race_start_def)

text \<open>
  C3. No connection of the race over resolved addresses is lost: whatever the order in which dials end,
  the timer fires and the context is done, the connections the dials opened are, each exactly once,
  the one the caller gets, one waiting in its goroutine, or one that was closed. Once the race is
  over and its goroutines have ended, every connection but the returned one is closed.
\<close>

theorem connectAny_no_leak:
  assumes "0 < n" "race_run connectAny_result connectAny_timer (connectAny_init n) es = Some s"
  shows "mset (opened es) = mset (rc_closed s) + mset (conns_of (map snd (rc_parked s))) +
      (case rc_ret s of Some (Inr c) \<Rightarrow> {#c#} | _ \<Rightarrow> {#})"
proof -
  have "owned s = mset (opened es)"
    using any.run_inv [OF any_init_inv [OF assms(1)] assms(2)] by simp
  then show ?thesis by (simp add: owned_def)
qed

theorem connectAny_no_leak_witness:
  "race_run connectAny_result connectAny_timer (connectAny_init 2)
     [TimerFires, Dialed 1 (Inr ''b''), Dialed 0 (Inr ''a''), Deliver 0, Drop 1] =
   Some \<lparr>rc_n = 2, rc_started = 2, rc_completed = 1, rc_running = [], rc_parked = [], rc_lastErr = None,
     rc_timer = False, rc_ctxDone = False, rc_ret = Some (Inr ''a''), rc_closed = [''b'']\<rparr> \<and>
   mset (opened [TimerFires, Dialed 1 (Inr ''b''), Dialed 0 (Inr ''a''), Deliver 0, Drop 1]) =
     {#''b''#} + {#} + {#''a''#}"
proof -
  have r: "race_run connectAny_result connectAny_timer (connectAny_init 2)
     [TimerFires, Dialed 1 (Inr ''b''), Dialed 0 (Inr ''a''), Deliver 0, Drop 1] =
   Some \<lparr>rc_n = 2, rc_started = 2, rc_completed = 1, rc_running = [], rc_parked = [], rc_lastErr = None,
     rc_timer = False, rc_ctxDone = False, rc_ret = Some (Inr ''a''), rc_closed = [''b'']\<rparr>"
    by code_simp
  from connectAny_no_leak [OF _ r] r show ?thesis by simp
qed

text \<open>
  C27. The race over resolved addresses ends: apart from the context's end it has at most \<open>4 * n\<close> steps, and
  when no dial is running and none of these steps is possible any more, the loop has returned.
\<close>

theorem connectAny_returns:
  assumes "0 < n" "race_run connectAny_result connectAny_timer (connectAny_init n) es = Some s"
  shows "length (filter (\<lambda>e. e \<noteq> CtxDone) es) \<le> 4 * n \<and>
    (rc_running s = [] \<and> (\<forall>ev. ev \<noteq> CtxDone \<longrightarrow> race_step connectAny_result connectAny_timer s ev = None)
      \<longrightarrow> rc_ret s \<noteq> None)"
  using any.run_bounded [OF any_init_inv [OF assms(1)] assms(2)] assms(1)
    any.run_returns [OF any_init_inv [OF assms(1)] assms(2)] by auto

theorem connectAny_returns_witness:
  "race_run connectAny_result connectAny_timer (connectAny_init 2)
     [Dialed 0 (Inl CtxErr), Deliver 0, Dialed 1 (Inl EOF), Deliver 1 :: nat race_event] \<noteq> None \<and>
   length (filter (\<lambda>e. e \<noteq> CtxDone)
     [Dialed 0 (Inl CtxErr), Deliver 0, Dialed 1 (Inl EOF), Deliver 1 :: nat race_event]) \<le> 4 * 2 \<and>
   rc_ret (the (race_run connectAny_result connectAny_timer (connectAny_init 2)
     [Dialed 0 (Inl CtxErr), Deliver 0, Dialed 1 (Inl EOF), Deliver 1 :: nat race_event])) \<noteq> None"
proof -
  let ?es = "[Dialed 0 (Inl CtxErr), Deliver 0, Dialed 1 (Inl EOF), Deliver 1 :: nat race_event]"
  let ?s = "\<lparr>rc_n = 2, rc_started = 2, rc_completed = 2, rc_running = [], rc_parked = [], rc_lastErr = Some EOF,
     rc_timer = True, rc_ctxDone = False, rc_ret = Some (Inl EOF), rc_closed = []\<rparr>"
  have r: "race_run connectAny_result connectAny_timer (connectAny_init 2) ?es = Some ?s"
    by code_simp
  have "race_step connectAny_result connectAny_timer ?s ev = None" if "ev \<noteq> CtxDone" for ev
    using that by (cases ev) (simp_all add: race_step_def)
  then show ?thesis using connectAny_returns [OF _ r] r by simp
qed

subsection \<open>The CIDR race refines the address race\<close>

definition race_sim :: "'c race \<Rightarrow> 'c race \<Rightarrow> bool" where
  "race_sim s t \<longleftrightarrow> rc_n s = 2 \<and> rc_n t = 2 \<and> rc_started s = rc_started t \<and> rc_running s = rc_running t \<and>
     rc_parked s = rc_parked t \<and> rc_lastErr s = rc_lastErr t \<and> rc_ctxDone s = rc_ctxDone t \<and>
     rc_ret s = rc_ret t \<and> rc_closed s = rc_closed t \<and> (rc_timer s \<longrightarrow> rc_timer t) \<and>
     0 < rc_started s \<and> rc_started s \<le> 2 \<and>
     (rc_ret s = None \<longrightarrow> rc_completed s = rc_completed t \<and> rc_completed s < rc_started s)"

lemma race_sim_result:
  assumes "race_sim s t" "rc_ret s = None"
  shows "race_sim (cidrFallback_result r s) (connectAny_result r t)"
  using assms by (cases r)
    (auto simp: race_sim_def cidrFallback_result_def connectAny_result_def race_start_next_def race_start_def Let_def)

lemma race_sim_timer: "race_sim s t \<Longrightarrow> race_sim (cidrFallback_timer s) (connectAny_timer t)"
  by (auto simp: race_sim_def cidrFallback_timer_def connectAny_timer_def race_start_next_def race_start_def Let_def)

lemma race_sim_step:
  assumes "race_sim s t" "race_step cidrFallback_result cidrFallback_timer s ev = Some s'"
  shows "\<exists>t'. race_step connectAny_result connectAny_timer t ev = Some t' \<and> race_sim s' t'"
proof (cases ev)
  case (Deliver i)
  have "race_sim (s\<lparr>rc_parked := del i (rc_parked s)\<rparr>) (t\<lparr>rc_parked := del i (rc_parked t)\<rparr>)"
    using assms(1) by (auto simp: race_sim_def)
  from race_sim_result [OF this] show ?thesis using assms Deliver
    by (auto simp: race_step_def race_sim_def [of s t] split: option.splits if_splits)
next
  case TimerFires
  then show ?thesis using assms race_sim_timer [OF assms(1)]
    by (auto simp: race_step_def race_sim_def [of s t] split: if_splits)
next
  case (Drop i)
  then obtain r where "map_of (rc_parked s) i = Some r" using assms(2)
    by (auto simp: race_step_def split: option.splits)
  then have s': "s' = close_result r (s\<lparr>rc_parked := del i (rc_parked s)\<rparr>)"
    and t: "race_step connectAny_result connectAny_timer t ev =
      Some (close_result r (t\<lparr>rc_parked := del i (rc_parked t)\<rparr>))"
    using assms Drop by (simp_all add: race_step_def race_sim_def split: if_splits)
  have "race_sim (close_result r (s\<lparr>rc_parked := del i (rc_parked s)\<rparr>))
      (close_result r (t\<lparr>rc_parked := del i (rc_parked t)\<rparr>))"
    using assms(1) by (cases r) (auto simp: race_sim_def close_result_def)
  then show ?thesis using s' t by simp
qed (use assms in \<open>auto simp: race_step_def race_sim_def split: if_splits\<close>)

lemma race_sim_run:
  assumes "race_sim s t" "race_run cidrFallback_result cidrFallback_timer s es = Some s'"
  shows "\<exists>t'. race_run connectAny_result connectAny_timer t es = Some t' \<and> race_sim s' t'"
  using assms
proof (induction es arbitrary: s t)
  case (Cons e es)
  then obtain u where "race_step cidrFallback_result cidrFallback_timer s e = Some u"
    "race_run cidrFallback_result cidrFallback_timer u es = Some s'"
    by (auto split: option.splits)
  then show ?case using Cons.IH race_sim_step [OF Cons.prems(1)] by (metis option.simps(5) race_run.simps(2))
qed simp

text \<open>
  C28. The race between the CIDR path and the fallback is the race over two addresses: every run of
  \<open>connectWithCIDRFallback\<close> is, event by event, a run of \<open>connectAny\<close> on two addresses, with the same dials,
  the same result and the same closed connections.
\<close>

theorem cidrFallback_refines_connectAny:
  assumes "race_run cidrFallback_result cidrFallback_timer (connectAny_init 2) es = Some s"
  shows "\<exists>t. race_run connectAny_result connectAny_timer (connectAny_init 2) es = Some t \<and>
    rc_running t = rc_running s \<and> rc_parked t = rc_parked s \<and> rc_ret t = rc_ret s \<and> rc_closed t = rc_closed s"
proof -
  have "race_sim (connectAny_init 2) (connectAny_init 2)"
    by (simp add: race_sim_def connectAny_init_def race_start_def)
  from race_sim_run [OF this assms] show ?thesis by (auto simp: race_sim_def)
qed

theorem cidrFallback_refines_connectAny_witness:
  "\<exists>t. race_run connectAny_result connectAny_timer (connectAny_init 2)
      [TimerFires, Dialed 0 (Inr ''a''), Dialed 1 (Inr ''b''), CtxDone, LoopSeesDone, Drop 0, Drop 1] = Some t \<and>
    rc_running t = [] \<and> rc_parked t = [] \<and> rc_ret t = Some (Inl CtxErr) \<and> rc_closed t = [''b'', ''a'']"
proof -
  have "race_run cidrFallback_result cidrFallback_timer (connectAny_init 2)
      [TimerFires, Dialed 0 (Inr ''a''), Dialed 1 (Inr ''b''), CtxDone, LoopSeesDone, Drop 0, Drop 1] =
    Some \<lparr>rc_n = 2, rc_started = 2, rc_completed = 0, rc_running = [], rc_parked = [], rc_lastErr = None,
     rc_timer = False, rc_ctxDone = True, rc_ret = Some (Inl CtxErr), rc_closed = [''b'', ''a'']\<rparr>"
    by code_simp
  from cidrFallback_refines_connectAny [OF this] show ?thesis by simp
qed

subsection \<open>Sources and sends\<close>

text \<open>The requests of a plan.\<close>

fun plan_reqs :: "dial_plan \<Rightarrow> dial_req list" where
  "plan_reqs (DialOne r) = [r]"
| "plan_reqs (DialRace r r') = [r, r']"
| "plan_reqs (DialError e) = []"

lemma connectAddr_source:
  assumes "r \<in> set (plan_reqs (connectAddr rd c e target))" "cn_CIDR c = Some cidr"
  shows "(dr_bindIP r = assignSourceIP rd cidr (cn_CIDRRange c) e \<and> dr_interface r = [] \<and>
      Is4 (pf_addr cidr) = Is4 (ap_addr target))
    \<or> (\<exists>fb. cn_Fallback c = Some fb \<and> r = connectWithFallback target fb)"
  using assms by (auto simp: connectAddr_def connectWithCIDR_def split: option.splits if_splits)

text \<open>
  The attempts of \<open>SendPacket\<close>, in order: for each address the preferred socket, then the fallback.
\<close>

definition send_attempts :: "'s \<Rightarrow> 's option \<Rightarrow> addr_port list \<Rightarrow> ('s \<times> udp_addr) list" where
  "send_attempts p f addrs = concat (map (\<lambda>a. map (\<lambda>s. (s, UDPAddrFromAddrPort a))
     (p # (case f of None \<Rightarrow> [] | Some s \<Rightarrow> [s]))) addrs)"

fun first_ok :: "('x \<Rightarrow> 'y res) \<Rightarrow> go_error \<Rightarrow> 'x list \<Rightarrow> 'y res" where
  "first_ok f e [] = Inl e"
| "first_ok f e (x # xs) = (case f x of Inr y \<Rightarrow> Inr y | Inl e' \<Rightarrow> first_ok f e' xs)"

lemma send_loop_first_ok:
  assumes "\<And>i. ctxErr i = None"
  shows "send_loop wr ctxErr p f i lastErr addrs =
    first_ok (case_prod wr) (case lastErr of None \<Rightarrow> Message ''failed to send packet to any resolved address'' | Some e \<Rightarrow> e)
      (send_attempts p f addrs)"
proof (induction addrs arbitrary: i lastErr)
  case (Cons a as)
  show ?case using Cons.IH assms
    by (auto simp: sendPacketWithAddr_def trySendTo_def send_attempts_def split: sum.splits option.splits)
qed (simp add: send_attempts_def)

text \<open>
  \<open>SendPacket\<close> on a live context tries every resolved address in order, on the preferred socket and then
  on the fallback, and returns the first success; when all fail it returns the error of the last attempt.
\<close>

theorem SendPacket_first_success:
  assumes "\<And>i. ctxErr i = None"
    and "(case ta_Addr target of Some a \<Rightarrow> Inr [a] | None \<Rightarrow> resolveHost lookup (ta_Host target) (ta_Port target)) = Inr addrs"
  shows "SendPacket wr ctxErr lookup target p f =
    first_ok (case_prod wr) (Message ''failed to send packet to any resolved address'') (send_attempts p f addrs)"
  using assms(2) by (simp add: SendPacket_def send_loop_first_ok [OF assms(1)])

theorem SendPacket_first_success_witness:
  "SendPacket (\<lambda>s u. if s = ''v6'' then Inr 5 else Inl EOF) (\<lambda>_. None) (\<lambda>_. ([V4 0x01020304, V4 0x05060708], None))
     (FromHost (bytes_of ''a.b'') 53) ''v4'' (Some ''v6'') = Inr 5"
proof -
  have "resolveHost (\<lambda>_. ([V4 0x01020304, V4 0x05060708], None)) (bytes_of ''a.b'') 53 =
      Inr [AddrPortFrom (V4 0x01020304) 53, AddrPortFrom (V4 0x05060708) 53]"
  proof -
    have "ParseAddr (bytes_of ''a.b'') = None" by code_simp
    then show ?thesis by (simp add: resolveHost_def)
  qed
  with SendPacket_first_success [of "\<lambda>_. None" "\<lambda>_. ([V4 0x01020304, V4 0x05060708], None)"
      "FromHost (bytes_of ''a.b'') 53"
      "[AddrPortFrom (V4 0x01020304) 53, AddrPortFrom (V4 0x05060708) 53]"
      "\<lambda>s u. if s = ''v6'' then Inr 5 else Inl EOF" "''v4''" "Some ''v6''"]
  show ?thesis by (simp add: FromHost_def send_attempts_def)
qed

end
