(* ===== verification/Proto.thy ===== *)
theory Proto
  imports Netip
begin

text \<open>
  Model of \<open>internal/server/socks/proto\<close>: addresses, requests, responses and UDP headers of SOCKS5,
  their writers, the stream readers and the slice parsers of the packet path. A reader consumes the
  bytes its peer delivers; a writer's environment decides for every \<open>Write\<close> call whether it takes
  all bytes or fails after some of them.
\<close>

section \<open>Definitions\<close>

subsection \<open>proto.go\<close>

definition Version5 :: byte where
  "Version5 = 5"

definition readU8 :: "byte reader" where
  "readU8 = rbind (ReadFull 1) (\<lambda>b. rret (b ! 0))"

definition readU16 :: "u16 reader" where
  "readU16 = rbind (ReadFull 2) (\<lambda>b. rret (be_word b))"

text \<open>
  The environment of a writer: given what was written before and the bytes of this call, either the
  call succeeds (\<open>None\<close>) or it fails with an error after \<open>k\<close> bytes.
\<close>

type_synonym writer = "byte list \<Rightarrow> byte list \<Rightarrow> (nat \<times> go_error) option"

definition writeAll :: "writer \<Rightarrow> byte list \<Rightarrow> byte list \<Rightarrow> go_error option \<times> byte list" where
  "writeAll w b out = (case w out b of
      None \<Rightarrow> (None, out @ b)
    | Some (k, e) \<Rightarrow> (Some e, out @ take k b))"

definition checkVersion :: "byte \<Rightarrow> unit res" where
  "checkVersion v = (if v \<noteq> Version5 then Inl (UnsupportedVersion v) else Inr ())"

subsection \<open>address.go\<close>

definition AddrIPv4 :: byte where "AddrIPv4 = 0x01"
definition AddrDomain :: byte where "AddrDomain = 0x03"
definition AddrIPv6 :: byte where "AddrIPv6 = 0x04"

record Address =
  aSocket :: "addr_port option"
  aDomain :: gostring
  aPort :: u16

definition SocketAddress :: "addr_port \<Rightarrow> Address" where
  "SocketAddress a = \<lparr>aSocket = Some a, aDomain = [], aPort = 0\<rparr>"

definition DomainAddress :: "gostring \<Rightarrow> u16 \<Rightarrow> Address" where
  "DomainAddress d p = \<lparr>aSocket = None, aDomain = d, aPort = p\<rparr>"

definition Unspecified :: Address where
  "Unspecified = SocketAddress (AddrPortFrom IPv4Unspecified 0)"

definition MaxSerializedLen :: nat where
  "MaxSerializedLen = 1 + 1 + 255 + 2"

definition Address_Len :: "Address \<Rightarrow> nat" where
  "Address_Len a = (case aSocket a of
      Some ap \<Rightarrow> if Is4 (ap_addr ap) then 1 + 4 + 2 else 1 + 16 + 2
    | None \<Rightarrow> 1 + 1 + length (aDomain a) + 2)"

definition AppendTo :: "Address \<Rightarrow> byte list \<Rightarrow> byte list res" where
  "AppendTo a b = (case aSocket a of
      Some ap \<Rightarrow>
        if Is4 (ap_addr ap)
        then Inr (b @ [AddrIPv4] @ As4 (ap_addr ap) @ be_bytes 2 (ap_port ap))
        else Inr (b @ [AddrIPv6] @ As16 (ap_addr ap) @ be_bytes 2 (ap_port ap))
    | None \<Rightarrow>
        if 255 < length (aDomain a) then Inl (DomainTooLong (length (aDomain a)))
        else Inr (b @ [AddrDomain, of_nat (length (aDomain a))] @ aDomain a @ be_bytes 2 (aPort a)))"

definition Address_MarshalTo :: "writer \<Rightarrow> Address \<Rightarrow> byte list \<Rightarrow> go_error option \<times> byte list" where
  "Address_MarshalTo w a out = (case AppendTo a [] of
      Inl e \<Rightarrow> (Some e, out)
    | Inr b \<Rightarrow> writeAll w b out)"

definition ParseAddress :: "byte list \<Rightarrow> (Address \<times> nat) res" where
  "ParseAddress buf =
     (if length buf < 1 then Inl UnexpectedEOF
      else if buf ! 0 = AddrIPv4 then
        (if length buf < 1 + 4 + 2 then Inl UnexpectedEOF
         else Inr (SocketAddress (AddrPortFrom (AddrFrom4 [buf ! 1, buf ! 2, buf ! 3, buf ! 4])
                     (be_word (take 2 (drop 5 buf)))), 1 + 4 + 2))
      else if buf ! 0 = AddrIPv6 then
        (if length buf < 1 + 16 + 2 then Inl UnexpectedEOF
         else Inr (SocketAddress (AddrPortFrom (AddrFrom16 (take 16 (drop 1 buf)))
                     (be_word (take 2 (drop 17 buf)))), 1 + 16 + 2))
      else if buf ! 0 = AddrDomain then
        (if length buf < 2 then Inl UnexpectedEOF
         else let len = unat (buf ! 1) in
           if length buf < 2 + len + 2 then Inl UnexpectedEOF
           else Inr (DomainAddress (take len (drop 2 buf)) (be_word (take 2 (drop (2 + len) buf))),
                     2 + len + 2))
      else Inl (UnsupportedAddressType (buf ! 0)))"

definition ReadAddress :: "Address reader" where
  "ReadAddress = rbind readU8 (\<lambda>atyp.
     if atyp = AddrIPv4 then
       rbind (ReadFull 6) (\<lambda>buf.
         rret (SocketAddress (AddrPortFrom (AddrFrom4 [buf ! 0, buf ! 1, buf ! 2, buf ! 3])
                 (be_word (drop 4 buf)))))
     else if atyp = AddrDomain then
       rbind readU8 (\<lambda>ln. rbind (ReadFull (unat ln + 2)) (\<lambda>buf.
         rret (DomainAddress (take (unat ln) buf) (be_word (drop (unat ln) buf)))))
     else if atyp = AddrIPv6 then
       rbind (ReadFull 18) (\<lambda>buf.
         rret (SocketAddress (AddrPortFrom (AddrFrom16 (take 16 buf)) (be_word (drop 16 buf)))))
     else rfail (UnsupportedAddressType atyp))"

subsection \<open>udp.go\<close>

record UdpHeader =
  uFrag :: byte
  uAddress :: Address

definition UdpHeaderMaxLen :: nat where
  "UdpHeaderMaxLen = 3 + MaxSerializedLen"

definition UdpHeader_Len :: "UdpHeader \<Rightarrow> nat" where
  "UdpHeader_Len h = 3 + Address_Len (uAddress h)"

definition UdpHeader_MarshalTo :: "writer \<Rightarrow> UdpHeader \<Rightarrow> byte list \<Rightarrow> go_error option \<times> byte list" where
  "UdpHeader_MarshalTo w h out = (case writeAll w [0, 0, uFrag h] out of
      (Some e, out) \<Rightarrow> (Some e, out)
    | (None, out) \<Rightarrow> Address_MarshalTo w (uAddress h) out)"

definition ReadUdpHeader :: "(UdpHeader \<times> nat) reader" where
  "ReadUdpHeader = rbind (ReadFull 3) (\<lambda>buf. rbind ReadAddress (\<lambda>addr.
     let h = \<lparr>uFrag = buf ! 2, uAddress = addr\<rparr> in rret (h, UdpHeader_Len h)))"

definition ParseUdpHeader :: "byte list \<Rightarrow> (UdpHeader \<times> nat) res" where
  "ParseUdpHeader buf =
     (if length buf < 3 then Inl UnexpectedEOF
      else case ParseAddress (drop 3 buf) of
          Inl e \<Rightarrow> Inl e
        | Inr (addr, addrLen) \<Rightarrow> Inr (\<lparr>uFrag = buf ! 2, uAddress = addr\<rparr>, 3 + addrLen))"

definition BuildUdpPacket :: "byte \<Rightarrow> Address \<Rightarrow> byte list \<Rightarrow> byte list" where
  "BuildUdpPacket frag from payload =
     [0, 0, frag]
     @ (case aSocket from of
          Some ap \<Rightarrow>
            (if Is4 (ap_addr ap) then [AddrIPv4] @ As4 (ap_addr ap)
             else [AddrIPv6] @ As16 (ap_addr ap)) @ be_bytes 2 (ap_port ap)
        | None \<Rightarrow>
            [AddrDomain, of_nat (length (aDomain from))] @ aDomain from @ be_bytes 2 (aPort from))
     @ payload"

subsection \<open>command.go, reply.go\<close>

datatype Command = CmdConnect | CmdBind | CmdUDPAssociate

definition ParseCommand :: "byte \<Rightarrow> Command res" where
  "ParseCommand b =
     (if b = 0x01 then Inr CmdConnect
      else if b = 0x02 then Inr CmdBind
      else if b = 0x03 then Inr CmdUDPAssociate
      else Inl (UnsupportedCommand b))"

definition Command_Byte :: "Command \<Rightarrow> byte" where
  "Command_Byte c = (case c of CmdConnect \<Rightarrow> 0x01 | CmdBind \<Rightarrow> 0x02 | CmdUDPAssociate \<Rightarrow> 0x03)"

datatype Reply =
    ReplySucceeded
  | ReplyGeneralFailure
  | ReplyConnectionNotAllowed
  | ReplyNetworkUnreachable
  | ReplyHostUnreachable
  | ReplyConnectionRefused
  | ReplyTtlExpired
  | ReplyCommandNotSupported
  | ReplyAddressTypeNotSupported

definition ParseReply :: "byte \<Rightarrow> Reply res" where
  "ParseReply b =
     (if b = 0x00 then Inr ReplySucceeded
      else if b = 0x01 then Inr ReplyGeneralFailure
      else if b = 0x02 then Inr ReplyConnectionNotAllowed
      else if b = 0x03 then Inr ReplyNetworkUnreachable
      else if b = 0x04 then Inr ReplyHostUnreachable
      else if b = 0x05 then Inr ReplyConnectionRefused
      else if b = 0x06 then Inr ReplyTtlExpired
      else if b = 0x07 then Inr ReplyCommandNotSupported
      else if b = 0x08 then Inr ReplyAddressTypeNotSupported
      else Inl (UnsupportedReply b))"

definition Reply_Byte :: "Reply \<Rightarrow> byte" where
  "Reply_Byte r = (case r of
      ReplySucceeded \<Rightarrow> 0x00
    | ReplyGeneralFailure \<Rightarrow> 0x01
    | ReplyConnectionNotAllowed \<Rightarrow> 0x02
    | ReplyNetworkUnreachable \<Rightarrow> 0x03
    | ReplyHostUnreachable \<Rightarrow> 0x04
    | ReplyConnectionRefused \<Rightarrow> 0x05
    | ReplyTtlExpired \<Rightarrow> 0x06
    | ReplyCommandNotSupported \<Rightarrow> 0x07
    | ReplyAddressTypeNotSupported \<Rightarrow> 0x08)"

definition Reply_String :: "Reply \<Rightarrow> string" where
  "Reply_String r = (case r of
      ReplySucceeded \<Rightarrow> ''Succeeded''
    | ReplyGeneralFailure \<Rightarrow> ''GeneralFailure''
    | ReplyConnectionNotAllowed \<Rightarrow> ''ConnectionNotAllowed''
    | ReplyNetworkUnreachable \<Rightarrow> ''NetworkUnreachable''
    | ReplyHostUnreachable \<Rightarrow> ''HostUnreachable''
    | ReplyConnectionRefused \<Rightarrow> ''ConnectionRefused''
    | ReplyTtlExpired \<Rightarrow> ''TtlExpired''
    | ReplyCommandNotSupported \<Rightarrow> ''CommandNotSupported''
    | ReplyAddressTypeNotSupported \<Rightarrow> ''AddressTypeNotSupported'')"

subsection \<open>request.go, response.go\<close>

record Request =
  rCommand :: Command
  rAddress :: Address

text \<open>A reader that turns the result of a check into success or failure.\<close>

definition rlift :: "'a res \<Rightarrow> 'a reader" where
  "rlift r s = (case r of Inl e \<Rightarrow> Inl e | Inr a \<Rightarrow> Inr (a, s))"

definition ReadRequest :: "Request reader" where
  "ReadRequest = rbind readU8 (\<lambda>ver. rbind (rlift (checkVersion ver)) (\<lambda>_.
     rbind (ReadFull 2) (\<lambda>buf. rbind (rlift (ParseCommand (buf ! 0))) (\<lambda>cmd.
       rbind ReadAddress (\<lambda>addr. rret \<lparr>rCommand = cmd, rAddress = addr\<rparr>)))))"

definition Request_MarshalTo :: "writer \<Rightarrow> Request \<Rightarrow> byte list \<Rightarrow> go_error option \<times> byte list" where
  "Request_MarshalTo w req out = (case writeAll w [Version5, Command_Byte (rCommand req), 0] out of
      (Some e, out) \<Rightarrow> (Some e, out)
    | (None, out) \<Rightarrow> Address_MarshalTo w (rAddress req) out)"

record Response =
  rsReply :: Reply
  rsAddress :: Address

definition NewResponse :: "Reply \<Rightarrow> Address \<Rightarrow> Response" where
  "NewResponse reply addr = \<lparr>rsReply = reply, rsAddress = addr\<rparr>"

definition Response_MarshalTo :: "writer \<Rightarrow> Response \<Rightarrow> byte list \<Rightarrow> go_error option \<times> byte list" where
  "Response_MarshalTo w resp out =
     (case AppendTo (rsAddress resp) [Version5, Reply_Byte (rsReply resp), 0] of
        Inl e \<Rightarrow> (Some e, out)
      | Inr b \<Rightarrow> writeAll w b out)"

section \<open>Addresses on the wire\<close>

text \<open>
  The well-formed addresses: a socket address without zone, whose domain part is unused, or a domain
  of at most 255 bytes.
\<close>

definition wf_address :: "Address \<Rightarrow> bool" where
  "wf_address a = (case aSocket a of
      Some ap \<Rightarrow> IsValid (ap_addr ap) \<and> Zone (ap_addr ap) = [] \<and> aDomain a = [] \<and> aPort a = 0
    | None \<Rightarrow> length (aDomain a) \<le> 255)"

lemmas addr_codes = AddrIPv4_def AddrDomain_def AddrIPv6_def

lemma wf_address_cases:
  assumes "wf_address a"
  obtains (v4) w p where "a = SocketAddress (AddrPortFrom (V4 w) p)"
    | (v6) w p where "a = SocketAddress (AddrPortFrom (V6 w []) p)"
    | (domain) d p where "a = DomainAddress d p" "length d \<le> 255"
proof (cases "aSocket a")
  case None
  then show ?thesis using assms domain [of "aDomain a" "aPort a"]
    by (simp add: wf_address_def DomainAddress_def)
next
  case (Some ap)
  then have a: "a = SocketAddress (AddrPortFrom (ap_addr ap) (ap_port ap))"
    using assms by (cases a) (simp add: wf_address_def SocketAddress_def)
  with Some assms show ?thesis using v4 v6
    by (cases "ap_addr ap") (auto simp: wf_address_def IsValid_def)
qed

lemma wf_addresses [simp]:
  "wf_address (SocketAddress (AddrPortFrom (V4 w) p))"
  "wf_address (SocketAddress (AddrPortFrom (V6 v z) p)) \<longleftrightarrow> z = []"
  "wf_address (DomainAddress d p) \<longleftrightarrow> length d \<le> 255"
  by (auto simp: wf_address_def SocketAddress_def DomainAddress_def IsValid_def)

lemma AppendTo_simps:
  "AppendTo (SocketAddress (AddrPortFrom (V4 w) p)) b = Inr (b @ [AddrIPv4] @ be_bytes 4 w @ be_bytes 2 p)"
  "AppendTo (SocketAddress (AddrPortFrom (V6 v z) p)) b = Inr (b @ [AddrIPv6] @ be_bytes 16 v @ be_bytes 2 p)"
  "length d \<le> 255 \<Longrightarrow> AppendTo (DomainAddress d p) b =
     Inr (b @ [AddrDomain, of_nat (length d)] @ d @ be_bytes 2 p)"
  by (simp_all add: AppendTo_def SocketAddress_def DomainAddress_def As4_def As16_def)

lemma unat_of_nat_byte: "n \<le> 255 \<Longrightarrow> unat (of_nat n :: byte) = n"
  by (simp add: unat_of_nat take_bit_eq_mod)

lemma unat_byte_le: "unat (b :: byte) \<le> 255"
  using unsigned_less [of b, where ?'a = nat] by simp

lemma be_word_be_bytes_2 [simp]: "be_word (be_bytes 2 p) = (p :: u16)"
  by (simp add: be_word_be_bytes)

lemma nth_list4: "length xs = 4 \<Longrightarrow> [xs ! 0, xs ! 1, xs ! 2, xs ! 3] = xs"
  by (auto simp: numeral_eq_Suc length_Suc_conv)

lemma readU8_Cons [simp, stream_simps]: "readU8 (b # s) = Inr (b, s)"
  using ReadFull_append [of "[b]" 1 s] by (simp add: readU8_def)

lemma readU8_Nil [simp, stream_simps]: "readU8 [] = Inl EOF"
  by (simp add: readU8_def rbind_def ReadFull_def)

lemma readU8_eq_Inr: "readU8 s = Inr (b, s') \<longleftrightarrow> s = b # s'"
  by (cases s) auto

lemma ReadAddress_AppendTo:
  assumes "wf_address a" "AppendTo a [] = Inr bs"
  shows "ReadAddress (bs @ rest) = Inr (a, rest)"
  using assms(1)
proof (cases rule: wf_address_cases)
  case (v4 w p)
  let ?b = "be_bytes 4 w @ be_bytes 2 p"
  have "ReadFull 6 (?b @ rest) = Inr (?b, rest)" by (simp del: append_assoc)
  moreover have "AddrFrom4 [?b ! 0, ?b ! 1, ?b ! 2, ?b ! 3] = V4 w"
    using nth_list4 [of "be_bytes 4 w"]
    by (simp add: nth_append AddrFrom4_def be_word_be_bytes)
  ultimately show ?thesis using assms(2) v4
    by (auto simp: AppendTo_simps ReadAddress_def)
next
  case (v6 w p)
  let ?b = "be_bytes 16 w @ be_bytes 2 p"
  have "ReadFull 18 (?b @ rest) = Inr (?b, rest)" by (simp del: append_assoc)
  then show ?thesis using assms(2) v6
    by (auto simp: AppendTo_simps ReadAddress_def addr_codes AddrFrom16_def be_word_be_bytes)
next
  case (domain d p)
  let ?b = "d @ be_bytes 2 p"
  have "ReadFull (length d + 2) (?b @ rest) = Inr (?b, rest)" by (simp del: append_assoc)
  then show ?thesis using assms(2) domain
    by (auto simp: AppendTo_simps ReadAddress_def addr_codes unat_of_nat_byte)
qed

lemma ReadAddress_canonical:
  assumes "ReadAddress s = Inr (a, rest)"
  shows "wf_address a \<and> (\<exists>bs. AppendTo a [] = Inr bs \<and> s = bs @ rest)"
proof -
  obtain t s1 where s: "s = t # s1" using assms by (cases s) (auto simp: ReadAddress_def)
  show ?thesis
  proof (cases "t = AddrIPv4")
    case True
    then obtain buf where b: "s1 = buf @ rest" "length buf = 6"
      "a = SocketAddress (AddrPortFrom (AddrFrom4 [buf ! 0, buf ! 1, buf ! 2, buf ! 3]) (be_word (drop 4 buf)))"
      using assms s by (auto simp: ReadAddress_def rbind_eq_Inr ReadFull_eq_Inr)
    have "[buf ! 0, buf ! 1, buf ! 2, buf ! 3] = take 4 buf"
      using nth_list4 [of "take 4 buf"] b(2) by simp
    then have "AppendTo a [] = Inr (t # take 4 buf @ drop 4 buf)"
      using b True
      by (simp add: AddrFrom4_def AppendTo_simps be_bytes_be_word del: append_take_drop_id)
    then show ?thesis using b s by (simp add: AddrFrom4_def)
  next
    case nv4: False
    show ?thesis
    proof (cases "t = AddrDomain")
      case True
      then obtain ln buf where b: "s1 = ln # buf @ rest" "length buf = unat ln + 2"
        "a = DomainAddress (take (unat ln) buf) (be_word (drop (unat ln) buf))"
        using assms s nv4 by (auto simp: ReadAddress_def rbind_eq_Inr ReadFull_eq_Inr readU8_eq_Inr)
      have "AppendTo a [] = Inr (t # ln # take (unat ln) buf @ drop (unat ln) buf)"
        using b True unat_byte_le [of ln]
        by (simp add: AppendTo_simps be_bytes_be_word min_def del: append_take_drop_id)
      then show ?thesis using b s unat_byte_le [of ln] by (simp add: min_def)
    next
      case nd: False
      then have "t = AddrIPv6" using assms s nv4 by (auto simp: ReadAddress_def split: if_splits)
      then obtain buf where b: "s1 = buf @ rest" "length buf = 18"
        "a = SocketAddress (AddrPortFrom (AddrFrom16 (take 16 buf)) (be_word (drop 16 buf)))"
        using assms s nv4 nd by (auto simp: ReadAddress_def rbind_eq_Inr ReadFull_eq_Inr)
      have "AppendTo a [] = Inr (t # take 16 buf @ drop 16 buf)"
        using b \<open>t = AddrIPv6\<close>
        by (simp add: AddrFrom16_def AppendTo_simps be_bytes_be_word del: append_take_drop_id)
      then show ?thesis using b s by (simp add: AddrFrom16_def)
    qed
  qed
qed

interpretation address_codec: canonical_codec "\<lambda>a. AppendTo a []" ReadAddress wf_address
proof unfold_locales
  fix a assume "wf_address a"
  then show "\<exists>bs. AppendTo a [] = Inr bs" by (cases rule: wf_address_cases) (simp_all add: AppendTo_simps)
qed (simp_all add: ReadAddress_AppendTo ReadAddress_canonical)

section \<open>Slice parsers agree with stream readers\<close>

lemma ParseAddress_ReadAddress:
  "ParseAddress buf = (case ReadAddress buf of
      Inl e \<Rightarrow> Inl (if e = EOF then UnexpectedEOF else e)
    | Inr (a, rest) \<Rightarrow> Inr (a, length buf - length rest))"
proof (cases buf)
  case Nil
  then show ?thesis by (simp add: ParseAddress_def ReadAddress_def)
next
  case (Cons t s)
  consider (v4) "t = AddrIPv4" | (v6) "t = AddrIPv6" | (dom) "t = AddrDomain"
    | (other) "t \<noteq> AddrIPv4" "t \<noteq> AddrIPv6" "t \<noteq> AddrDomain" by blast
  then show ?thesis
  proof cases
    case v4
    then show ?thesis using Cons
      by (auto simp: ParseAddress_def ReadAddress_def rbind_def ReadFull_def take_drop)
  next
    case v6
    then show ?thesis using Cons
      by (auto simp: ParseAddress_def ReadAddress_def rbind_def ReadFull_def addr_codes drop_take)
  next
    case dom
    then show ?thesis using Cons
      by (cases s) (auto simp: ParseAddress_def ReadAddress_def rbind_def ReadFull_def addr_codes drop_take Let_def)
  next
    case other
    then show ?thesis using Cons by (auto simp: ParseAddress_def ReadAddress_def)
  qed
qed

lemma drop_3_plus [simp]: "drop (3 + n) (x # y # z # xs) = drop n xs"
  by (simp add: numeral_eq_Suc)

lemma AppendTo_prefix: "AppendTo a b = (case AppendTo a [] of Inl e \<Rightarrow> Inl e | Inr bs \<Rightarrow> Inr (b @ bs))"
  by (auto simp: AppendTo_def split: option.splits)

lemma AppendTo_length: "AppendTo a b = Inr bs \<Longrightarrow> length bs = length b + Address_Len a"
  by (auto simp: AppendTo_def Address_Len_def split: option.splits if_splits)

lemma ReadUdpHeader_eq:
  "ReadUdpHeader (r0 # r1 # f # s) = (case ReadAddress s of
      Inl e \<Rightarrow> Inl e
    | Inr (a, rest) \<Rightarrow> Inr ((\<lparr>uFrag = f, uAddress = a\<rparr>, 3 + Address_Len a), rest))"
  using ReadFull_append [of "[r0, r1, f]" 3 s]
  by (auto simp: ReadUdpHeader_def rbind_def UdpHeader_Len_def Let_def split: sum.splits)

section \<open>Writers\<close>

text \<open>The bytes a marshaller writes when no \<open>Write\<close> fails.\<close>

definition no_fail :: writer where
  "no_fail out b = None"

definition marshalled :: "(writer \<Rightarrow> 'a \<Rightarrow> byte list \<Rightarrow> go_error option \<times> byte list) \<Rightarrow> 'a \<Rightarrow> byte list res" where
  "marshalled ms a = (case ms no_fail a [] of (None, out) \<Rightarrow> Inr out | (Some e, _) \<Rightarrow> Inl e)"

lemma writeAll_no_fail [simp]: "writeAll no_fail b out = (None, out @ b)"
  by (simp add: writeAll_def no_fail_def)

lemma marshalled_Address: "marshalled Address_MarshalTo a = AppendTo a []"
  by (auto simp: marshalled_def Address_MarshalTo_def split: sum.splits)

lemma marshalled_Request:
  "marshalled Request_MarshalTo r = (case AppendTo (rAddress r) [] of
      Inl e \<Rightarrow> Inl e | Inr bs \<Rightarrow> Inr ([Version5, Command_Byte (rCommand r), 0] @ bs))"
  by (auto simp: marshalled_def Request_MarshalTo_def Address_MarshalTo_def split: sum.splits)

lemma marshalled_UdpHeader:
  "marshalled UdpHeader_MarshalTo h = (case AppendTo (uAddress h) [] of
      Inl e \<Rightarrow> Inl e | Inr bs \<Rightarrow> Inr ([0, 0, uFrag h] @ bs))"
  by (auto simp: marshalled_def UdpHeader_MarshalTo_def Address_MarshalTo_def split: sum.splits)

lemma marshalled_Response:
  "marshalled Response_MarshalTo r = (case AppendTo (rsAddress r) [] of
      Inl e \<Rightarrow> Inl e | Inr bs \<Rightarrow> Inr ([Version5, Reply_Byte (rsReply r), 0] @ bs))"
  by (auto simp: marshalled_def Response_MarshalTo_def AppendTo_prefix [of _ "[_, _, _]"] split: sum.splits)

lemma ParseCommand_Byte [simp]: "ParseCommand (Command_Byte c) = Inr c"
  by (cases c) (simp_all add: ParseCommand_def Command_Byte_def)

lemma ParseReply_Byte [simp]: "ParseReply (Reply_Byte r) = Inr r"
  by (cases r) (simp_all add: ParseReply_def Reply_Byte_def)

lemma rlift_simps [simp, stream_simps]: "rlift (Inr a) s = Inr (a, s)" "rlift (Inl e) s = Inl e"
  by (simp_all add: rlift_def)

lemma checkVersion_5 [simp]: "checkVersion Version5 = Inr ()"
  by (simp add: checkVersion_def)

lemma ReadRequest_eq:
  "ReadRequest (Version5 # c # r # s) = (case ParseCommand c of
      Inl e \<Rightarrow> Inl e
    | Inr cmd \<Rightarrow> (case ReadAddress s of
        Inl e \<Rightarrow> Inl e
      | Inr (a, rest) \<Rightarrow> Inr (\<lparr>rCommand = cmd, rAddress = a\<rparr>, rest)))"
  using ReadFull_append [of "[c, r]" 2 s]
  by (auto simp: ReadRequest_def rbind_def rlift_def split: sum.splits)

interpretation request_codec: byte_codec "marshalled Request_MarshalTo" ReadRequest "\<lambda>r. wf_address (rAddress r)"
proof unfold_locales
  fix r :: Request
  assume "wf_address (rAddress r)"
  then show "\<exists>bs. marshalled Request_MarshalTo r = Inr bs"
    using address_codec.enc_total by (fastforce simp: marshalled_Request)
next
  fix r :: Request and bs rest
  assume wf: "wf_address (rAddress r)" and m: "marshalled Request_MarshalTo r = Inr bs"
  then obtain b where "AppendTo (rAddress r) [] = Inr b" "bs = [Version5, Command_Byte (rCommand r), 0] @ b"
    by (auto simp: marshalled_Request split: sum.splits)
  with address_codec.dec_enc [OF wf] show "ReadRequest (bs @ rest) = Inr (r, rest)"
    by (simp add: ReadRequest_eq)
qed

interpretation udp_header_codec: byte_codec "marshalled UdpHeader_MarshalTo"
  "rbind ReadUdpHeader (\<lambda>(h, n). rret h)" "\<lambda>h. wf_address (uAddress h)"
proof unfold_locales
  fix h :: UdpHeader
  assume "wf_address (uAddress h)"
  then show "\<exists>bs. marshalled UdpHeader_MarshalTo h = Inr bs"
    using address_codec.enc_total by (fastforce simp: marshalled_UdpHeader)
next
  fix h :: UdpHeader and bs rest
  assume wf: "wf_address (uAddress h)" and m: "marshalled UdpHeader_MarshalTo h = Inr bs"
  then obtain b where "AppendTo (uAddress h) [] = Inr b" "bs = [0, 0, uFrag h] @ b"
    by (auto simp: marshalled_UdpHeader split: sum.splits)
  with address_codec.dec_enc [OF wf] show "rbind ReadUdpHeader (\<lambda>(h, n). rret h) (bs @ rest) = Inr (h, rest)"
    by (simp add: ReadUdpHeader_eq rbind_def)
qed

lemma BuildUdpPacket_AppendTo:
  assumes "AppendTo a [] = Inr bs"
  shows "BuildUdpPacket f a payload = [0, 0, f] @ bs @ payload"
  using assms by (auto simp: BuildUdpPacket_def AppendTo_def split: option.splits if_splits)

section \<open>Properties\<close>

text \<open>
  C32. The address format is canonical and self-delimiting: \<open>ReadAddress\<close> succeeds on exactly the
  encodings \<open>AppendTo\<close> produces for well-formed addresses, followed by anything, and returns that
  address and what follows it.
\<close>

theorem ReadAddress_iff_AppendTo:
  "ReadAddress s = Inr (a, rest) \<longleftrightarrow> wf_address a \<and> (\<exists>bs. AppendTo a [] = Inr bs \<and> s = bs @ rest)"
  by (rule address_codec.dec_iff)

text \<open>
  C33. The slice parser of the packet path computes what the stream reader does: same address, number
  of consumed bytes and error, except that an input that ends between two fields is reported as an
  unexpected end, not as a plain one.
\<close>

theorem ParseUdpHeader_eq_ReadUdpHeader:
  "ParseUdpHeader buf = (case ReadUdpHeader buf of
      Inl e \<Rightarrow> Inl (if e = EOF then UnexpectedEOF else e)
    | Inr ((h, n), rest) \<Rightarrow> Inr (h, n)) \<and>
   (\<forall>h n rest. ReadUdpHeader buf = Inr ((h, n), rest) \<longrightarrow> rest = drop n buf \<and> n \<le> length buf)"
proof (cases "length buf < 3")
  case True
  then show ?thesis by (auto simp: ParseUdpHeader_def ReadUdpHeader_def rbind_def ReadFull_def)
next
  case False
  then obtain r0 r1 f s where buf: "buf = r0 # r1 # f # s"
    by (auto simp: numeral_eq_Suc not_less Suc_le_length_iff)
  have len: "length s = Address_Len a + length rest \<and> rest = drop (Address_Len a) s"
    if "ReadAddress s = Inr (a, rest)" for a rest
    using address_codec.enc_dec [OF that] AppendTo_length [of a "[]"] by auto
  show ?thesis
    by (auto simp: buf ParseUdpHeader_def ReadUdpHeader_eq ParseAddress_ReadAddress dest!: len
        split: sum.splits)
qed

theorem ParseUdpHeader_eq_ReadUdpHeader_witness:
  "ParseUdpHeader [0, 0, 7, 1, 10, 0, 0, 1, 0, 53, 99] =
     Inr (\<lparr>uFrag = 7, uAddress = SocketAddress (AddrPortFrom (V4 0x0a000001) 53)\<rparr>, 10)"
proof -
  have "ReadUdpHeader [0, 0, 7, 1, 10, 0, 0, 1, 0, 53, 99] =
    Inr ((\<lparr>uFrag = 7, uAddress = SocketAddress (AddrPortFrom (V4 0x0a000001) 53)\<rparr>, 10), [99])"
    by code_simp
  with ParseUdpHeader_eq_ReadUdpHeader [of "[0, 0, 7, 1, 10, 0, 0, 1, 0, 53, 99]"] show ?thesis by simp
qed

text \<open>
  Serialization succeeds exactly for domains of at most 255 bytes and then has the length \<open>Len\<close>
  announces, which is within \<open>MaxSerializedLen\<close>; the buffer given is only extended.
\<close>

theorem AppendTo_outcome:
  "case AppendTo a b of
     Inl e \<Rightarrow> aSocket a = None \<and> 255 < length (aDomain a) \<and> e = DomainTooLong (length (aDomain a))
   | Inr bs \<Rightarrow> take (length b) bs = b \<and> length bs = length b + Address_Len a \<and>
       Address_Len a \<le> MaxSerializedLen"
  by (auto simp: AppendTo_def Address_Len_def MaxSerializedLen_def split: option.splits)

text \<open>
  A request that is written by \<open>MarshalTo\<close> is read back unchanged by \<open>ReadRequest\<close>, which consumes
  exactly its bytes; a pipelined sequence of requests is read back in order.
\<close>

theorem request_roundtrip:
  assumes "list_all (\<lambda>r. wf_address (rAddress r)) rs" "encode_all (marshalled Request_MarshalTo) rs = Inr bs"
  shows "read_many ReadRequest (length rs) (bs @ rest) = Inr (rs, rest)"
  using assms by (rule request_codec.read_many_encode_all)

theorem request_roundtrip_witness:
  "read_many ReadRequest 1 ([5, 1, 0, 3, 2, 104, 105, 0, 80] @ [255]) =
     Inr ([\<lparr>rCommand = CmdConnect, rAddress = DomainAddress [104, 105] 80\<rparr>], [255])"
proof -
  have "encode_all (marshalled Request_MarshalTo)
      [\<lparr>rCommand = CmdConnect, rAddress = DomainAddress [104, 105] 80\<rparr>] = Inr [5, 1, 0, 3, 2, 104, 105, 0, 80]"
    by code_simp
  with request_roundtrip [of "[\<lparr>rCommand = CmdConnect, rAddress = DomainAddress [104, 105] 80\<rparr>]" _ "[255]"]
  show ?thesis by simp
qed

text \<open>
  A relay packet built for a well-formed address is parsed back into the fragment number and the
  address, and the payload starts where the parsed header ends.
\<close>

theorem udp_packet_roundtrip:
  assumes "wf_address a"
  shows "\<exists>n. ParseUdpHeader (BuildUdpPacket f a payload) = Inr (\<lparr>uFrag = f, uAddress = a\<rparr>, n) \<and>
    drop n (BuildUdpPacket f a payload) = payload \<and> n \<le> UdpHeaderMaxLen"
proof -
  obtain bs where bs: "AppendTo a [] = Inr bs" using assms address_codec.enc_total by blast
  have "length bs \<le> MaxSerializedLen"
    using bs assms by (auto simp: AppendTo_def MaxSerializedLen_def split: option.splits if_splits)
  then show ?thesis
    using address_codec.dec_enc [OF assms bs, of payload]
    by (simp add: BuildUdpPacket_AppendTo [OF bs] ParseUdpHeader_def ParseAddress_ReadAddress
        UdpHeaderMaxLen_def)
qed

theorem udp_packet_roundtrip_witness:
  "\<exists>n. ParseUdpHeader (BuildUdpPacket 2 (DomainAddress [97, 98] 443) [1, 2]) =
      Inr (\<lparr>uFrag = 2, uAddress = DomainAddress [97, 98] 443\<rparr>, n) \<and>
    drop n (BuildUdpPacket 2 (DomainAddress [97, 98] 443) [1, 2]) = [1, 2] \<and> n \<le> UdpHeaderMaxLen"
  by (rule udp_packet_roundtrip) simp

end
