(* ===== verification/UdpRuntime.thy ===== *)
theory UdpRuntime
  imports Dial Proto
begin

text \<open>
  Model of \<open>internal/server/socks/udp_runtime.go\<close>: the state the UDP associations of a server share (limits,
  packet buffers, counters, send queues) and its operations. The send workers and the associations run
  concurrently; \<open>rt_step\<close> gives the steps they take on the shared state.
\<close>

section \<open>Definitions\<close>

subsection \<open>Packets and jobs\<close>

text \<open>
  A packet buffer comes from a pool and goes back to it. Next to its content a buffer has an identity,
  so that a buffer returned twice or never is visible.
\<close>

type_synonym buf_id = nat

record inboundPacket =
  ip_payload :: "byte list"
  ip_buffer :: buf_id
  ip_frag :: byte
  ip_dst :: Address
  ip_src :: addr_port
  ip_batchSlot :: bool

text \<open>
  A job names its association; context, connector, sockets and error channel are those of the
  association.
\<close>

record udpSendJob =
  sj_associationID :: u64
  sj_packet :: inboundPacket
  sj_target :: TargetAddr

subsection \<open>Metrics and state\<close>

record udpMetrics =
  activeAssociations :: u64
  totalAssociations :: u64
  inPackets :: u64
  inBytes :: u64
  outPackets :: u64
  outBytes :: u64
  queueDrops :: u64
  truncatedDrops :: u64
  malformedDrops :: u64
  fragmentDrops :: u64
  unauthorizedDrops :: u64
  associationDrops :: u64
  metric_errors :: u64
  queueDepth :: u64
  batchFallbacks :: u64
  groCoalescedReads :: u64
  groTruncatedReads :: u64

definition zero_metrics :: udpMetrics where
  "zero_metrics = \<lparr>activeAssociations = 0, totalAssociations = 0, inPackets = 0, inBytes = 0, outPackets = 0,
     outBytes = 0, queueDrops = 0, truncatedDrops = 0, malformedDrops = 0, fragmentDrops = 0,
     unauthorizedDrops = 0, associationDrops = 0, metric_errors = 0, queueDepth = 0, batchFallbacks = 0,
     groCoalescedReads = 0, groTruncatedReads = 0\<rparr>"

text \<open>
  A worker receives from its shard's channel, runs a job, drains its channel once the server's lifetime
  has ended, and exits. \<open>sh_taken\<close> lists the jobs received so far.
\<close>

datatype worker = WIdle | WBusy udpSendJob | WDraining | WExited

record shard =
  sh_cap :: nat
  sh_queue :: "udpSendJob list"
  sh_worker :: worker
  sh_taken :: "udpSendJob list"

text \<open>\<open>rt_shards\<close> is empty until the dispatcher has started; \<open>rt_puts\<close> lists the buffers put into the pool.\<close>

record udpRuntime =
  rt_config :: UDPConfig
  rt_metrics :: udpMetrics
  rt_shards :: "shard list"
  rt_sequence :: u64
  rt_associationSlots :: chan
  rt_batchSlots :: "chan option"
  rt_puts :: "buf_id list"

definition normalizeUDPConfig :: "UDPConfig \<Rightarrow> UDPConfig" where
  "normalizeUDPConfig cfg =
     (let cfg = (if uc_MaxPacketSize cfg = 0 then cfg\<lparr>uc_MaxPacketSize := 65507\<rparr> else cfg);
          cfg = (if uc_BatchSize cfg = 0 then cfg\<lparr>uc_BatchSize := 32\<rparr> else cfg)
      in if uc_SendQueueSize cfg = 0 then cfg\<lparr>uc_SendQueueSize := 4096\<rparr> else cfg)"

definition newUDPRuntime :: "UDPConfig \<Rightarrow> u32 \<Rightarrow> udpRuntime" where
  "newUDPRuntime cfg concurrent =
     (let cfg = normalizeUDPConfig cfg;
          maxAssociations = (if uc_MaxAssociations cfg = 0 then concurrent else uc_MaxAssociations cfg)
      in \<lparr>rt_config = cfg, rt_metrics = zero_metrics, rt_shards = [], rt_sequence = 0,
          rt_associationSlots = chan_make (unat maxAssociations),
          rt_batchSlots = (if uc_BatchBufferBudget cfg > 0 then Some (chan_make (nat (uc_BatchBufferBudget cfg))) else None),
          rt_puts = []\<rparr>)"

text \<open>The length of every pooled buffer, and the number of reactor workers.\<close>

definition protoUDPHeaderMaxLen :: nat where
  "protoUDPHeaderMaxLen = 3 + 1 + 1 + 255 + 2"

definition buffer_len :: "udpRuntime \<Rightarrow> nat" where
  "buffer_len r = nat (uc_MaxPacketSize (rt_config r)) + protoUDPHeaderMaxLen"

definition reactor_workers :: "int \<Rightarrow> int" where
  "reactor_workers gomaxprocs =
     (let workers = (if gomaxprocs < 2 then 2 else gomaxprocs) in if workers > 16 then 16 else workers)"

subsection \<open>Buffers and limits\<close>

definition putBuffer :: "buf_id \<Rightarrow> udpRuntime \<Rightarrow> udpRuntime" where
  "putBuffer b r = r\<lparr>rt_puts := b # rt_puts r\<rparr>"

definition tryAcquireBatchBuffer :: "udpRuntime \<Rightarrow> udpRuntime option" where
  "tryAcquireBatchBuffer r = (case rt_batchSlots r of
      None \<Rightarrow> None
    | Some ch \<Rightarrow> (case chan_try_send ch of None \<Rightarrow> None | Some ch' \<Rightarrow> Some (r\<lparr>rt_batchSlots := Some ch'\<rparr>)))"

text \<open>
  \<open>releaseBuffer\<close> receives from \<open>batchSlots\<close>; on an empty or a nil channel that blocks for ever, which is \<open>None\<close>.
\<close>

definition releaseBuffer :: "buf_id \<Rightarrow> bool \<Rightarrow> udpRuntime \<Rightarrow> udpRuntime option" where
  "releaseBuffer b batchSlot r =
     (if batchSlot then (case Option.bind (rt_batchSlots r) chan_recv of
          None \<Rightarrow> None
        | Some ch \<Rightarrow> Some (putBuffer b (r\<lparr>rt_batchSlots := Some ch\<rparr>)))
      else Some (putBuffer b r))"

definition releaseInboundPacket :: "inboundPacket \<Rightarrow> udpRuntime \<Rightarrow> udpRuntime option" where
  "releaseInboundPacket p r = releaseBuffer (ip_buffer p) (ip_batchSlot p) r"

text \<open>
  \<open>beginAssociation\<close>: \<open>err1\<close> and \<open>err2\<close> are the two observations of the lifetime's end.
\<close>

definition beginAssociation :: "bool \<Rightarrow> bool \<Rightarrow> udpRuntime \<Rightarrow> u64 option \<times> udpRuntime" where
  "beginAssociation err1 err2 r =
     (if err1 then (None, r)
      else case chan_try_send (rt_associationSlots r) of
          None \<Rightarrow> (None, r\<lparr>rt_metrics := (rt_metrics r)\<lparr>associationDrops := associationDrops (rt_metrics r) + 1\<rparr>\<rparr>)
        | Some ch \<Rightarrow>
            if err2 then (None, r\<lparr>rt_associationSlots := ch\<lparr>ch_len := ch_len ch - 1\<rparr>\<rparr>)
            else (Some (rt_sequence r + 1),
                  r\<lparr>rt_associationSlots := ch, rt_sequence := rt_sequence r + 1,
                    rt_metrics := (rt_metrics r)
                      \<lparr>activeAssociations := activeAssociations (rt_metrics r) + 1,
                       totalAssociations := totalAssociations (rt_metrics r) + 1\<rparr>\<rparr>))"

definition endAssociation :: "udpRuntime \<Rightarrow> udpRuntime option" where
  "endAssociation r = (case chan_recv (rt_associationSlots r) of
      None \<Rightarrow> None
    | Some ch \<Rightarrow> Some (r\<lparr>rt_associationSlots := ch,
        rt_metrics := (rt_metrics r)\<lparr>activeAssociations := activeAssociations (rt_metrics r) - 1\<rparr>\<rparr>))"

subsection \<open>The dispatcher\<close>

definition send_workers :: "int \<Rightarrow> UDPConfig \<Rightarrow> int" where
  "send_workers gomaxprocs cfg =
     (let workers = (if uc_SendWorkers cfg = 0
            then (let w = gomaxprocs * 2; w = (if w < 4 then 4 else w) in if w > 64 then 64 else w)
            else uc_SendWorkers cfg)
      in if workers > uc_SendQueueSize cfg then uc_SendQueueSize cfg else workers)"

definition startDispatcher :: "int \<Rightarrow> udpRuntime \<Rightarrow> udpRuntime" where
  "startDispatcher gomaxprocs r =
     (let workers = nat (send_workers gomaxprocs (rt_config r));
          size = nat (uc_SendQueueSize (rt_config r));
          queuePerShard = size div workers;
          extraQueueSlots = size mod workers
      in r\<lparr>rt_shards := map (\<lambda>index. \<lparr>sh_cap = (if index < extraQueueSlots then queuePerShard + 1 else queuePerShard),
             sh_queue = [], sh_worker = WIdle, sh_taken = []\<rparr>) [0..<workers]\<rparr>)"

definition shard_of :: "udpRuntime \<Rightarrow> u64 \<Rightarrow> nat" where
  "shard_of r aid = unat aid mod length (rt_shards r)"

definition dispatch :: "int \<Rightarrow> bool \<Rightarrow> udpSendJob \<Rightarrow> udpRuntime \<Rightarrow> bool \<times> udpRuntime" where
  "dispatch gomaxprocs lifetimeErr job r =
     (if lifetimeErr then (False, r)
      else let r = (if rt_shards r = [] then startDispatcher gomaxprocs r else r);
               i = shard_of r (sj_associationID job);
               sh = rt_shards r ! i
           in if length (sh_queue sh) < sh_cap sh
              then (True, r\<lparr>rt_shards := (rt_shards r)[i := sh\<lparr>sh_queue := sh_queue sh @ [job]\<rparr>],
                     rt_metrics := (rt_metrics r)\<lparr>queueDepth := queueDepth (rt_metrics r) + 1\<rparr>\<rparr>)
              else (False, r\<lparr>rt_metrics := (rt_metrics r)\<lparr>queueDrops := queueDrops (rt_metrics r) + 1\<rparr>\<rparr>))"

text \<open>
  \<open>reportUDPError\<close> sends without blocking on a channel of capacity 4; \<open>runSendJob\<close> is given what the job's
  context says and what \<open>SendPacket\<close> returns.
\<close>

definition reportUDPError :: "go_error list \<Rightarrow> go_error \<Rightarrow> go_error list" where
  "reportUDPError errCh e = (if length errCh < 4 then errCh @ [e] else errCh)"

definition runSendJob ::
    "go_error option \<Rightarrow> nat res \<Rightarrow> udpSendJob \<Rightarrow> go_error list \<Rightarrow> udpRuntime \<Rightarrow> (udpRuntime \<times> go_error list) option" where
  "runSendJob ctxErr sent job errCh r =
     (let r = r\<lparr>rt_metrics := (rt_metrics r)\<lparr>queueDepth := queueDepth (rt_metrics r) - 1\<rparr>\<rparr>;
          (r, errCh) = (case (ctxErr, sent) of
              (None, Inl e) \<Rightarrow> (r\<lparr>rt_metrics := (rt_metrics r)\<lparr>metric_errors := metric_errors (rt_metrics r) + 1\<rparr>\<rparr>, reportUDPError errCh e)
            | _ \<Rightarrow> (r, errCh))
      in map_option (\<lambda>r. (r, errCh)) (releaseInboundPacket (sj_packet job) r))"

text \<open>One round of the drain loop of an ending worker, on the job it received.\<close>

definition drainJob :: "udpSendJob \<Rightarrow> udpRuntime \<Rightarrow> udpRuntime option" where
  "drainJob job r = releaseInboundPacket (sj_packet job)
     (r\<lparr>rt_metrics := (rt_metrics r)\<lparr>queueDepth := queueDepth (rt_metrics r) - 1\<rparr>\<rparr>)"

subsection \<open>Steps on the shared state\<close>

text \<open>
  Next to the runtime the state has the end of the lifetime, the error channels of the associations, the
  number of batch slots held by reads in progress, and the jobs \<open>dispatch\<close> accepted, in order.
\<close>

record rt_system =
  rs_rt :: udpRuntime
  rs_done :: bool
  rs_errCh :: "u64 \<Rightarrow> go_error list"
  rs_held :: nat
  rs_accepted :: "udpSendJob list"

datatype rt_event =
    EvBegin bool
  | EvEnd
  | EvTryBatch
  | EvRelease inboundPacket
  | EvDispatch bool udpSendJob
  | EvRecv nat
  | EvRun nat "go_error option" "nat res"
  | EvStartDrain nat
  | EvDrain nat
  | EvExit nat
  | EvCancel

definition slot :: "inboundPacket \<Rightarrow> nat" where
  "slot p = (if ip_batchSlot p then 1 else 0)"

definition upd_shard :: "nat \<Rightarrow> shard \<Rightarrow> udpRuntime \<Rightarrow> udpRuntime" where
  "upd_shard i sh r = r\<lparr>rt_shards := (rt_shards r)[i := sh]\<rparr>"

definition worker_step :: "rt_event \<Rightarrow> rt_system \<Rightarrow> nat \<Rightarrow> rt_system option" where
  "worker_step ev s i =
     (let r = rs_rt s; sh = rt_shards r ! i in
      if length (rt_shards r) \<le> i then None
      else case (ev, sh_worker sh, sh_queue sh) of
        (EvRecv _, WIdle, j # q) \<Rightarrow>
          Some (s\<lparr>rs_rt := upd_shard i (sh\<lparr>sh_queue := q, sh_worker := WBusy j, sh_taken := sh_taken sh @ [j]\<rparr>) r\<rparr>)
      | (EvRun _ ctxErr sent, WBusy j, _) \<Rightarrow>
          (case runSendJob ctxErr sent j (rs_errCh s (sj_associationID j)) (upd_shard i (sh\<lparr>sh_worker := WIdle\<rparr>) r) of
             None \<Rightarrow> None
           | Some (r', errCh) \<Rightarrow> Some (s\<lparr>rs_rt := r', rs_errCh := (rs_errCh s)(sj_associationID j := errCh)\<rparr>))
      | (EvStartDrain _, WIdle, _) \<Rightarrow>
          if rs_done s then Some (s\<lparr>rs_rt := upd_shard i (sh\<lparr>sh_worker := WDraining\<rparr>) r\<rparr>) else None
      | (EvDrain _, WDraining, j # q) \<Rightarrow>
          map_option (\<lambda>r'. s\<lparr>rs_rt := r'\<rparr>)
            (drainJob j (upd_shard i (sh\<lparr>sh_queue := q, sh_taken := sh_taken sh @ [j]\<rparr>) r))
      | (EvExit _, WDraining, []) \<Rightarrow> Some (s\<lparr>rs_rt := upd_shard i (sh\<lparr>sh_worker := WExited\<rparr>) r\<rparr>)
      | _ \<Rightarrow> None)"

definition rt_step :: "int \<Rightarrow> rt_event \<Rightarrow> rt_system \<Rightarrow> rt_system option" where
  "rt_step gomaxprocs ev s = (case ev of
      EvBegin err2 \<Rightarrow> (case beginAssociation (rs_done s) err2 (rs_rt s) of
          (_, r) \<Rightarrow> Some (s\<lparr>rs_rt := r, rs_done := rs_done s \<or> err2\<rparr>))
    | EvEnd \<Rightarrow> map_option (\<lambda>r. s\<lparr>rs_rt := r\<rparr>) (endAssociation (rs_rt s))
    | EvTryBatch \<Rightarrow> map_option (\<lambda>r. s\<lparr>rs_rt := r, rs_held := Suc (rs_held s)\<rparr>) (tryAcquireBatchBuffer (rs_rt s))
    | EvRelease p \<Rightarrow> if slot p \<le> rs_held s
        then map_option (\<lambda>r. s\<lparr>rs_rt := r, rs_held := rs_held s - slot p\<rparr>) (releaseInboundPacket p (rs_rt s)) else None
    | EvDispatch err job \<Rightarrow> if (err \<longrightarrow> rs_done s) \<and> slot (sj_packet job) \<le> rs_held s
        then (case dispatch gomaxprocs err job (rs_rt s) of
            (True, r) \<Rightarrow> Some (s\<lparr>rs_rt := r, rs_held := rs_held s - slot (sj_packet job), rs_accepted := rs_accepted s @ [job]\<rparr>)
          | (False, r) \<Rightarrow> Some (s\<lparr>rs_rt := r\<rparr>))
        else None
    | EvCancel \<Rightarrow> Some (s\<lparr>rs_done := True\<rparr>)
    | EvRecv i \<Rightarrow> worker_step ev s i
    | EvRun i _ _ \<Rightarrow> worker_step ev s i
    | EvStartDrain i \<Rightarrow> worker_step ev s i
    | EvDrain i \<Rightarrow> worker_step ev s i
    | EvExit i \<Rightarrow> worker_step ev s i)"

definition rt_init :: "UDPConfig \<Rightarrow> u32 \<Rightarrow> rt_system" where
  "rt_init cfg concurrent = \<lparr>rs_rt = newUDPRuntime cfg concurrent, rs_done = False, rs_errCh = (\<lambda>_. []),
     rs_held = 0, rs_accepted = []\<rparr>"

fun rt_run :: "int \<Rightarrow> rt_system \<Rightarrow> rt_event list \<Rightarrow> rt_system option" where
  "rt_run g s [] = Some s"
| "rt_run g s (e # es) = (case rt_step g e s of None \<Rightarrow> None | Some s' \<Rightarrow> rt_run g s' es)"

section \<open>Capacities\<close>

definition udp_ok :: "int \<Rightarrow> UDPConfig \<Rightarrow> bool" where
  "udp_ok g cfg \<longleftrightarrow> 1 \<le> g \<and> 0 \<le> uc_SendWorkers cfg \<and> 0 \<le> uc_SendQueueSize cfg"

lemma send_workers_bounds:
  assumes "1 \<le> g" "0 \<le> uc_SendWorkers cfg" "1 \<le> uc_SendQueueSize cfg"
  shows "1 \<le> send_workers g cfg \<and> send_workers g cfg \<le> uc_SendQueueSize cfg"
  using assms by (simp add: send_workers_def Let_def)

lemma sum_shares_min: "(\<Sum>i\<leftarrow>[0..<k]. if i < m then q + 1 else q) = k * q + min k (m::nat)"
  by (induction k) auto

lemma sum_shares:
  assumes "0 < (w::nat)"
  shows "(\<Sum>i\<leftarrow>[0..<w]. if i < n mod w then n div w + 1 else n div w) = n"
  using assms unfolding sum_shares_min by (simp add: min_absorb2 less_imp_le)

lemma startDispatcher_shards:
  assumes "1 \<le> g" "0 \<le> uc_SendWorkers (rt_config r)" "1 \<le> uc_SendQueueSize (rt_config r)"
  shows "sum_list (map sh_cap (rt_shards (startDispatcher g r))) = nat (uc_SendQueueSize (rt_config r))"
    and "length (rt_shards (startDispatcher g r)) = nat (send_workers g (rt_config r))"
    and "0 < nat (send_workers g (rt_config r))"
    and "sh \<in> set (rt_shards (startDispatcher g r)) \<Longrightarrow>
      0 < sh_cap sh \<and> sh_queue sh = [] \<and> sh_worker sh = WIdle \<and> sh_taken sh = []"
proof -
  let ?w = "nat (send_workers g (rt_config r))" and ?n = "nat (uc_SendQueueSize (rt_config r))"
  note b = send_workers_bounds [OF assms]
  then show w: "0 < ?w" by simp
  show "sum_list (map sh_cap (rt_shards (startDispatcher g r))) = ?n"
    using sum_shares [OF w, of ?n] by (simp add: startDispatcher_def Let_def o_def)
  show "length (rt_shards (startDispatcher g r)) = ?w"
    by (simp add: startDispatcher_def Let_def)
  have "0 < ?n div ?w" using b w by (auto simp: div_greater_zero_iff nat_mono)
  then show "sh \<in> set (rt_shards (startDispatcher g r)) \<Longrightarrow>
      0 < sh_cap sh \<and> sh_queue sh = [] \<and> sh_worker sh = WIdle \<and> sh_taken sh = []"
    by (auto simp: startDispatcher_def Let_def)
qed

section \<open>Invariants of the shared state\<close>

text \<open>The jobs a shard holds, those being run included, and the batch slots they hold.\<close>

definition jobs_of :: "shard \<Rightarrow> udpSendJob list" where
  "jobs_of sh = (case sh_worker sh of WBusy j \<Rightarrow> [j] | _ \<Rightarrow> []) @ sh_queue sh"

definition slots_of :: "shard \<Rightarrow> nat" where
  "slots_of sh = sum_list (map (slot \<circ> sj_packet) (jobs_of sh))"

definition slots_used :: "udpRuntime \<Rightarrow> nat" where
  "slots_used r = (case rt_batchSlots r of None \<Rightarrow> 0 | Some ch \<Rightarrow> ch_len ch)"

definition shard_total :: "(shard \<Rightarrow> nat) \<Rightarrow> udpRuntime \<Rightarrow> nat" where
  "shard_total f r = sum_list (map f (rt_shards r))"

text \<open>What a worker's step changes: its own shard, the queue depth, the batch slots.\<close>

definition same_assoc :: "udpRuntime \<Rightarrow> udpRuntime \<Rightarrow> bool" where
  "same_assoc r r' \<longleftrightarrow> rt_config r' = rt_config r \<and> rt_associationSlots r' = rt_associationSlots r \<and>
     rt_sequence r' = rt_sequence r \<and> activeAssociations (rt_metrics r') = activeAssociations (rt_metrics r) \<and>
     totalAssociations (rt_metrics r') = totalAssociations (rt_metrics r)"

definition shard_effect :: "shard \<Rightarrow> shard \<Rightarrow> nat \<Rightarrow> nat \<Rightarrow> bool" where
  "shard_effect sh sh' k m \<longleftrightarrow> length (jobs_of sh) = length (jobs_of sh') + k \<and> slots_of sh = slots_of sh' + m \<and>
     sh_taken sh' @ sh_queue sh' = sh_taken sh @ sh_queue sh \<and> sh_cap sh' = sh_cap sh \<and>
     length (sh_queue sh') \<le> length (sh_queue sh)"

lemma releaseBuffer_effect:
  assumes "releaseBuffer b f r = Some r'"
  shows "same_assoc r r' \<and> rt_shards r' = rt_shards r \<and> rt_metrics r' = rt_metrics r \<and>
    slots_used r = slots_used r' + (if f then 1 else 0) \<and> rt_puts r' = b # rt_puts r \<and>
    map_option ch_cap (rt_batchSlots r') = map_option ch_cap (rt_batchSlots r)"
  using assms
  by (cases "rt_batchSlots r")
     (auto simp: releaseBuffer_def putBuffer_def same_assoc_def slots_used_def chan_recv_def split: if_splits)

lemma releaseBuffer_enabled: "(if f then 1 else 0) \<le> slots_used r \<Longrightarrow> releaseBuffer b f r \<noteq> None"
  by (auto simp: releaseBuffer_def slots_used_def chan_recv_def split: option.splits if_splits)

lemma releaseInboundPacket_effect:
  assumes "releaseInboundPacket p r = Some r'"
  shows "same_assoc r r' \<and> rt_shards r' = rt_shards r \<and> rt_metrics r' = rt_metrics r \<and>
    slots_used r = slots_used r' + slot p \<and> rt_puts r' = ip_buffer p # rt_puts r \<and>
    map_option ch_cap (rt_batchSlots r') = map_option ch_cap (rt_batchSlots r)"
  using releaseBuffer_effect assms unfolding releaseInboundPacket_def slot_def .

lemma runSendJob_effect:
  assumes "runSendJob ctxErr sent j errCh r = Some (r', errCh')"
  shows "same_assoc r r' \<and> rt_shards r' = rt_shards r \<and> queueDepth (rt_metrics r') = queueDepth (rt_metrics r) - 1 \<and>
    slots_used r = slots_used r' + slot (sj_packet j) \<and> rt_puts r' = ip_buffer (sj_packet j) # rt_puts r \<and>
    map_option ch_cap (rt_batchSlots r') = map_option ch_cap (rt_batchSlots r)"
proof -
  obtain r1 where "releaseInboundPacket (sj_packet j) r1 = Some r'" "same_assoc r r1" "rt_shards r1 = rt_shards r"
    "queueDepth (rt_metrics r1) = queueDepth (rt_metrics r) - 1" "rt_batchSlots r1 = rt_batchSlots r" "rt_puts r1 = rt_puts r"
    using assms
    by (auto simp: runSendJob_def Let_def same_assoc_def split: option.splits sum.splits)
  then show ?thesis using releaseInboundPacket_effect [of "sj_packet j" r1 r']
    by (simp add: same_assoc_def slots_used_def)
qed

lemma worker_step_effect:
  assumes "worker_step ev s i = Some s'"
  shows "\<exists>sh' k m. i < length (rt_shards (rs_rt s)) \<and> shard_effect (rt_shards (rs_rt s) ! i) sh' k m \<and>
    rt_shards (rs_rt s') = (rt_shards (rs_rt s))[i := sh'] \<and> same_assoc (rs_rt s) (rs_rt s') \<and>
    queueDepth (rt_metrics (rs_rt s')) = queueDepth (rt_metrics (rs_rt s)) - of_nat k \<and>
    slots_used (rs_rt s) = slots_used (rs_rt s') + m \<and>
    map_option ch_cap (rt_batchSlots (rs_rt s')) = map_option ch_cap (rt_batchSlots (rs_rt s)) \<and>
    rs_held s' = rs_held s \<and> rs_accepted s' = rs_accepted s"
proof -
  let ?sh = "rt_shards (rs_rt s) ! i"
  have i: "i < length (rt_shards (rs_rt s))" using assms by (auto simp: worker_step_def Let_def split: if_splits)
  note ed = shard_effect_def jobs_of_def slots_of_def same_assoc_def slots_used_def
  show ?thesis
  proof (cases ev)
    case (EvRecv x)
    with assms obtain j q where "sh_worker ?sh = WIdle" "sh_queue ?sh = j # q"
      "s' = s\<lparr>rs_rt := upd_shard i (?sh\<lparr>sh_queue := q, sh_worker := WBusy j, sh_taken := sh_taken ?sh @ [j]\<rparr>) (rs_rt s)\<rparr>"
      by (auto simp: worker_step_def Let_def split: if_splits worker.splits list.splits)
    with i show ?thesis
      by (intro exI [of _ "?sh\<lparr>sh_queue := q, sh_worker := WBusy j, sh_taken := sh_taken ?sh @ [j]\<rparr>"] exI [of _ 0])
         (simp add: upd_shard_def ed)
  next
    case (EvRun x ctxErr sent)
    with assms obtain j r' errCh where w: "sh_worker ?sh = WBusy j"
      and r': "runSendJob ctxErr sent j (rs_errCh s (sj_associationID j)) (upd_shard i (?sh\<lparr>sh_worker := WIdle\<rparr>) (rs_rt s)) = Some (r', errCh)"
      and s': "s' = s\<lparr>rs_rt := r', rs_errCh := (rs_errCh s)(sj_associationID j := errCh)\<rparr>"
      by (auto simp: worker_step_def Let_def split: if_splits worker.splits option.splits)
    show ?thesis using i w s' runSendJob_effect [OF r']
      by (intro exI [of _ "?sh\<lparr>sh_worker := WIdle\<rparr>"] exI [of _ 1] exI [of _ "slot (sj_packet j)"])
         (simp add: upd_shard_def ed)
  next
    case (EvDrain x)
    with assms obtain j q r' where w: "sh_worker ?sh = WDraining" "sh_queue ?sh = j # q"
      and r': "drainJob j (upd_shard i (?sh\<lparr>sh_queue := q, sh_taken := sh_taken ?sh @ [j]\<rparr>) (rs_rt s)) = Some r'"
      and s': "s' = s\<lparr>rs_rt := r'\<rparr>"
      by (auto simp: worker_step_def Let_def split: if_splits worker.splits list.splits)
    show ?thesis using i w s' releaseInboundPacket_effect [OF r' [unfolded drainJob_def]]
      by (intro exI [of _ "?sh\<lparr>sh_queue := q, sh_taken := sh_taken ?sh @ [j]\<rparr>"] exI [of _ 1] exI [of _ "slot (sj_packet j)"])
         (simp add: upd_shard_def ed)
  next
    case (EvStartDrain x)
    with assms have "sh_worker ?sh = WIdle" "s' = s\<lparr>rs_rt := upd_shard i (?sh\<lparr>sh_worker := WDraining\<rparr>) (rs_rt s)\<rparr>"
      by (auto simp: worker_step_def Let_def split: if_splits worker.splits)
    with i show ?thesis
      by (intro exI [of _ "?sh\<lparr>sh_worker := WDraining\<rparr>"] exI [of _ 0]) (simp add: upd_shard_def ed)
  next
    case (EvExit x)
    with assms have "sh_worker ?sh = WDraining" "s' = s\<lparr>rs_rt := upd_shard i (?sh\<lparr>sh_worker := WExited\<rparr>) (rs_rt s)\<rparr>"
      by (auto simp: worker_step_def Let_def split: if_splits worker.splits list.splits)
    with i show ?thesis
      by (intro exI [of _ "?sh\<lparr>sh_worker := WExited\<rparr>"] exI [of _ 0]) (simp add: upd_shard_def ed)
  qed (use assms in \<open>auto simp: worker_step_def Let_def split: if_splits\<close>)
qed

definition assoc_ok :: "udpRuntime \<Rightarrow> bool" where
  "assoc_ok r \<longleftrightarrow> chan_wf (rt_associationSlots r) \<and>
     activeAssociations (rt_metrics r) = of_nat (ch_len (rt_associationSlots r)) \<and>
     totalAssociations (rt_metrics r) = rt_sequence r"

definition batch_wf :: "udpRuntime \<Rightarrow> bool" where
  "batch_wf r \<longleftrightarrow> (case rt_batchSlots r of None \<Rightarrow> True | Some ch \<Rightarrow> chan_wf ch)"

definition job_shard_ok :: "udpSendJob list \<Rightarrow> nat \<Rightarrow> nat \<Rightarrow> shard \<Rightarrow> bool" where
  "job_shard_ok acc n i sh \<longleftrightarrow> length (sh_queue sh) \<le> sh_cap sh \<and>
     filter (\<lambda>j. unat (sj_associationID j) mod n = i) acc = sh_taken sh @ sh_queue sh"

definition queue_ok :: "rt_system \<Rightarrow> bool" where
  "queue_ok s \<longleftrightarrow>
     queueDepth (rt_metrics (rs_rt s)) = of_nat (shard_total (length \<circ> jobs_of) (rs_rt s)) \<and>
     slots_used (rs_rt s) = rs_held s + shard_total slots_of (rs_rt s) \<and> batch_wf (rs_rt s) \<and>
     (\<forall>i < length (rt_shards (rs_rt s)).
        job_shard_ok (rs_accepted s) (length (rt_shards (rs_rt s))) i (rt_shards (rs_rt s) ! i)) \<and>
     (rt_shards (rs_rt s) = [] \<longrightarrow> rs_accepted s = []) \<and>
     (rt_shards (rs_rt s) \<noteq> [] \<longrightarrow> shard_total sh_cap (rs_rt s) = nat (uc_SendQueueSize (rt_config (rs_rt s))))"

lemma batch_wf_mono:
  assumes "batch_wf r" "map_option ch_cap (rt_batchSlots r') = map_option ch_cap (rt_batchSlots r)" "slots_used r' \<le> slots_used r"
  shows "batch_wf r'"
  using assms by (auto simp: batch_wf_def slots_used_def chan_wf_def split: option.splits)

lemma of_nat_diff_add: "a + k = b \<Longrightarrow> of_nat b - of_nat k = (of_nat a :: u64)"
  by (metis add_diff_cancel_right' of_nat_add)

lemma worker_queue_ok:
  assumes q: "queue_ok s" and st: "worker_step ev s i = Some s'"
  shows "queue_ok s'"
proof -
  obtain sh' k m where i: "i < length (rt_shards (rs_rt s))" and e: "shard_effect (rt_shards (rs_rt s) ! i) sh' k m"
    and sh: "rt_shards (rs_rt s') = (rt_shards (rs_rt s))[i := sh']"
    and a: "same_assoc (rs_rt s) (rs_rt s')"
    and d: "queueDepth (rt_metrics (rs_rt s')) = queueDepth (rt_metrics (rs_rt s)) - of_nat k"
    and u: "slots_used (rs_rt s) = slots_used (rs_rt s') + m"
    and c: "map_option ch_cap (rt_batchSlots (rs_rt s')) = map_option ch_cap (rt_batchSlots (rs_rt s))"
    and h: "rs_held s' = rs_held s" "rs_accepted s' = rs_accepted s"
    using worker_step_effect [OF st] by blast
  have tot: "shard_total f (rs_rt s') + f (rt_shards (rs_rt s) ! i) = shard_total f (rs_rt s) + f sh'" for f
    unfolding shard_total_def sh by (rule sum_list_map_update [OF i])
  have "shard_total (length \<circ> jobs_of) (rs_rt s') + k = shard_total (length \<circ> jobs_of) (rs_rt s)"
    using tot [of "length \<circ> jobs_of"] e by (simp add: shard_effect_def)
  then have 1: "queueDepth (rt_metrics (rs_rt s')) = of_nat (shard_total (length \<circ> jobs_of) (rs_rt s'))"
    using q d of_nat_diff_add by (simp add: queue_ok_def)
  have 2: "slots_used (rs_rt s') = rs_held s' + shard_total slots_of (rs_rt s')"
    using tot [of slots_of] e q u h by (simp add: shard_effect_def queue_ok_def)
  have 3: "batch_wf (rs_rt s')" using batch_wf_mono [OF _ c] q u by (simp add: queue_ok_def)
  have 4: "job_shard_ok (rs_accepted s) (length (rt_shards (rs_rt s))) l (rt_shards (rs_rt s') ! l)"
    if "l < length (rt_shards (rs_rt s))" for l
    using q e that unfolding sh by (cases "l = i") (auto simp: queue_ok_def job_shard_ok_def shard_effect_def)
  have 5: "shard_total sh_cap (rs_rt s') = shard_total sh_cap (rs_rt s)"
    using tot [of sh_cap] e by (simp add: shard_effect_def)
  show ?thesis using q 1 2 3 4 5 h i a unfolding queue_ok_def by (auto simp: sh same_assoc_def)
qed

lemma start_queue_ok:
  assumes "queue_ok s" "rt_shards (rs_rt s) = []"
    and "1 \<le> g" "0 \<le> uc_SendWorkers (rt_config (rs_rt s))" "1 \<le> uc_SendQueueSize (rt_config (rs_rt s))"
  shows "queue_ok (s\<lparr>rs_rt := startDispatcher g (rs_rt s)\<rparr>)"
proof -
  let ?r = "startDispatcher g (rs_rt s)"
  note st = startDispatcher_shards [OF assms(3-5)]
  have keep: "rt_metrics ?r = rt_metrics (rs_rt s)" "rt_batchSlots ?r = rt_batchSlots (rs_rt s)" "rt_config ?r = rt_config (rs_rt s)"
    by (simp_all add: startDispatcher_def Let_def)
  have "jobs_of sh = []" if "sh \<in> set (rt_shards ?r)" for sh
    using st(4) [OF that] by (simp add: jobs_of_def)
  then have z: "shard_total (length \<circ> jobs_of) ?r = 0" "shard_total slots_of ?r = 0"
    by (simp_all add: shard_total_def slots_of_def)
  have "job_shard_ok [] n i (rt_shards ?r ! i)" if "i < length (rt_shards ?r)" for i n
    using st(4) [of "rt_shards ?r ! i"] that by (simp add: job_shard_ok_def)
  moreover have "shard_total sh_cap ?r = nat (uc_SendQueueSize (rt_config (rs_rt s)))" "shard_total f (rs_rt s) = 0" for f
    using st(1) assms(2) by (simp_all add: shard_total_def)
  ultimately show ?thesis using assms(1,2) z keep
    unfolding queue_ok_def by (simp add: slots_used_def batch_wf_def)
qed

lemma enqueue_queue_ok:
  assumes q: "queue_ok s" and n: "rt_shards (rs_rt s) \<noteq> []" and h: "slot (sj_packet job) \<le> rs_held s"
    and i: "i = shard_of (rs_rt s) (sj_associationID job)"
    and room: "length (sh_queue (rt_shards (rs_rt s) ! i)) < sh_cap (rt_shards (rs_rt s) ! i)"
  shows "queue_ok (s\<lparr>rs_rt := (rs_rt s)\<lparr>
      rt_shards := (rt_shards (rs_rt s))[i := (rt_shards (rs_rt s) ! i)\<lparr>sh_queue := sh_queue (rt_shards (rs_rt s) ! i) @ [job]\<rparr>],
      rt_metrics := (rt_metrics (rs_rt s))\<lparr>queueDepth := queueDepth (rt_metrics (rs_rt s)) + 1\<rparr>\<rparr>,
    rs_held := rs_held s - slot (sj_packet job), rs_accepted := rs_accepted s @ [job]\<rparr>)"
    (is "queue_ok ?s")
proof -
  let ?sh = "rt_shards (rs_rt s) ! i"
  let ?sh' = "?sh\<lparr>sh_queue := sh_queue ?sh @ [job]\<rparr>"
  have il: "i < length (rt_shards (rs_rt s))" using n i by (simp add: shard_of_def)
  have tot: "shard_total f (rs_rt ?s) + f ?sh = shard_total f (rs_rt s) + f ?sh'" for f
    unfolding shard_total_def using sum_list_map_update [OF il, of f ?sh'] by simp
  have 1: "shard_total (length \<circ> jobs_of) (rs_rt ?s) = Suc (shard_total (length \<circ> jobs_of) (rs_rt s))"
    using tot [of "length \<circ> jobs_of"] by (simp add: jobs_of_def)
  have 2: "shard_total slots_of (rs_rt ?s) = shard_total slots_of (rs_rt s) + slot (sj_packet job)"
    using tot [of slots_of] by (simp add: slots_of_def jobs_of_def)
  have 3: "shard_total sh_cap (rs_rt ?s) = shard_total sh_cap (rs_rt s)" using tot [of sh_cap] by simp
  have 4: "job_shard_ok (rs_accepted s @ [job]) (length (rt_shards (rs_rt s))) l ((rt_shards (rs_rt s))[i := ?sh'] ! l)"
    if "l < length (rt_shards (rs_rt s))" for l
    using q that room il i by (cases "l = i") (auto simp: queue_ok_def job_shard_ok_def shard_of_def)
  show ?thesis using q 1 2 3 4 h n unfolding queue_ok_def
    by (simp add: slots_used_def batch_wf_def)
qed

definition cfg_ok :: "UDPConfig \<Rightarrow> bool" where
  "cfg_ok cfg \<longleftrightarrow> 0 \<le> uc_SendWorkers cfg \<and> 1 \<le> uc_SendQueueSize cfg"

definition limits :: "udpRuntime \<Rightarrow> nat \<times> nat option" where
  "limits r = (ch_cap (rt_associationSlots r), map_option ch_cap (rt_batchSlots r))"

definition rt_inv :: "rt_system \<Rightarrow> bool" where
  "rt_inv s \<longleftrightarrow> cfg_ok (rt_config (rs_rt s)) \<and> assoc_ok (rs_rt s) \<and> queue_ok s"

text \<open>Steps that leave shards and accepted jobs alone.\<close>

lemma queue_ok_cong:
  assumes "queue_ok s" "rt_shards (rs_rt s') = rt_shards (rs_rt s)" "rt_config (rs_rt s') = rt_config (rs_rt s)"
    "queueDepth (rt_metrics (rs_rt s')) = queueDepth (rt_metrics (rs_rt s))"
    "slots_used (rs_rt s') + rs_held s = slots_used (rs_rt s) + rs_held s'" "batch_wf (rs_rt s')"
    "rs_accepted s' = rs_accepted s"
  shows "queue_ok s'"
  using assms unfolding queue_ok_def shard_total_def by simp

lemma assoc_ok_cong: "assoc_ok r \<Longrightarrow> same_assoc r r' \<Longrightarrow> assoc_ok r'"
  by (simp add: assoc_ok_def same_assoc_def)

lemma begin_ok:
  assumes "rt_inv s"
  shows "rt_inv (s\<lparr>rs_rt := snd (beginAssociation e1 e2 (rs_rt s)), rs_done := d\<rparr>)"
    and "limits (snd (beginAssociation e1 e2 (rs_rt s))) = limits (rs_rt s)"
proof -
  let ?r = "snd (beginAssociation e1 e2 (rs_rt s))"
  have "assoc_ok ?r" using assms
    by (auto simp: rt_inv_def assoc_ok_def beginAssociation_def chan_try_send_def chan_wf_def split: option.splits if_splits)
  moreover have "rt_shards ?r = rt_shards (rs_rt s)" "rt_config ?r = rt_config (rs_rt s)"
    "queueDepth (rt_metrics ?r) = queueDepth (rt_metrics (rs_rt s))" "rt_batchSlots ?r = rt_batchSlots (rs_rt s)"
    by (auto simp: beginAssociation_def split: option.splits)
  ultimately show "rt_inv (s\<lparr>rs_rt := ?r, rs_done := d\<rparr>)"
    using assms queue_ok_cong [of s "s\<lparr>rs_rt := ?r, rs_done := d\<rparr>"]
    by (simp add: rt_inv_def slots_used_def batch_wf_def queue_ok_def [of s])
  show "limits ?r = limits (rs_rt s)"
    by (auto simp: limits_def beginAssociation_def chan_try_send_def split: option.splits if_splits)
qed

lemma end_ok:
  assumes "rt_inv s" "endAssociation (rs_rt s) = Some r"
  shows "rt_inv (s\<lparr>rs_rt := r\<rparr>) \<and> limits r = limits (rs_rt s)"
proof -
  have "assoc_ok r" using assms
    by (auto simp: rt_inv_def assoc_ok_def endAssociation_def chan_recv_def chan_wf_def of_nat_diff split: option.splits if_splits)
  moreover have "rt_shards r = rt_shards (rs_rt s)" "rt_config r = rt_config (rs_rt s)"
    "queueDepth (rt_metrics r) = queueDepth (rt_metrics (rs_rt s))" "rt_batchSlots r = rt_batchSlots (rs_rt s)"
    "limits r = limits (rs_rt s)"
    using assms(2) by (auto simp: endAssociation_def chan_recv_def limits_def split: option.splits if_splits)
  ultimately show ?thesis
    using assms queue_ok_cong [of s "s\<lparr>rs_rt := r\<rparr>"]
    by (simp add: rt_inv_def slots_used_def batch_wf_def queue_ok_def [of s])
qed

lemma try_batch_ok:
  assumes "rt_inv s" "tryAcquireBatchBuffer (rs_rt s) = Some r"
  shows "rt_inv (s\<lparr>rs_rt := r, rs_held := Suc (rs_held s)\<rparr>) \<and> limits r = limits (rs_rt s)"
proof -
  have "slots_used r = Suc (slots_used (rs_rt s))" "batch_wf r" "limits r = limits (rs_rt s)" "same_assoc (rs_rt s) r"
    "rt_shards r = rt_shards (rs_rt s)" "rt_metrics r = rt_metrics (rs_rt s)"
    using assms by (auto simp: tryAcquireBatchBuffer_def chan_try_send_def slots_used_def batch_wf_def chan_wf_def
      limits_def same_assoc_def split: option.splits if_splits)
  then show ?thesis
    using assms queue_ok_cong [of s "s\<lparr>rs_rt := r, rs_held := Suc (rs_held s)\<rparr>"]
      assoc_ok_cong [of "rs_rt s" r]
    by (simp add: rt_inv_def same_assoc_def)
qed

lemma release_ok:
  assumes "rt_inv s" "releaseInboundPacket p (rs_rt s) = Some r" "slot p \<le> rs_held s"
  shows "rt_inv (s\<lparr>rs_rt := r, rs_held := rs_held s - slot p\<rparr>) \<and> limits r = limits (rs_rt s)"
proof -
  note e = releaseInboundPacket_effect [OF assms(2)]
  then have "batch_wf r" using batch_wf_mono [of "rs_rt s" r] assms(1) by (simp add: rt_inv_def queue_ok_def)
  with e assms queue_ok_cong [of s "s\<lparr>rs_rt := r, rs_held := rs_held s - slot p\<rparr>"] assoc_ok_cong [of "rs_rt s" r]
  show ?thesis by (auto simp: rt_inv_def same_assoc_def limits_def)
qed

lemma dispatch_ok:
  assumes "rt_inv s" "1 \<le> g" "slot (sj_packet job) \<le> rs_held s" "dispatch g err job (rs_rt s) = (ok, r)"
  shows "rt_inv (if ok then s\<lparr>rs_rt := r, rs_held := rs_held s - slot (sj_packet job), rs_accepted := rs_accepted s @ [job]\<rparr>
      else s\<lparr>rs_rt := r\<rparr>) \<and> limits r = limits (rs_rt s)"
proof (cases err)
  case True
  then show ?thesis using assms by (cases s) (auto simp: dispatch_def)
next
  case False
  define r1 where "r1 = (if rt_shards (rs_rt s) = [] then startDispatcher g (rs_rt s) else rs_rt s)"
  let ?s = "s\<lparr>rs_rt := r1\<rparr>"
  have q: "queue_ok ?s" using assms(1,2) start_queue_ok [of s g]
    by (auto simp: r1_def rt_inv_def cfg_ok_def)
  have n: "rt_shards r1 \<noteq> []" using assms(1,2) startDispatcher_shards(2,3) [of g "rs_rt s"]
    by (auto simp: r1_def rt_inv_def cfg_ok_def)
  have k: "same_assoc (rs_rt s) r1" "rt_batchSlots r1 = rt_batchSlots (rs_rt s)"
    by (simp_all add: r1_def startDispatcher_def Let_def same_assoc_def)
  let ?i = "shard_of r1 (sj_associationID job)"
  let ?room = "length (sh_queue (rt_shards r1 ! ?i)) < sh_cap (rt_shards r1 ! ?i)"
  have dis: "dispatch g err job (rs_rt s) =
    (if ?room then (True, r1\<lparr>rt_shards := (rt_shards r1)[?i := (rt_shards r1 ! ?i)\<lparr>sh_queue := sh_queue (rt_shards r1 ! ?i) @ [job]\<rparr>],
                     rt_metrics := (rt_metrics r1)\<lparr>queueDepth := queueDepth (rt_metrics r1) + 1\<rparr>\<rparr>)
     else (False, r1\<lparr>rt_metrics := (rt_metrics r1)\<lparr>queueDrops := queueDrops (rt_metrics r1) + 1\<rparr>\<rparr>))"
    using False by (simp add: dispatch_def r1_def Let_def)
  have a: "assoc_ok r1" "cfg_ok (rt_config r1)" "limits r1 = limits (rs_rt s)"
    using assms(1) k assoc_ok_cong [of "rs_rt s" r1] by (auto simp: rt_inv_def same_assoc_def limits_def)
  show ?thesis
  proof (cases ?room)
    case True
    with enqueue_queue_ok [OF q, of job ?i] n assms(3,4) dis a show ?thesis
      by (auto simp: rt_inv_def assoc_ok_def limits_def)
  next
    case False
    then have r: "r = r1\<lparr>rt_metrics := (rt_metrics r1)\<lparr>queueDrops := queueDrops (rt_metrics r1) + 1\<rparr>\<rparr>" "\<not> ok"
      using assms(4) dis by auto
    have "queue_ok (s\<lparr>rs_rt := r\<rparr>)"
      using queue_ok_cong [OF q, of "s\<lparr>rs_rt := r\<rparr>"] q r by (simp add: slots_used_def batch_wf_def queue_ok_def [of ?s])
    with a r show ?thesis by (simp add: rt_inv_def assoc_ok_def limits_def)
  qed
qed

lemma rt_step_ok:
  assumes "rt_inv s" "1 \<le> g" "rt_step g ev s = Some s'"
  shows "rt_inv s' \<and> limits (rs_rt s') = limits (rs_rt s)"
proof -
  have w: "rt_inv s' \<and> limits (rs_rt s') = limits (rs_rt s)" if st: "worker_step ev s i = Some s'" for i
  proof -
    have "same_assoc (rs_rt s) (rs_rt s')"
      "map_option ch_cap (rt_batchSlots (rs_rt s')) = map_option ch_cap (rt_batchSlots (rs_rt s))"
      using worker_step_effect [OF st] by blast+
    with worker_queue_ok [OF _ st] assms(1) show ?thesis
      by (auto simp: rt_inv_def assoc_ok_def same_assoc_def limits_def)
  qed
  show ?thesis
  proof (cases ev)
    case (EvBegin e)
    then show ?thesis using assms(3) begin_ok(1) [OF assms(1), where ?e1.0 = "rs_done s" and ?e2.0 = e and d = "rs_done s \<or> e"]
        begin_ok(2) [OF assms(1), where ?e1.0 = "rs_done s" and ?e2.0 = e]
      by (auto simp: rt_step_def split: prod.splits)
  next
    case (EvDispatch err job)
    obtain ok r where d: "dispatch g err job (rs_rt s) = (ok, r)" by (cases "dispatch g err job (rs_rt s)")
    have h: "slot (sj_packet job) \<le> rs_held s" using EvDispatch assms(3) by (simp add: rt_step_def split: if_splits)
    have "s' = (if ok then s\<lparr>rs_rt := r, rs_held := rs_held s - slot (sj_packet job), rs_accepted := rs_accepted s @ [job]\<rparr>
      else s\<lparr>rs_rt := r\<rparr>)"
      using EvDispatch assms(3) d by (cases ok) (simp_all add: rt_step_def split: if_splits)
    with dispatch_ok [OF assms(1,2) h d] show ?thesis by (cases ok) simp_all
  next
    case EvCancel
    then show ?thesis using assms(1,3) by (auto simp: rt_step_def rt_inv_def queue_ok_def)
  next
    case EvEnd
    then show ?thesis using assms(3) end_ok [OF assms(1)] by (auto simp: rt_step_def)
  next
    case EvTryBatch
    then show ?thesis using assms(3) try_batch_ok [OF assms(1)] by (auto simp: rt_step_def)
  next
    case (EvRelease p)
    then show ?thesis using assms(3) release_ok [OF assms(1)] by (auto simp: rt_step_def split: if_splits)
  qed (use assms(3) w in \<open>simp_all add: rt_step_def\<close>)
qed

interpretation rt_steps: step_runs "rt_step g" "rt_run g" for g
  by unfold_locales simp_all

lemma rt_run_ok:
  assumes "rt_inv s" "1 \<le> g" "rt_run g s es = Some s'"
  shows "rt_inv s' \<and> limits (rs_rt s') = limits (rs_rt s)"
  by (rule rt_steps.run_invariant [OF assms(3)]) (use assms(1,2) rt_step_ok in auto)

lemma rt_init_ok:
  assumes "0 \<le> uc_SendWorkers cfg" "0 \<le> uc_SendQueueSize cfg"
  shows "rt_inv (rt_init cfg concurrent)"
  using assms
  by (auto simp: rt_inv_def rt_init_def newUDPRuntime_def Let_def cfg_ok_def normalizeUDPConfig_def assoc_ok_def
      chan_make_def chan_wf_def zero_metrics_def queue_ok_def shard_total_def slots_used_def batch_wf_def)

lemma rt_init_limits:
  "limits (rs_rt (rt_init cfg concurrent)) =
     (unat (if uc_MaxAssociations cfg = 0 then concurrent else uc_MaxAssociations cfg),
      if uc_BatchBufferBudget cfg > 0 then Some (nat (uc_BatchBufferBudget cfg)) else None)"
  by (simp add: limits_def rt_init_def newUDPRuntime_def Let_def normalizeUDPConfig_def chan_make_def)

lemma sum_list_mono_nth:
  assumes "length xs = length ys" "\<And>i. i < length xs \<Longrightarrow> xs ! i \<le> (ys ! i :: nat)"
  shows "sum_list xs \<le> sum_list ys"
  using assms by (auto simp: sum_list_sum_nth intro: sum_mono)

lemma queue_bound:
  assumes "queue_ok s"
  shows "shard_total (length \<circ> sh_queue) (rs_rt s) \<le> nat (uc_SendQueueSize (rt_config (rs_rt s)))"
proof (cases "rt_shards (rs_rt s) = []")
  case True
  then show ?thesis by (simp add: shard_total_def)
next
  case False
  have "shard_total (length \<circ> sh_queue) (rs_rt s) \<le> shard_total sh_cap (rs_rt s)"
    unfolding shard_total_def using assms by (intro sum_list_mono_nth) (simp_all add: queue_ok_def job_shard_ok_def)
  then show ?thesis using assms False by (simp add: queue_ok_def)
qed

section \<open>The association limit as a semaphore\<close>

definition begin_assoc :: "udpRuntime \<Rightarrow> udpRuntime option" where
  "begin_assoc r = (case beginAssociation False False r of (Some _, r') \<Rightarrow> Some r' | (None, _) \<Rightarrow> None)"

interpretation assoc: semaphore
  "\<lambda>r. ch_cap (rt_associationSlots r)" "\<lambda>r. ch_len (rt_associationSlots r)" begin_assoc endAssociation assoc_ok
  by unfold_locales
     (auto simp: begin_assoc_def beginAssociation_def endAssociation_def assoc_ok_def chan_try_send_def chan_recv_def
       chan_wf_def of_nat_diff split: option.splits if_splits)

section \<open>Properties\<close>

text \<open>
  The send queue is split without loss: the dispatcher starts at least one shard, every shard has room
  for a job, and the capacities of the shards add up to the configured queue size.
\<close>

theorem send_queue_split:
  assumes "1 \<le> g" "0 \<le> uc_SendWorkers (rt_config r)" "1 \<le> uc_SendQueueSize (rt_config r)"
  shows "rt_shards (startDispatcher g r) \<noteq> [] \<and> (\<forall>sh \<in> set (rt_shards (startDispatcher g r)). 0 < sh_cap sh) \<and>
    sum_list (map sh_cap (rt_shards (startDispatcher g r))) = nat (uc_SendQueueSize (rt_config r))"
  using startDispatcher_shards [OF assms] by (metis length_greater_0_conv)

theorem send_queue_split_witness:
  "rt_shards (startDispatcher 4 (newUDPRuntime (DefaultUDPConfig\<lparr>uc_SendQueueSize := 11\<rparr>) 5)) \<noteq> [] \<and>
   sum_list (map sh_cap (rt_shards (startDispatcher 4 (newUDPRuntime (DefaultUDPConfig\<lparr>uc_SendQueueSize := 11\<rparr>) 5)))) = 11"
  using send_queue_split [of 4 "newUDPRuntime (DefaultUDPConfig\<lparr>uc_SendQueueSize := 11\<rparr>) 5"]
  by (simp add: newUDPRuntime_def Let_def normalizeUDPConfig_def DefaultUDPConfig_def)


text \<open>A small configuration, a job of it, and its run to a busy worker.\<close>

definition sample_cfg :: UDPConfig where
  "sample_cfg = DefaultUDPConfig\<lparr>uc_SendQueueSize := 3, uc_SendWorkers := 1, uc_BatchBufferBudget := 2, uc_MaxAssociations := 2\<rparr>"

definition sample_job :: "nat \<Rightarrow> udpSendJob" where
  "sample_job b = \<lparr>sj_associationID = 1,
     sj_packet = \<lparr>ip_payload = [1], ip_buffer = b, ip_frag = 0, ip_dst = DomainAddress (bytes_of ''a'') 53,
       ip_src = AddrPortFrom (V4 1) 9, ip_batchSlot = True\<rparr>,
     sj_target = FromHost (bytes_of ''a'') 53\<rparr>"

definition sample_rt :: "worker \<Rightarrow> udpSendJob list \<Rightarrow> udpSendJob list \<Rightarrow> udpRuntime" where
  "sample_rt w taken q =
     \<lparr>rt_config = sample_cfg,
      rt_metrics = zero_metrics\<lparr>activeAssociations := 1, totalAssociations := 1,
        queueDepth := of_nat (length q) + (case w of WBusy _ \<Rightarrow> 1 | _ \<Rightarrow> 0)\<rparr>,
      rt_shards = [\<lparr>sh_cap = 3, sh_queue = q, sh_worker = w, sh_taken = taken\<rparr>], rt_sequence = 1,
      rt_associationSlots = \<lparr>ch_cap = 2, ch_len = 1\<rparr>, rt_batchSlots = Some \<lparr>ch_cap = 2, ch_len = 2\<rparr>, rt_puts = []\<rparr>"

lemma sample_run:
  "rt_run 1 (rt_init sample_cfg 5)
     [EvBegin False, EvTryBatch, EvTryBatch, EvDispatch False (sample_job 0), EvDispatch False (sample_job 1), EvRecv 0] =
   Some \<lparr>rs_rt = sample_rt (WBusy (sample_job 0)) [sample_job 0] [sample_job 1], rs_done = False, rs_errCh = (\<lambda>_. []),
     rs_held = 0, rs_accepted = [sample_job 0, sample_job 1]\<rparr>"
  by (simp add: rt_step_def rt_init_def newUDPRuntime_def normalizeUDPConfig_def sample_cfg_def DefaultUDPConfig_def
      Let_def chan_make_def beginAssociation_def chan_try_send_def tryAcquireBatchBuffer_def dispatch_def
      startDispatcher_def send_workers_def sample_job_def slot_def shard_of_def worker_step_def upd_shard_def
      sample_rt_def zero_metrics_def)


text \<open>
  The jobs of an association are taken from the queue in the order in which \<open>dispatch\<close> accepted them,
  and none is lost: its accepted jobs are those its shard's worker took followed by those still queued.
\<close>

theorem udp_jobs_fifo:
  assumes "1 \<le> g" "0 \<le> uc_SendWorkers cfg" "0 \<le> uc_SendQueueSize cfg"
    and "rt_run g (rt_init cfg concurrent) es = Some s" "rt_shards (rs_rt s) \<noteq> []"
  shows "filter (\<lambda>j. sj_associationID j = a) (rs_accepted s) =
    filter (\<lambda>j. sj_associationID j = a)
      (sh_taken (rt_shards (rs_rt s) ! shard_of (rs_rt s) a) @ sh_queue (rt_shards (rs_rt s) ! shard_of (rs_rt s) a))"
proof -
  let ?n = "length (rt_shards (rs_rt s))" and ?i = "shard_of (rs_rt s) a"
  have "queue_ok s" using rt_run_ok [OF rt_init_ok [OF assms(2,3)] assms(1,4)] by (simp add: rt_inv_def)
  moreover have "?i < ?n" using assms(5) by (simp add: shard_of_def)
  ultimately have "job_shard_ok (rs_accepted s) ?n ?i (rt_shards (rs_rt s) ! ?i)" by (simp add: queue_ok_def)
  then have "filter (\<lambda>j. sj_associationID j = a) (sh_taken (rt_shards (rs_rt s) ! ?i) @ sh_queue (rt_shards (rs_rt s) ! ?i)) =
      filter (\<lambda>j. sj_associationID j = a) (filter (\<lambda>j. unat (sj_associationID j) mod ?n = ?i) (rs_accepted s))"
    by (simp add: job_shard_ok_def)
  then show ?thesis by (auto simp: shard_of_def intro!: filter_cong)
qed

theorem udp_jobs_fifo_witness:
  "\<exists>s. rt_run 1 (rt_init sample_cfg 5)
     [EvBegin False, EvTryBatch, EvTryBatch, EvDispatch False (sample_job 0), EvDispatch False (sample_job 1), EvRecv 0] = Some s \<and>
    filter (\<lambda>j. sj_associationID j = 1) (rs_accepted s) = [sample_job 0] @ [sample_job 1]"
proof -
  have c: "0 \<le> uc_SendWorkers sample_cfg" "0 \<le> uc_SendQueueSize sample_cfg" by (simp_all add: sample_cfg_def)
  from udp_jobs_fifo [OF _ c sample_run, of 1] show ?thesis
    using sample_run by (simp add: sample_rt_def shard_of_def sample_job_def)
qed

lemma slots_of_le_used:
  assumes "queue_ok s" "i < length (rt_shards (rs_rt s))"
  shows "slots_of (rt_shards (rs_rt s) ! i) \<le> slots_used (rs_rt s)"
proof -
  have "slots_of (rt_shards (rs_rt s) ! i) \<in> set (map slots_of (rt_shards (rs_rt s)))" using assms(2) by auto
  from member_le_sum_list [OF this] show ?thesis using assms(1) by (simp add: queue_ok_def shard_total_def)
qed

text \<open>
  No send worker ever blocks on giving a buffer back: a worker that runs a job can finish it, whatever
  the context says and the send returns, and a draining worker can release its next job.
\<close>

theorem udp_workers_never_block:
  assumes "1 \<le> g" "0 \<le> uc_SendWorkers cfg" "0 \<le> uc_SendQueueSize cfg"
    and "rt_run g (rt_init cfg concurrent) es = Some s" "i < length (rt_shards (rs_rt s))"
  shows "(\<forall>j. sh_worker (rt_shards (rs_rt s) ! i) = WBusy j \<longrightarrow> rt_step g (EvRun i ctxErr sent) s \<noteq> None) \<and>
    (sh_worker (rt_shards (rs_rt s) ! i) = WDraining \<and> sh_queue (rt_shards (rs_rt s) ! i) \<noteq> [] \<longrightarrow>
       rt_step g (EvDrain i) s \<noteq> None)"
proof -
  have "queue_ok s" using rt_run_ok [OF rt_init_ok [OF assms(2,3)] assms(1,4)] by (simp add: rt_inv_def)
  note le = slots_of_le_used [OF this assms(5)]
  have rel: "releaseInboundPacket p r \<noteq> None" if "slot p \<le> slots_used r" for p r
    using releaseBuffer_enabled [of "ip_batchSlot p" r "ip_buffer p"] that by (simp add: releaseInboundPacket_def slot_def)
  have "rt_step g (EvRun i ctxErr sent) s \<noteq> None" if w: "sh_worker (rt_shards (rs_rt s) ! i) = WBusy j" for j
  proof -
    have "slot (sj_packet j) \<le> slots_used (rs_rt s)" using le w by (simp add: slots_of_def jobs_of_def)
    then have "runSendJob ctxErr sent j errCh (upd_shard i sh (rs_rt s)) \<noteq> None" for errCh sh
      using rel by (auto simp: runSendJob_def Let_def upd_shard_def slots_used_def split: option.splits sum.splits)
    then show ?thesis using w assms(5) by (auto simp: rt_step_def worker_step_def Let_def split: option.splits)
  qed
  moreover have "rt_step g (EvDrain i) s \<noteq> None"
    if w: "sh_worker (rt_shards (rs_rt s) ! i) = WDraining" "sh_queue (rt_shards (rs_rt s) ! i) = j # q" for j q
  proof -
    have "slot (sj_packet j) \<le> slots_used (rs_rt s)" using le w by (simp add: slots_of_def jobs_of_def)
    then have "drainJob j (upd_shard i sh (rs_rt s)) \<noteq> None" for sh
      using rel by (simp add: drainJob_def upd_shard_def slots_used_def)
    then show ?thesis using w assms(5) by (auto simp: rt_step_def worker_step_def Let_def)
  qed
  ultimately show ?thesis by (cases "sh_queue (rt_shards (rs_rt s) ! i)") auto
qed

theorem udp_workers_never_block_witness:
  "\<exists>s. rt_run 1 (rt_init sample_cfg 5)
     [EvBegin False, EvTryBatch, EvTryBatch, EvDispatch False (sample_job 0), EvDispatch False (sample_job 1), EvRecv 0] = Some s \<and>
    rt_step 1 (EvRun 0 None (Inl EOF)) s \<noteq> None"
proof -
  have c: "0 \<le> uc_SendWorkers sample_cfg" "0 \<le> uc_SendQueueSize sample_cfg" by (simp_all add: sample_cfg_def)
  from udp_workers_never_block [OF _ c sample_run, of 0 None "Inl EOF"] show ?thesis
    using sample_run by (simp add: sample_rt_def)
qed

text \<open>
  A job can be left behind at shutdown: \<open>dispatch\<close> looks at the lifetime before it sends to the shard, so
  a job can enter the queue after the shard's worker has drained it and exited; its buffer is never
  given back.
\<close>

theorem dispatch_after_drain:
  "\<exists>s. rt_run 1 (rt_init sample_cfg 5)
      [EvBegin False, EvTryBatch, EvTryBatch, EvDispatch False (sample_job 0), EvCancel, EvStartDrain 0, EvDrain 0, EvExit 0,
       EvDispatch False (sample_job 1)] = Some s \<and>
    rs_done s \<and> map sh_worker (rt_shards (rs_rt s)) = [WExited] \<and> map sh_queue (rt_shards (rs_rt s)) = [[sample_job 1]] \<and>
    rt_puts (rs_rt s) = [0] \<and> queueDepth (rt_metrics (rs_rt s)) = 1 \<and> slots_used (rs_rt s) = 1"
  by (simp add: rt_step_def rt_init_def newUDPRuntime_def normalizeUDPConfig_def sample_cfg_def DefaultUDPConfig_def
      Let_def chan_make_def beginAssociation_def chan_try_send_def tryAcquireBatchBuffer_def dispatch_def
      startDispatcher_def send_workers_def sample_job_def slot_def shard_of_def worker_step_def upd_shard_def
      zero_metrics_def drainJob_def releaseInboundPacket_def releaseBuffer_def putBuffer_def chan_recv_def slots_used_def)

end
