(* ===== verification/Reactor.thy ===== *)
theory Reactor
  imports UdpRuntime
begin

text \<open>
  Model of the shared epoll reactor of \<open>internal/server/socks/udp_reactor_linux.go\<close> and of the way \<open>handleUDP\<close> uses it:
  worker goroutines, registration and deregistration of descriptors, and the owners of the sockets, as one step function
  over all interleavings. A step is what a goroutine does between two synchronisation points; a step that would
  block is \<open>None\<close>.
\<close>

section \<open>Definitions\<close>

text \<open>
  A registration (\<open>*reactorReg\<close>) is its number in the order of creation. \<open>None\<close> in a list of events is the wake-up descriptor.
  A worker waits, has reported events left, has looked up a registration (and will lock it), runs its handler, or has
  returned from \<open>rearm\<close> and still holds the lock.
\<close>

datatype worker_state =
    Waiting
  | Pending "nat option list"
  | Found nat "nat option list"
  | Running nat "nat option list"
  | Finishing nat "nat option list"
  | Exited

text \<open>Where a goroutine is in \<open>register\<close> or \<open>deregister\<close>; both return when it is \<open>Returned\<close>.\<close>

datatype caller_state =
    Registering nat nat
  | Unmapped nat "nat option"
  | Deleted nat
  | Returned

text \<open>
  \<open>ra_fds\<close> gives the descriptor each registration was made for. \<open>ra_epoll\<close> are the members of the epoll set and \<open>ra_armed\<close>
  those whose one-shot event is armed. \<open>ra_open\<close> and \<open>ra_queue\<close> are the open sockets and the number of datagrams (or errors)
  a socket has to read. \<open>ra_closed\<close> is set by \<open>close\<close>, which also makes the wake-up descriptor readable.
\<close>

record reactor =
  ra_regs :: "nat \<Rightarrow> nat option"
  ra_fds :: "nat list"
  ra_dead :: "nat set"
  ra_epoll :: "nat set"
  ra_armed :: "nat set"
  ra_workers :: "worker_state list"
  ra_callers :: "caller_state list"
  ra_open :: "nat set"
  ra_queue :: "nat \<Rightarrow> nat"
  ra_closed :: bool

definition newUDPReactor :: "int \<Rightarrow> reactor" where
  "newUDPReactor workers =
     \<lparr>ra_regs = (\<lambda>_. None), ra_fds = [], ra_dead = {}, ra_epoll = {}, ra_armed = {},
      ra_workers = replicate (nat (if workers < 1 then 1 else workers)) Waiting, ra_callers = [],
      ra_open = {}, ra_queue = (\<lambda>_. 0), ra_closed = False\<rparr>"

text \<open>A registration is locked while a worker runs its handler.\<close>

fun holds :: "nat \<Rightarrow> worker_state \<Rightarrow> bool" where
  "holds r (Running r' es) \<longleftrightarrow> r = r'"
| "holds r (Finishing r' es) \<longleftrightarrow> r = r'"
| "holds r _ \<longleftrightarrow> False"

definition reg_locked :: "reactor \<Rightarrow> nat \<Rightarrow> bool" where
  "reg_locked s r \<longleftrightarrow> list_ex (holds r) (ra_workers s)"

text \<open>The owner of a socket is in \<open>register\<close> or \<open>deregister\<close> for it.\<close>

fun caller_on :: "nat list \<Rightarrow> nat \<Rightarrow> caller_state \<Rightarrow> bool" where
  "caller_on fds fd (Registering f r) \<longleftrightarrow> f = fd"
| "caller_on fds fd (Unmapped f reg) \<longleftrightarrow> f = fd"
| "caller_on fds fd (Deleted r) \<longleftrightarrow> fds ! r = fd"
| "caller_on fds fd Returned \<longleftrightarrow> False"

definition fd_busy :: "reactor \<Rightarrow> nat \<Rightarrow> bool" where
  "fd_busy s fd \<longleftrightarrow> list_ex (caller_on (ra_fds s) fd) (ra_callers s)"

datatype reactor_event =
    RvOpen nat
  | RvArrive nat
  | RvCloseFd nat
  | RvRegister nat
  | RvAdd nat bool
  | RvUnmap nat
  | RvDelete nat
  | RvDead nat
  | RvWait nat "nat option list"
  | RvFail nat
  | RvNext nat
  | RvLock nat
  | RvPump nat nat bool
  | RvUnlock nat
  | RvShut

text \<open>The workers: \<open>loop\<close>, with the handler \<open>serveSocket\<close> registers. Its read waits until there is something to read.\<close>

definition rearm :: "reactor \<Rightarrow> nat \<Rightarrow> reactor" where
  "rearm s fd = (if fd \<in> ra_epoll s then s\<lparr>ra_armed := insert fd (ra_armed s)\<rparr> else s)"

definition set_worker :: "nat \<Rightarrow> worker_state \<Rightarrow> reactor \<Rightarrow> reactor" where
  "set_worker i w s = s\<lparr>ra_workers := (ra_workers s)[i := w]\<rparr>"

definition epoll_ready :: "reactor \<Rightarrow> nat option \<Rightarrow> bool" where
  "epoll_ready s ev = (case ev of None \<Rightarrow> ra_closed s | Some fd \<Rightarrow> fd \<in> ra_armed s \<and> 0 < ra_queue s fd)"

definition loop_wait :: "nat \<Rightarrow> nat option list \<Rightarrow> worker_state \<Rightarrow> reactor \<Rightarrow> reactor option" where
  "loop_wait i evs w s = (case w of
      Waiting \<Rightarrow> if evs \<noteq> [] \<and> length evs \<le> 128 \<and> distinct evs \<and> list_all (epoll_ready s) evs
        then Some (set_worker i (Pending evs) (s\<lparr>ra_armed := ra_armed s - {fd. Some fd \<in> set evs}\<rparr>)) else None
    | _ \<Rightarrow> None)"

definition loop_fail :: "nat \<Rightarrow> worker_state \<Rightarrow> reactor \<Rightarrow> reactor option" where
  "loop_fail i w s = (case w of Waiting \<Rightarrow> Some (set_worker i Exited s) | _ \<Rightarrow> None)"

definition loop_next :: "nat \<Rightarrow> worker_state \<Rightarrow> reactor \<Rightarrow> reactor option" where
  "loop_next i w s = (case w of
      Pending [] \<Rightarrow> Some (set_worker i Waiting s)
    | Pending (None # evs) \<Rightarrow> Some (set_worker i (if ra_closed s then Exited else Pending evs) s)
    | Pending (Some fd # evs) \<Rightarrow> Some (set_worker i (case ra_regs s fd of None \<Rightarrow> Pending evs | Some r \<Rightarrow> Found r evs) s)
    | _ \<Rightarrow> None)"

definition loop_lock :: "nat \<Rightarrow> worker_state \<Rightarrow> reactor \<Rightarrow> reactor option" where
  "loop_lock i w s = (case w of
      Found r evs \<Rightarrow> if reg_locked s r then None
        else Some (set_worker i (if r \<in> ra_dead s then Pending evs else Running r evs) s)
    | _ \<Rightarrow> None)"

definition loop_pump :: "nat \<Rightarrow> nat \<Rightarrow> bool \<Rightarrow> worker_state \<Rightarrow> reactor \<Rightarrow> reactor option" where
  "loop_pump i n again w s = (case w of
      Running r evs \<Rightarrow>
       (let fd = ra_fds s ! r in
        if 0 < n \<and> n \<le> ra_queue s fd
        then (let s' = set_worker i (Finishing r evs) (s\<lparr>ra_queue := (ra_queue s)(fd := ra_queue s fd - n)\<rparr>)
              in Some (if again then rearm s' fd else s'))
        else None)
    | _ \<Rightarrow> None)"

definition loop_unlock :: "nat \<Rightarrow> worker_state \<Rightarrow> reactor \<Rightarrow> reactor option" where
  "loop_unlock i w s = (case w of Finishing r evs \<Rightarrow> Some (set_worker i (Pending evs) s) | _ \<Rightarrow> None)"

definition on_worker :: "nat \<Rightarrow> (worker_state \<Rightarrow> reactor \<Rightarrow> reactor option) \<Rightarrow> reactor \<Rightarrow> reactor option" where
  "on_worker i f s = (if i < length (ra_workers s) then f (ra_workers s ! i) s else None)"

text \<open>
  The owners. A socket is registered once it is open, deregistered afterwards, and closed when no registration is left and neither
  call is under way; a closed descriptor leaves the epoll set, and its number may be given out again.
\<close>

definition set_caller :: "nat \<Rightarrow> caller_state \<Rightarrow> reactor \<Rightarrow> reactor" where
  "set_caller c p s = s\<lparr>ra_callers := (ra_callers s)[c := p]\<rparr>"

definition register_start :: "nat \<Rightarrow> reactor \<Rightarrow> reactor option" where
  "register_start fd s = (if fd \<in> ra_open s \<and> ra_regs s fd = None \<and> \<not> fd_busy s fd
     then Some (s\<lparr>ra_fds := ra_fds s @ [fd], ra_regs := (ra_regs s)(fd := Some (length (ra_fds s))),
       ra_callers := ra_callers s @ [Registering fd (length (ra_fds s))]\<rparr>) else None)"

definition register_add :: "nat \<Rightarrow> bool \<Rightarrow> caller_state \<Rightarrow> reactor \<Rightarrow> reactor option" where
  "register_add c ok p s = (case p of
      Registering fd r \<Rightarrow> Some (set_caller c Returned
        (if ok then s\<lparr>ra_epoll := insert fd (ra_epoll s), ra_armed := insert fd (ra_armed s)\<rparr>
         else s\<lparr>ra_regs := (ra_regs s)(fd := None)\<rparr>))
    | _ \<Rightarrow> None)"

definition deregister_start :: "nat \<Rightarrow> reactor \<Rightarrow> reactor option" where
  "deregister_start fd s = (if fd \<in> ra_open s \<and> \<not> fd_busy s fd
     then Some (s\<lparr>ra_regs := (ra_regs s)(fd := None), ra_callers := ra_callers s @ [Unmapped fd (ra_regs s fd)]\<rparr>) else None)"

definition deregister_delete :: "nat \<Rightarrow> caller_state \<Rightarrow> reactor \<Rightarrow> reactor option" where
  "deregister_delete c p s = (case p of
      Unmapped fd reg \<Rightarrow> Some (set_caller c (case reg of None \<Rightarrow> Returned | Some r \<Rightarrow> Deleted r)
        (s\<lparr>ra_epoll := ra_epoll s - {fd}, ra_armed := ra_armed s - {fd}\<rparr>))
    | _ \<Rightarrow> None)"

definition deregister_dead :: "nat \<Rightarrow> caller_state \<Rightarrow> reactor \<Rightarrow> reactor option" where
  "deregister_dead c p s = (case p of
      Deleted r \<Rightarrow> if reg_locked s r then None else Some (set_caller c Returned (s\<lparr>ra_dead := insert r (ra_dead s)\<rparr>))
    | _ \<Rightarrow> None)"

definition on_caller :: "nat \<Rightarrow> (caller_state \<Rightarrow> reactor \<Rightarrow> reactor option) \<Rightarrow> reactor \<Rightarrow> reactor option" where
  "on_caller c f s = (if c < length (ra_callers s) then f (ra_callers s ! c) s else None)"

fun ra_step :: "reactor_event \<Rightarrow> reactor \<Rightarrow> reactor option" where
  "ra_step (RvOpen fd) s = (if fd \<in> ra_open s then None
     else Some (s\<lparr>ra_open := insert fd (ra_open s), ra_queue := (ra_queue s)(fd := 0)\<rparr>))"
| "ra_step (RvArrive fd) s = (if fd \<in> ra_open s then Some (s\<lparr>ra_queue := (ra_queue s)(fd := Suc (ra_queue s fd))\<rparr>) else None)"
| "ra_step (RvCloseFd fd) s = (if fd \<in> ra_open s \<and> ra_regs s fd = None \<and> \<not> fd_busy s fd
     then Some (s\<lparr>ra_open := ra_open s - {fd}, ra_epoll := ra_epoll s - {fd}, ra_armed := ra_armed s - {fd}\<rparr>) else None)"
| "ra_step (RvRegister fd) s = register_start fd s"
| "ra_step (RvAdd c ok) s = on_caller c (register_add c ok) s"
| "ra_step (RvUnmap fd) s = deregister_start fd s"
| "ra_step (RvDelete c) s = on_caller c (deregister_delete c) s"
| "ra_step (RvDead c) s = on_caller c (deregister_dead c) s"
| "ra_step (RvWait i evs) s = on_worker i (loop_wait i evs) s"
| "ra_step (RvFail i) s = on_worker i (loop_fail i) s"
| "ra_step (RvNext i) s = on_worker i (loop_next i) s"
| "ra_step (RvLock i) s = on_worker i (loop_lock i) s"
| "ra_step (RvPump i n again) s = on_worker i (loop_pump i n again) s"
| "ra_step (RvUnlock i) s = on_worker i (loop_unlock i) s"
| "ra_step RvShut s = Some (s\<lparr>ra_closed := True\<rparr>)"

fun ra_run :: "reactor \<Rightarrow> reactor_event list \<Rightarrow> reactor option" where
  "ra_run s [] = Some s"
| "ra_run s (e # es) = (case ra_step e s of None \<Rightarrow> None | Some s' \<Rightarrow> ra_run s' es)"

section \<open>Registrations and handlers\<close>

lemmas worker_step_defs = loop_wait_def loop_fail_def loop_next_def loop_lock_def loop_pump_def loop_unlock_def set_worker_def rearm_def Let_def

text \<open>
  \<open>owner_inv\<close> says that the map holds live registrations of open sockets, that every live registration is in the map or being
  deregistered, and that a socket has at most one; \<open>worker_inv\<close> that a handler runs only for a live registration and in one worker.
\<close>

fun leaving :: "nat \<Rightarrow> caller_state \<Rightarrow> bool" where
  "leaving r (Unmapped fd reg) \<longleftrightarrow> reg = Some r"
| "leaving r (Deleted r') \<longleftrightarrow> r = r'"
| "leaving r _ \<longleftrightarrow> False"

fun refers :: "nat \<Rightarrow> worker_state \<Rightarrow> bool" where
  "refers r (Found r' es) \<longleftrightarrow> r = r'"
| "refers r (Running r' es) \<longleftrightarrow> r = r'"
| "refers r (Finishing r' es) \<longleftrightarrow> r = r'"
| "refers r _ \<longleftrightarrow> False"

definition reg_live :: "reactor \<Rightarrow> nat \<Rightarrow> bool" where
  "reg_live s r \<longleftrightarrow> r < length (ra_fds s) \<and> r \<notin> ra_dead s"

definition owner_inv :: "reactor \<Rightarrow> bool" where
  "owner_inv s \<longleftrightarrow> ra_dead s \<subseteq> {..<length (ra_fds s)} \<and>
     (\<forall>fd r. ra_regs s fd = Some r \<longrightarrow> reg_live s r \<and> ra_fds s ! r = fd \<and> fd \<in> ra_open s) \<and>
     (\<forall>r. reg_live s r \<longrightarrow> ra_fds s ! r \<in> ra_open s) \<and>
     (\<forall>r. reg_live s r \<longrightarrow> ra_regs s (ra_fds s ! r) = Some r \<or> (\<exists>p \<in> set (ra_callers s). leaving r p)) \<and>
     (\<forall>p \<in> set (ra_callers s). \<forall>r. leaving r p \<longrightarrow> r < length (ra_fds s) \<and> ra_regs s (ra_fds s ! r) \<noteq> Some r \<and> caller_on (ra_fds s) (ra_fds s ! r) p) \<and>
     (\<forall>r r'. reg_live s r \<and> reg_live s r' \<and> ra_fds s ! r = ra_fds s ! r' \<longrightarrow> r = r')"

definition worker_inv :: "reactor \<Rightarrow> bool" where
  "worker_inv s \<longleftrightarrow>
     (\<forall>w \<in> set (ra_workers s). \<forall>r. refers r w \<longrightarrow> r < length (ra_fds s)) \<and>
     (\<forall>w \<in> set (ra_workers s). \<forall>r. holds r w \<longrightarrow> r \<notin> ra_dead s) \<and>
     (\<forall>i j r. i < length (ra_workers s) \<and> j < length (ra_workers s) \<and> holds r (ra_workers s ! i) \<and> holds r (ra_workers s ! j) \<longrightarrow> i = j)"

lemma holds_refers: "holds r w \<Longrightarrow> refers r w"
  by (cases w) simp_all

lemma reg_locked_iff: "reg_locked s r \<longleftrightarrow> (\<exists>w \<in> set (ra_workers s). holds r w)"
  by (simp add: reg_locked_def list_ex_iff)

lemma caller_on_append: "leaving r p \<Longrightarrow> r < length fds \<Longrightarrow> caller_on (fds @ gs) fd p \<longleftrightarrow> caller_on fds fd p"
  by (cases p) (auto simp: nth_append)

lemma owner_invD:
  assumes "owner_inv s"
  shows "r \<in> ra_dead s \<Longrightarrow> r < length (ra_fds s)"
    and "ra_regs s fd = Some r \<Longrightarrow> reg_live s r"
    and "ra_regs s fd = Some r \<Longrightarrow> ra_fds s ! r = fd"
    and "ra_regs s fd = Some r \<Longrightarrow> fd \<in> ra_open s"
    and "reg_live s r \<Longrightarrow> ra_fds s ! r \<in> ra_open s"
    and "reg_live s r \<Longrightarrow> ra_regs s (ra_fds s ! r) \<noteq> Some r \<Longrightarrow> \<exists>p \<in> set (ra_callers s). leaving r p"
    and "p \<in> set (ra_callers s) \<Longrightarrow> leaving r p \<Longrightarrow> r < length (ra_fds s)"
    and "p \<in> set (ra_callers s) \<Longrightarrow> leaving r p \<Longrightarrow> ra_regs s (ra_fds s ! r) \<noteq> Some r"
    and "p \<in> set (ra_callers s) \<Longrightarrow> leaving r p \<Longrightarrow> caller_on (ra_fds s) (ra_fds s ! r) p"
    and "reg_live s r \<Longrightarrow> reg_live s r' \<Longrightarrow> ra_fds s ! r = ra_fds s ! r' \<Longrightarrow> r = r'"
  using assms unfolding owner_inv_def by blast+

lemma free_fd_not_live:
  assumes "owner_inv s" "\<not> fd_busy s fd" "ra_regs s fd = None"
  shows "reg_live s r \<Longrightarrow> ra_fds s ! r \<noteq> fd"
  using owner_invD(6,9) [OF assms(1)] assms(2,3) by (fastforce simp: fd_busy_def list_ex_iff)

lemma owner_invI:
  assumes "\<And>r. r \<in> ra_dead s \<Longrightarrow> r < length (ra_fds s)"
    and "\<And>fd r. ra_regs s fd = Some r \<Longrightarrow> reg_live s r \<and> ra_fds s ! r = fd \<and> fd \<in> ra_open s"
    and "\<And>r. reg_live s r \<Longrightarrow> ra_fds s ! r \<in> ra_open s"
    and "\<And>r. reg_live s r \<Longrightarrow> ra_regs s (ra_fds s ! r) \<noteq> Some r \<Longrightarrow> \<exists>p \<in> set (ra_callers s). leaving r p"
    and "\<And>p r. p \<in> set (ra_callers s) \<Longrightarrow> leaving r p \<Longrightarrow>
      r < length (ra_fds s) \<and> ra_regs s (ra_fds s ! r) \<noteq> Some r \<and> caller_on (ra_fds s) (ra_fds s ! r) p"
    and "\<And>r r'. reg_live s r \<Longrightarrow> reg_live s r' \<Longrightarrow> ra_fds s ! r = ra_fds s ! r' \<Longrightarrow> r = r'"
  shows "owner_inv s"
  using assms unfolding owner_inv_def by blast

text \<open>A step of a worker leaves the owners' part of the state as it is.\<close>

lemma owner_inv_cong:
  assumes "owner_inv s" and eq: "ra_regs s' = ra_regs s" "ra_fds s' = ra_fds s" "ra_dead s' = ra_dead s"
    "ra_callers s' = ra_callers s" and "ra_open s \<subseteq> ra_open s'"
  shows "owner_inv s'"
proof -
  note D = owner_invD [OF assms(1)]
  have live: "reg_live s' = reg_live s"
    by (simp add: reg_live_def fun_eq_iff eq)
  show ?thesis
    by (rule owner_invI) (use D assms(6) in \<open>auto simp: live eq\<close>)
qed

definition same_owner :: "reactor \<Rightarrow> reactor \<Rightarrow> bool" where
  "same_owner s s' \<longleftrightarrow> ra_regs s' = ra_regs s \<and> ra_fds s' = ra_fds s \<and> ra_dead s' = ra_dead s \<and>
     ra_callers s' = ra_callers s \<and> ra_open s' = ra_open s"

lemma set_worker_same [simp]: "same_owner s (set_worker i w s') \<longleftrightarrow> same_owner s s'"
  by (simp add: same_owner_def set_worker_def)

lemma same_ownerI [simp]: "same_owner s s" "same_owner s (s\<lparr>ra_armed := A\<rparr>)" "same_owner s (s\<lparr>ra_queue := q\<rparr>)"
  "same_owner s (rearm s' fd) \<longleftrightarrow> same_owner s s'"
  by (simp_all add: same_owner_def rearm_def)

lemma worker_same_owner:
  "loop_wait i evs w s = Some s' \<Longrightarrow> same_owner s s'"
  "loop_fail i w s = Some s' \<Longrightarrow> same_owner s s'"
  "loop_next i w s = Some s' \<Longrightarrow> same_owner s s'"
  "loop_lock i w s = Some s' \<Longrightarrow> same_owner s s'"
  "loop_pump i n again w s = Some s' \<Longrightarrow> same_owner s s'"
  "loop_unlock i w s = Some s' \<Longrightarrow> same_owner s s'"
  by (auto simp: loop_wait_def loop_fail_def loop_next_def loop_lock_def loop_pump_def loop_unlock_def Let_def
      split: worker_state.splits if_splits list.splits option.splits)

lemma on_workerE:
  assumes "on_worker i f s = Some s'"
  obtains "i < length (ra_workers s)" "f (ra_workers s ! i) s = Some s'"
  using assms by (auto simp: on_worker_def split: if_splits)

lemma register_start_inv:
  assumes I: "owner_inv s" and st: "register_start fd s = Some s'"
  shows "owner_inv s'"
proof -
  let ?n = "length (ra_fds s)"
  have g: "fd \<in> ra_open s" "ra_regs s fd = None" "\<not> fd_busy s fd"
    and s': "ra_fds s' = ra_fds s @ [fd]" "ra_regs s' = (ra_regs s)(fd := Some ?n)" "ra_callers s' = ra_callers s @ [Registering fd ?n]"
      "ra_dead s' = ra_dead s" "ra_open s' = ra_open s"
    using st by (auto simp: register_start_def split: if_splits)
  note D = owner_invD [OF I] and free = free_fd_not_live [OF I g(3,2)]
  have live: "reg_live s' r \<longleftrightarrow> r = ?n \<or> reg_live s r" for r
    using D(1) by (auto simp: s' reg_live_def less_Suc_eq)
  have fds: "ra_fds s' ! r = (if r = ?n then fd else ra_fds s ! r)" if "r \<le> ?n" for r
    using that by (simp add: s' nth_append)
  have old: "r < ?n" if "reg_live s r" for r
    using that by (simp add: reg_live_def)
  show ?thesis
  proof (rule owner_invI)
    show "r < length (ra_fds s')" if "r \<in> ra_dead s'" for r
      using that D(1) by (simp add: s' less_SucI)
    show "reg_live s' r \<and> ra_fds s' ! r = f \<and> f \<in> ra_open s'" if "ra_regs s' f = Some r" for f r
      using that D(2,3,4) [of f r] g(1) old [of r] by (cases "f = fd") (auto simp: live fds s' nth_append)
    show "ra_fds s' ! r \<in> ra_open s'" if "reg_live s' r" for r
      using that D(5) [of r] g(1) old [of r] by (auto simp: live fds s' nth_append)
    show "\<exists>p \<in> set (ra_callers s'). leaving r p" if "reg_live s' r" "ra_regs s' (ra_fds s' ! r) \<noteq> Some r" for r
      using that D(6) [of r] old [of r] free [of r] by (auto simp: live fds s' nth_append split: if_splits)
    show "r < length (ra_fds s') \<and> ra_regs s' (ra_fds s' ! r) \<noteq> Some r \<and> caller_on (ra_fds s') (ra_fds s' ! r) p"
      if "p \<in> set (ra_callers s')" "leaving r p" for p r
    proof -
      have p: "p \<in> set (ra_callers s)" using that by (auto simp: s')
      show ?thesis
        using D(7,8,9) [OF p that(2)] caller_on_append [OF that(2) D(7) [OF p that(2)]] by (auto simp: s' nth_append)
    qed
    show "r = r'" if "reg_live s' r" "reg_live s' r'" "ra_fds s' ! r = ra_fds s' ! r'" for r r'
      using that D(10) [of r r'] free [of r] free [of r'] old [of r] old [of r'] by (auto simp: live fds split: if_splits)
  qed
qed

lemma deregister_start_inv:
  assumes I: "owner_inv s" and st: "deregister_start fd s = Some s'"
  shows "owner_inv s'"
proof -
  have s': "ra_regs s' = (ra_regs s)(fd := None)" "ra_callers s' = ra_callers s @ [Unmapped fd (ra_regs s fd)]"
      "ra_fds s' = ra_fds s" "ra_dead s' = ra_dead s" "ra_open s' = ra_open s"
    using st by (auto simp: deregister_start_def split: if_splits)
  note D = owner_invD [OF I]
  have live: "reg_live s' = reg_live s"
    by (simp add: reg_live_def fun_eq_iff s')
  show ?thesis
  proof (rule owner_invI)
    show "\<exists>p \<in> set (ra_callers s'). leaving r p" if "reg_live s' r" "ra_regs s' (ra_fds s' ! r) \<noteq> Some r" for r
      using that D(6) [of r] by (cases "ra_fds s ! r = fd") (auto simp: live s')
    show "r < length (ra_fds s') \<and> ra_regs s' (ra_fds s' ! r) \<noteq> Some r \<and> caller_on (ra_fds s') (ra_fds s' ! r) p"
      if "p \<in> set (ra_callers s')" "leaving r p" for p r
      using that D(2,3) [of fd r] D(7,8,9) [of p r] by (auto simp: s' reg_live_def)
  qed (use D in \<open>auto simp: live s' split: if_splits\<close>)
qed

lemma set_caller_sel [simp]:
  "ra_regs (set_caller c p s) = ra_regs s" "ra_fds (set_caller c p s) = ra_fds s" "ra_dead (set_caller c p s) = ra_dead s"
  "ra_open (set_caller c p s) = ra_open s" "ra_callers (set_caller c p s) = (ra_callers s)[c := p]"
  "ra_workers (set_caller c p s) = ra_workers s" "ra_queue (set_caller c p s) = ra_queue s" "ra_armed (set_caller c p s) = ra_armed s"
  "ra_epoll (set_caller c p s) = ra_epoll s"
  by (simp_all add: set_caller_def)

text \<open>A caller moves on; the registration it takes with it stays in its hands or becomes dead.\<close>

lemma set_caller_inv:
  assumes I: "owner_inv s" and c: "c < length (ra_callers s)"
    and eq: "ra_regs s' = ra_regs s" "ra_fds s' = ra_fds s" "ra_open s' = ra_open s" "ra_callers s' = (ra_callers s)[c := p]"
    and dead: "ra_dead s' = ra_dead s \<union> D" "\<And>r. r \<in> D \<Longrightarrow> leaving r (ra_callers s ! c)"
    and keep: "\<And>r. leaving r (ra_callers s ! c) \<Longrightarrow> leaving r p \<or> r \<in> D"
    and new: "\<And>r. leaving r p \<Longrightarrow> leaving r (ra_callers s ! c) \<and> caller_on (ra_fds s) (ra_fds s ! r) p"
  shows "owner_inv s'"
proof -
  note O = owner_invD [OF I]
  have cin: "ra_callers s ! c \<in> set (ra_callers s)" using c by simp
  have live: "reg_live s' r \<longleftrightarrow> reg_live s r \<and> r \<notin> D" for r
    by (auto simp: reg_live_def eq dead(1))
  have notD: "r \<notin> D" if "ra_regs s fd = Some r" for fd r
    using that dead(2) [of r] O(8) [OF cin, of r] O(3) [of fd r] by auto
  show ?thesis
  proof (rule owner_invI)
    show "r < length (ra_fds s')" if "r \<in> ra_dead s'" for r
      using that O(1) [of r] O(7) [OF cin dead(2), of r] by (auto simp: dead(1) eq)
    show "\<exists>q \<in> set (ra_callers s'). leaving r q" if h: "reg_live s' r" "ra_regs s' (ra_fds s' ! r) \<noteq> Some r" for r
    proof -
      obtain q where q: "q \<in> set (ra_callers s)" "leaving r q" using h O(6) [of r] by (auto simp: live eq)
      then obtain k where k: "k < length (ra_callers s)" "q = ra_callers s ! k" by (auto simp: in_set_conv_nth)
      show ?thesis
      proof (cases "k = c")
        case True
        then show ?thesis using keep [of r] q(2) k h(1) c by (auto simp: live eq set_update_memI)
      next
        case False
        then show ?thesis using q(2) k by (auto simp: eq in_set_conv_nth intro!: bexI [of _ q] exI [of _ k])
      qed
    qed
    show "r < length (ra_fds s') \<and> ra_regs s' (ra_fds s' ! r) \<noteq> Some r \<and> caller_on (ra_fds s') (ra_fds s' ! r) q"
      if "q \<in> set (ra_callers s')" "leaving r q" for q r
    proof -
      have "q = p \<or> q \<in> set (ra_callers s)" using that(1) set_update_subset_insert [of "ra_callers s" c p] by (auto simp: eq)
      then show ?thesis using that(2) new [of r] O(7,8,9) [OF cin, of r] O(7,8,9) [of q r] by (auto simp: eq)
    qed
  qed (use O notD in \<open>auto simp: live eq\<close>)
qed

lemma owner_inv_step:
  assumes I: "owner_inv s" and st: "ra_step e s = Some s'" and ok: "\<And>c. e \<noteq> RvAdd c False"
  shows "owner_inv s'"
proof (cases e)
  case (RvCloseFd fd)
  then have g: "fd \<in> ra_open s" "ra_regs s fd = None" "\<not> fd_busy s fd"
    and s': "ra_open s' = ra_open s - {fd}" "ra_regs s' = ra_regs s" "ra_callers s' = ra_callers s" "ra_fds s' = ra_fds s" "ra_dead s' = ra_dead s"
    using st by (auto split: if_splits)
  note D = owner_invD [OF I] and free = free_fd_not_live [OF I g(3,2)]
  have live: "reg_live s' = reg_live s" by (simp add: reg_live_def fun_eq_iff s')
  show ?thesis
    by (rule owner_invI) (use D free g(2) in \<open>auto simp: live s'\<close>)
next
  case (RvAdd c ok')
  then have "ok'" using ok [of c] by (cases ok') auto
  then obtain fd r where c: "c < length (ra_callers s)" "ra_callers s ! c = Registering fd r"
    and s': "ra_regs s' = ra_regs s" "ra_fds s' = ra_fds s" "ra_open s' = ra_open s" "ra_callers s' = (ra_callers s)[c := Returned]" "ra_dead s' = ra_dead s \<union> {}"
    using st RvAdd by (auto simp: on_caller_def register_add_def split: if_splits caller_state.splits)
  show ?thesis by (rule set_caller_inv [OF I c(1) s'(1-5)]) (auto simp: c(2))
next
  case (RvDelete c)
  then obtain fd reg where c: "c < length (ra_callers s)" "ra_callers s ! c = Unmapped fd reg"
    and s': "ra_regs s' = ra_regs s" "ra_fds s' = ra_fds s" "ra_open s' = ra_open s"
      "ra_callers s' = (ra_callers s)[c := (case reg of None \<Rightarrow> Returned | Some r \<Rightarrow> Deleted r)]" "ra_dead s' = ra_dead s \<union> {}"
    using st by (auto simp: on_caller_def deregister_delete_def split: if_splits caller_state.splits)
  show ?thesis by (rule set_caller_inv [OF I c(1) s'(1-5)]) (auto simp: c(2) split: option.splits)
next
  case (RvDead c)
  then obtain r where c: "c < length (ra_callers s)" "ra_callers s ! c = Deleted r"
    and s': "ra_regs s' = ra_regs s" "ra_fds s' = ra_fds s" "ra_open s' = ra_open s" "ra_callers s' = (ra_callers s)[c := Returned]" "ra_dead s' = ra_dead s \<union> {r}"
    using st by (auto simp: on_caller_def deregister_dead_def split: if_splits caller_state.splits)
  show ?thesis by (rule set_caller_inv [OF I c(1) s'(1-5)]) (auto simp: c(2))
next
  case (RvRegister fd)
  then show ?thesis using I st by (simp add: register_start_inv)
next
  case (RvUnmap fd)
  then show ?thesis using I st by (simp add: deregister_start_inv)
next
  case (RvOpen fd)
  then show ?thesis using st by (auto intro: owner_inv_cong [OF I] split: if_splits)
next
  case (RvArrive fd)
  then show ?thesis using st by (auto intro: owner_inv_cong [OF I] split: if_splits)
next
  case RvShut
  then show ?thesis using st by (auto intro: owner_inv_cong [OF I])
qed (use st in \<open>auto elim!: on_workerE dest!: worker_same_owner simp: same_owner_def intro: owner_inv_cong [OF I]\<close>)

lemma worker_inv_update:
  assumes W: "worker_inv s" and i: "i < length (ra_workers s)"
    and eq: "ra_workers s' = (ra_workers s)[i := w]" "ra_fds s' = ra_fds s" "ra_dead s' = ra_dead s"
    and ref: "\<And>r. refers r w \<Longrightarrow> r < length (ra_fds s)"
    and hold: "\<And>r. holds r w \<Longrightarrow> holds r (ra_workers s ! i) \<or> \<not> reg_locked s r \<and> r \<notin> ra_dead s"
  shows "worker_inv s'"
proof -
  have uni: "j = k" if "j < length (ra_workers s)" "k < length (ra_workers s)" "holds r ((ra_workers s)[i := w] ! j)"
      "holds r ((ra_workers s)[i := w] ! k)" for j k r
  proof -
    have free: "\<not> holds r (ra_workers s ! m)" if "\<not> reg_locked s r" "m < length (ra_workers s)" for m
      using that by (auto simp: reg_locked_iff)
    show ?thesis
      using that hold [of r] free [of j] free [of k] W unfolding worker_inv_def
      by (cases "j = i"; cases "k = i") (auto simp: nth_list_update)
  qed
  have mem: "v = w \<or> v \<in> set (ra_workers s)" if "v \<in> set ((ra_workers s)[i := w])" for v
    using that set_update_subset_insert by fastforce
  show ?thesis
    unfolding worker_inv_def eq
  proof (intro conjI ballI allI impI)
    show "r < length (ra_fds s)" if "v \<in> set ((ra_workers s)[i := w])" "refers r v" for v r
      using that mem ref W unfolding worker_inv_def by blast
    show "r \<notin> ra_dead s" if "v \<in> set ((ra_workers s)[i := w])" "holds r v" for v r
      using that mem [of v] hold [of r] W i unfolding worker_inv_def by (metis nth_mem)
  qed (use uni in auto)
qed

lemma worker_inv_cong:
  assumes "worker_inv s" "ra_workers s' = ra_workers s" "length (ra_fds s) \<le> length (ra_fds s')"
    "\<And>r. r \<in> ra_dead s' \<Longrightarrow> r \<in> ra_dead s \<or> \<not> reg_locked s r"
  shows "worker_inv s'"
proof -
  have "r < length (ra_fds s')" if "w \<in> set (ra_workers s)" "refers r w" for w r
    using that assms(1,3) by (auto simp: worker_inv_def intro: less_le_trans)
  moreover have "r \<notin> ra_dead s'" if "w \<in> set (ra_workers s)" "holds r w" for w r
    using that assms(1) assms(4) [of r] by (auto simp: worker_inv_def reg_locked_iff)
  ultimately show ?thesis
    using assms(1,2) by (simp add: worker_inv_def)
qed

lemma worker_inv_step:
  assumes W: "worker_inv s" and I: "owner_inv s" and st: "ra_step e s = Some s'"
  shows "worker_inv s'"
proof -
  have refs: "refers r (ra_workers s ! i) \<Longrightarrow> r < length (ra_fds s)" if "i < length (ra_workers s)" for i r
    using W that by (auto simp: worker_inv_def)
  have regs: "ra_regs s fd = Some r \<Longrightarrow> r < length (ra_fds s)" for fd r
    using owner_invD(2) [OF I] by (auto simp: reg_live_def)
  note upd = worker_inv_update [OF W]
  show ?thesis
  proof (cases e)
    case (RvNext i)
    then have i: "i < length (ra_workers s)" using st by (auto simp: on_worker_def split: if_splits)
    show ?thesis using st RvNext i
      by (auto simp: on_worker_def loop_next_def set_worker_def regs intro!: upd [OF i] split: worker_state.splits list.splits option.splits if_splits)
  next
    case (RvLock i)
    then have i: "i < length (ra_workers s)" using st by (auto simp: on_worker_def split: if_splits)
    show ?thesis using st RvLock i refs [OF i]
      by (auto simp: on_worker_def loop_lock_def set_worker_def intro!: upd [OF i] split: worker_state.splits if_splits)
  next
    case (RvPump i n again)
    then have i: "i < length (ra_workers s)" using st by (auto simp: on_worker_def split: if_splits)
    show ?thesis using st RvPump i refs [OF i]
      by (auto simp: on_worker_def loop_pump_def set_worker_def rearm_def Let_def intro!: upd [OF i] split: worker_state.splits if_splits)
  next
    case (RvWait i evs)
    then have i: "i < length (ra_workers s)" using st by (auto simp: on_worker_def split: if_splits)
    show ?thesis using st RvWait i
      by (auto simp: on_worker_def loop_wait_def set_worker_def intro!: upd [OF i] split: worker_state.splits if_splits)
  next
    case (RvFail i)
    then have i: "i < length (ra_workers s)" using st by (auto simp: on_worker_def split: if_splits)
    show ?thesis using st RvFail i
      by (auto simp: on_worker_def loop_fail_def set_worker_def intro!: upd [OF i] split: worker_state.splits if_splits)
  next
    case (RvUnlock i)
    then have i: "i < length (ra_workers s)" using st by (auto simp: on_worker_def split: if_splits)
    show ?thesis using st RvUnlock i
      by (auto simp: on_worker_def loop_unlock_def set_worker_def intro!: upd [OF i] split: worker_state.splits if_splits)
  qed (use st in \<open>auto simp: on_caller_def register_start_def register_add_def deregister_start_def deregister_delete_def deregister_dead_def
      split: if_splits caller_state.splits intro!: worker_inv_cong [OF W]\<close>)
qed

lemma newUDPReactor_inv: "owner_inv (newUDPReactor n)" "worker_inv (newUDPReactor n)"
  by (auto simp: owner_inv_def worker_inv_def newUDPReactor_def reg_live_def)

interpretation ra_steps: step_runs ra_step ra_run
  by unfold_locales simp_all

lemma ra_run_inv:
  assumes "ra_run s es = Some s'" "owner_inv s" "worker_inv s" "\<forall>c. RvAdd c False \<notin> set es"
  shows "owner_inv s' \<and> worker_inv s'"
proof (rule ra_steps.run_invariant [OF assms(1)])
  show "owner_inv t' \<and> worker_inv t'" if "e \<in> set es" "owner_inv t \<and> worker_inv t" "ra_step e t = Some t'" for e t t'
    using that assms(4) owner_inv_step [of t e t'] worker_inv_step [of t e t'] by metis
qed (use assms in simp)

definition sample_reads :: "reactor_event list" where
  "sample_reads = [RvOpen 3, RvRegister 3, RvAdd 0 True, RvArrive 3, RvWait 1 [Some 3], RvNext 1, RvLock 1]"

lemmas reactor_eval = newUDPReactor_def on_worker_def on_caller_def worker_step_defs register_start_def register_add_def deregister_start_def
  deregister_delete_def deregister_dead_def set_caller_def fd_busy_def reg_locked_def epoll_ready_def

lemma sample_reads_run:
  "\<exists>s. ra_run (newUDPReactor 2) sample_reads = Some s \<and> length (ra_workers s) = 2 \<and> holds 0 (ra_workers s ! 1) \<and> ra_fds s ! 0 = 3 \<and>
    ra_workers s ! 1 = Running 0 []"
  by (simp add: sample_reads_def reactor_eval numeral_2_eq_2)

text \<open>
  C6. A socket is never used by a handler after it was closed, and never by two workers at once: in every interleaving of
  workers and owners in which the kernel accepts every registration, a worker that runs a handler runs that of a registration whose deregistration has not returned, the
  socket is open, and no other worker runs a handler for the same descriptor.
\<close>

theorem reactor_handlers_exclusive:
  assumes "ra_run (newUDPReactor n) es = Some s" "\<forall>c. RvAdd c False \<notin> set es"
    and "i < length (ra_workers s)" "holds r (ra_workers s ! i)"
  shows "r \<notin> ra_dead s \<and> ra_fds s ! r \<in> ra_open s \<and>
    (\<forall>j r'. j < length (ra_workers s) \<and> holds r' (ra_workers s ! j) \<and> ra_fds s ! r' = ra_fds s ! r \<longrightarrow> j = i)"
proof -
  have I: "owner_inv s" and W: "worker_inv s"
    using ra_run_inv [OF assms(1) newUDPReactor_inv assms(2)] by simp_all
  have live: "reg_live s q" if "j < length (ra_workers s)" "holds q (ra_workers s ! j)" for j q
    using that W holds_refers [OF that(2)] by (auto simp: worker_inv_def reg_live_def)
  show ?thesis
    using live [OF assms(3,4)] owner_invD(5,10) [OF I] live W assms(3,4) unfolding worker_inv_def reg_live_def by metis
qed

theorem reactor_handlers_exclusive_witness:
  "\<exists>s. ra_run (newUDPReactor 2) sample_reads = Some s \<and> ra_fds s ! 0 \<in> ra_open s \<and> \<not> holds 0 (ra_workers s ! 0)"
proof -
  obtain s where s: "ra_run (newUDPReactor 2) sample_reads = Some s" "length (ra_workers s) = 2" "holds 0 (ra_workers s ! 1)" "ra_fds s ! 0 = 3"
    using sample_reads_run by auto
  have "\<forall>c. RvAdd c False \<notin> set sample_reads" by (simp add: sample_reads_def)
  moreover have "1 < length (ra_workers s)" using s(2) by simp
  ultimately have ex: "ra_fds s ! 0 \<in> ra_open s" "\<forall>j r'. j < length (ra_workers s) \<and> holds r' (ra_workers s ! j) \<and> ra_fds s ! r' = ra_fds s ! 0 \<longrightarrow> j = 1"
    using reactor_handlers_exclusive [OF s(1) _ _ s(3)] by blast+
  have "0 < length (ra_workers s) \<and> holds 0 (ra_workers s ! 0) \<and> ra_fds s ! 0 = ra_fds s ! 0 \<longrightarrow> (0 :: nat) = 1"
    using ex(2) by blast
  then have "\<not> holds 0 (ra_workers s ! 0)" using s(2) by simp
  then show ?thesis using s(1) ex(1) by auto
qed

section \<open>A reported event is a datagram\<close>

text \<open>
  A socket has at most one event under way: armed, reported to a worker that has not yet read, or about to be armed by
  \<open>register\<close>. \<open>due\<close> says that a worker will read from the socket or is doing it.
\<close>

fun wtok :: "nat list \<Rightarrow> nat \<Rightarrow> worker_state \<Rightarrow> nat" where
  "wtok fds fd (Pending evs) = count_list evs (Some fd)"
| "wtok fds fd (Found r evs) = of_bool (fds ! r = fd) + count_list evs (Some fd)"
| "wtok fds fd (Running r evs) = of_bool (fds ! r = fd) + count_list evs (Some fd)"
| "wtok fds fd (Finishing r evs) = count_list evs (Some fd)"
| "wtok fds fd _ = 0"

fun ctok :: "nat \<Rightarrow> caller_state \<Rightarrow> nat" where
  "ctok fd (Registering f r) = of_bool (f = fd)"
| "ctok fd _ = 0"

definition tok_count :: "reactor \<Rightarrow> nat \<Rightarrow> nat" where
  "tok_count s fd = of_bool (fd \<in> ra_armed s) + sum_list (map (wtok (ra_fds s) fd) (ra_workers s)) + sum_list (map (ctok fd) (ra_callers s))"

fun due :: "reactor \<Rightarrow> nat \<Rightarrow> worker_state \<Rightarrow> bool" where
  "due s fd (Pending evs) \<longleftrightarrow> Some fd \<in> set evs \<and> ra_regs s fd \<noteq> None"
| "due s fd (Found r evs) \<longleftrightarrow> ra_fds s ! r = fd \<and> r \<notin> ra_dead s \<or> Some fd \<in> set evs \<and> ra_regs s fd \<noteq> None"
| "due s fd (Running r evs) \<longleftrightarrow> ra_fds s ! r = fd \<and> r \<notin> ra_dead s \<or> Some fd \<in> set evs \<and> ra_regs s fd \<noteq> None"
| "due s fd (Finishing r evs) \<longleftrightarrow> Some fd \<in> set evs \<and> ra_regs s fd \<noteq> None"
| "due s fd _ \<longleftrightarrow> False"

definition token_inv :: "reactor \<Rightarrow> bool" where
  "token_inv s \<longleftrightarrow> distinct (ra_fds s) \<and> (\<forall>fd. tok_count s fd \<le> of_bool (fd \<in> set (ra_fds s)))"

definition due_inv :: "reactor \<Rightarrow> bool" where
  "due_inv s \<longleftrightarrow> (\<forall>w \<in> set (ra_workers s). \<forall>fd. due s fd w \<longrightarrow> 0 < ra_queue s fd)"

lemma due_wtok: "due s fd w \<Longrightarrow> 0 < wtok (ra_fds s) fd w"
  by (cases w) (auto simp: neq0_conv [symmetric] count_list_0_iff simp del: neq0_conv)

lemma tokens_worker:
  assumes "i < length (ra_workers s)" "ra_workers s' = (ra_workers s)[i := w]" "ra_fds s' = ra_fds s" "ra_callers s' = ra_callers s"
    "of_bool (fd \<in> ra_armed s') + wtok (ra_fds s) fd w \<le> of_bool (fd \<in> ra_armed s) + wtok (ra_fds s) fd (ra_workers s ! i)"
  shows "tok_count s' fd \<le> tok_count s fd"
  using sum_list_map_update [OF assms(1), of "wtok (ra_fds s) fd" w] assms by (simp add: tok_count_def)

lemma tokens_caller:
  assumes "c < length (ra_callers s)" "ra_callers s' = (ra_callers s)[c := p]" "ra_fds s' = ra_fds s" "ra_workers s' = ra_workers s"
    "of_bool (fd \<in> ra_armed s') + ctok fd p \<le> of_bool (fd \<in> ra_armed s) + ctok fd (ra_callers s ! c)"
  shows "tok_count s' fd \<le> tok_count s fd"
  using sum_list_map_update [OF assms(1), of "ctok fd" p] assms by (simp add: tok_count_def)

lemma count_list_distinct: "distinct xs \<Longrightarrow> count_list xs x = of_bool (x \<in> set xs)"
  by (induction xs) auto

lemma tokens_register:
  assumes "worker_inv s" "register_start f s = Some s'"
  shows "tok_count s' fd = tok_count s fd + of_bool (f = fd)"
proof -
  have "wtok (ra_fds s @ [f]) fd w = wtok (ra_fds s) fd w" if "w \<in> set (ra_workers s)" for w
    using assms(1) that by (cases w) (auto simp: worker_inv_def nth_append)
  then have "map (wtok (ra_fds s @ [f]) fd) (ra_workers s) = map (wtok (ra_fds s) fd) (ra_workers s)"
    by simp
  then show ?thesis
    using assms(2) by (auto simp: register_start_def tok_count_def simp del: map_eq_conv split: if_splits)
qed

lemma ready_armed: "list_all (epoll_ready s) evs \<Longrightarrow> Some fd \<in> set evs \<Longrightarrow> fd \<in> ra_armed s \<and> 0 < ra_queue s fd"
  by (auto simp: list_all_iff epoll_ready_def dest: bspec [of _ _ "Some fd"])

lemma tokens_step:
  assumes I: "owner_inv s" and st: "ra_step e s = Some s'" and e: "\<And>f. e \<noteq> RvRegister f"
  shows "tok_count s' fd \<le> tok_count s fd"
proof (cases e)
  case (RvAdd c ok)
  with st show ?thesis
    by (auto simp: on_caller_def register_add_def intro!: tokens_caller [of c _ _ Returned] split: if_splits caller_state.splits)
next
  case (RvDelete c)
  with st show ?thesis
    by (auto simp: on_caller_def deregister_delete_def intro!: tokens_caller [of c] split: if_splits caller_state.splits option.splits)
next
  case (RvDead c)
  with st show ?thesis
    by (auto simp: on_caller_def deregister_dead_def intro!: tokens_caller [of c _ _ Returned] split: if_splits caller_state.splits)
next
  case (RvWait i evs)
  with st have i: "i < length (ra_workers s)" by (auto elim: on_workerE)
  show ?thesis using st RvWait
    by (auto simp: on_worker_def loop_wait_def set_worker_def count_list_distinct dest: ready_armed intro!: tokens_worker [OF i, of _ "Pending evs"] split: if_splits worker_state.splits)
next
  case (RvNext i)
  with st have i: "i < length (ra_workers s)" by (auto elim: on_workerE)
  show ?thesis using st RvNext owner_invD(3) [OF I]
    by (auto simp: on_worker_def loop_next_def set_worker_def intro!: tokens_worker [OF i]
        split: if_splits worker_state.splits list.splits option.splits)
next
  case (RvLock i)
  with st have i: "i < length (ra_workers s)" by (auto elim: on_workerE)
  show ?thesis using st RvLock
    by (auto simp: on_worker_def loop_lock_def set_worker_def intro!: tokens_worker [OF i] split: if_splits worker_state.splits)
next
  case (RvPump i n again)
  with st have i: "i < length (ra_workers s)" by (auto elim: on_workerE)
  show ?thesis using st RvPump
    by (auto simp: on_worker_def loop_pump_def set_worker_def rearm_def Let_def intro!: tokens_worker [OF i] split: if_splits worker_state.splits)
next
  case (RvUnlock i)
  with st have i: "i < length (ra_workers s)" by (auto elim: on_workerE)
  show ?thesis using st RvUnlock
    by (auto simp: on_worker_def loop_unlock_def set_worker_def intro!: tokens_worker [OF i] split: if_splits worker_state.splits)
next
  case (RvFail i)
  with st have i: "i < length (ra_workers s)" by (auto elim: on_workerE)
  show ?thesis using st RvFail
    by (auto simp: on_worker_def loop_fail_def set_worker_def intro!: tokens_worker [OF i] split: if_splits worker_state.splits)
qed (use st e in \<open>auto simp: tok_count_def deregister_start_def split: if_splits\<close>)

lemma token_inv_step:
  assumes T: "token_inv s" and I: "owner_inv s" and W: "worker_inv s" and st: "ra_step e s = Some s'"
    and new: "\<And>f. e = RvRegister f \<Longrightarrow> f \<notin> set (ra_fds s)"
  shows "token_inv s'"
proof (cases "\<exists>f. e = RvRegister f")
  case True
  then obtain f where f: "e = RvRegister f" "register_start f s = Some s'" using st by auto
  then have fds: "ra_fds s' = ra_fds s @ [f]" by (auto simp: register_start_def split: if_splits)
  have "tok_count s' fd \<le> of_bool (fd \<in> set (ra_fds s'))" for fd
    using T new [OF f(1)] unfolding token_inv_def tokens_register [OF W f(2)] fds
    by (cases "f = fd") (auto dest: spec [of _ fd])
  then show ?thesis using T new [OF f(1)] fds by (simp add: token_inv_def)
next
  case False
  have "ra_fds s' = ra_fds s"
    using st False
    by (cases e) (auto elim!: on_workerE dest!: worker_same_owner simp: same_owner_def on_caller_def register_add_def
        deregister_start_def deregister_delete_def deregister_dead_def split: if_splits caller_state.splits)
  then show ?thesis
    using T False order_trans [OF tokens_step [OF I st]] by (auto simp: token_inv_def)
qed

lemma due_mono:
  assumes "\<And>f. ra_regs s' f \<noteq> None \<Longrightarrow> ra_regs s f \<noteq> None" "ra_fds s' = ra_fds s" "ra_dead s \<subseteq> ra_dead s'"
  shows "due s' fd w \<Longrightarrow> due s fd w"
  using assms by (cases w) auto

lemma due_inv_mono:
  assumes "due_inv s" "ra_workers s' = ra_workers s" "\<And>w fd. w \<in> set (ra_workers s) \<Longrightarrow> due s' fd w \<Longrightarrow> due s fd w"
    "\<And>w fd. w \<in> set (ra_workers s) \<Longrightarrow> due s fd w \<Longrightarrow> ra_queue s fd \<le> ra_queue s' fd"
  shows "due_inv s'"
  using assms unfolding due_inv_def by (metis less_le_trans)

lemma due_inv_worker:
  assumes "due_inv s" "ra_workers s' = (ra_workers s)[i := w]" "same_owner s s'" "ra_queue s' = ra_queue s"
    "\<And>fd. due s fd w \<Longrightarrow> 0 < ra_queue s fd"
  shows "due_inv s'"
proof -
  have eq: "due s' fd v = due s fd v" for fd v
    using assms(3) by (cases v) (auto simp: same_owner_def)
  show ?thesis
    using assms(1,2,4,5) set_update_subset_insert [of "ra_workers s" i w] unfolding due_inv_def eq by auto
qed

lemma due_live:
  assumes "owner_inv s" "worker_inv s" "w \<in> set (ra_workers s)" "due s fd w"
  shows "fd \<in> ra_open s"
proof -
  have "reg_live s r \<Longrightarrow> ra_fds s ! r \<in> ra_open s" for r using owner_invD(5) [OF assms(1)] .
  moreover have "r \<notin> ra_dead s \<Longrightarrow> refers r w \<Longrightarrow> reg_live s r" for r
    using assms(2,3) by (auto simp: worker_inv_def reg_live_def)
  moreover have "ra_regs s fd \<noteq> None \<Longrightarrow> fd \<in> ra_open s" using owner_invD(4) [OF assms(1)] by auto
  ultimately show ?thesis using assms(4) by (cases w) auto
qed

lemma tokens_two:
  assumes "i < length (ra_workers s)" "j < length (ra_workers s)" "i \<noteq> j"
  shows "wtok (ra_fds s) fd (ra_workers s ! i) + wtok (ra_fds s) fd (ra_workers s ! j) \<le> tok_count s fd"
proof -
  let ?f = "wtok (ra_fds s) fd"
  have "sum_list (map ?f ((ra_workers s)[i := Waiting])) + ?f (ra_workers s ! i) = sum_list (map ?f (ra_workers s))"
    using sum_list_map_update [OF assms(1), of ?f Waiting] by simp
  moreover have "?f (ra_workers s ! j) \<le> sum_list (map ?f ((ra_workers s)[i := Waiting]))"
    using assms by (intro member_le_sum_list) (auto simp: in_set_conv_nth nth_list_update intro!: image_eqI [of _ ?f "ra_workers s ! j"] exI [of _ j])
  ultimately show ?thesis by (simp add: tok_count_def)
qed

lemma pump_due:
  assumes T: "token_inv s" and i: "i < length (ra_workers s)" and w: "ra_workers s ! i = Running r evs"
    and v: "v \<in> set ((ra_workers s)[i := Finishing r evs])"
  shows "\<not> due s (ra_fds s ! r) v"
proof
  assume due: "due s (ra_fds s ! r) v"
  obtain j where j: "j < length (ra_workers s)" "v = (ra_workers s)[i := Finishing r evs] ! j" using v by (auto simp: in_set_conv_nth)
  have le: "tok_count s (ra_fds s ! r) \<le> 1" using T by (auto simp: token_inv_def intro: order_trans)
  show False
  proof (cases "j = i")
    case True
    then have "2 \<le> wtok (ra_fds s) (ra_fds s ! r) (ra_workers s ! i)" using due_wtok [OF due] w j i by simp
    then show False using le member_le_sum_list [of "wtok (ra_fds s) (ra_fds s ! r) (ra_workers s ! i)" "map (wtok (ra_fds s) (ra_fds s ! r)) (ra_workers s)"] i
      by (simp add: tok_count_def)
  next
    case False
    then show False using tokens_two [OF i j(1), of "ra_fds s ! r"] due_wtok [OF due] w j le by simp
  qed
qed

lemma pump_due_inv:
  assumes D: "due_inv s" and T: "token_inv s" and i: "i < length (ra_workers s)"
    and w: "loop_pump i n again (ra_workers s ! i) s = Some s'"
  shows "due_inv s'"
proof -
  from w obtain r evs where r: "ra_workers s ! i = Running r evs" "ra_workers s' = (ra_workers s)[i := Finishing r evs]"
    "ra_queue s' = (ra_queue s)(ra_fds s ! r := ra_queue s (ra_fds s ! r) - n)"
    by (auto simp: loop_pump_def set_worker_def rearm_def Let_def split: worker_state.splits if_splits)
  have eq: "due s' fd v = due s fd v" for fd v
    using worker_same_owner(5) [OF w] by (cases v) (auto simp: same_owner_def)
  have "0 < ra_queue s fd" if "due s fd v" "v \<in> set ((ra_workers s)[i := Finishing r evs])" for fd v
  proof (cases "v = Finishing r evs")
    case True
    then have "due s fd (ra_workers s ! i)" using that(1) r(1) by simp
    then show ?thesis using D i by (auto simp: due_inv_def)
  next
    case False
    then show ?thesis using that D set_update_subset_insert [of "ra_workers s" i "Finishing r evs"] by (auto simp: due_inv_def)
  qed
  then show ?thesis
    using pump_due [OF T i r(1)] unfolding due_inv_def eq r(2,3) by auto
qed

lemma register_due_inv:
  assumes D: "due_inv s" and T: "token_inv s" and W: "worker_inv s" and reg: "register_start f s = Some s'" and new: "f \<notin> set (ra_fds s)"
  shows "due_inv s'"
proof -
  have "due s' fd w \<longrightarrow> due s fd w" if w: "w \<in> set (ra_workers s)" for w fd
  proof -
    have "tok_count s f = 0" using T new by (auto simp: token_inv_def dest: spec [of _ f])
    then have "wtok (ra_fds s) f w = 0" using w by (auto simp: tok_count_def)
    then show ?thesis using reg W w by (cases w) (auto simp: register_start_def worker_inv_def nth_append count_list_0_iff split: if_splits)
  qed
  then show ?thesis using reg by (intro due_inv_mono [OF D]) (auto simp: register_start_def split: if_splits)
qed

lemma due_inv_step:
  assumes D: "due_inv s" and T: "token_inv s" and I: "owner_inv s" and W: "worker_inv s" and st: "ra_step e s = Some s'"
    and new: "\<And>f. e = RvRegister f \<Longrightarrow> f \<notin> set (ra_fds s)"
  shows "due_inv s'"
proof -
  have old: "0 < ra_queue s fd" if "i < length (ra_workers s)" "due s fd (ra_workers s ! i)" for i fd
    using D that by (auto simp: due_inv_def)
  note upd = due_inv_worker [OF D]
  show ?thesis
  proof (cases e)
    case (RvOpen f)
    then show ?thesis using st due_live [OF I W]
      by (auto split: if_splits intro!: due_inv_mono [OF D] elim!: due_mono [rotated 3])
  next
    case (RvRegister f)
    then have reg: "register_start f s = Some s'" using st by simp
    show ?thesis using register_due_inv [OF D T W reg new [OF RvRegister]] .
  next
    case (RvWait i evs)
    with st have i: "i < length (ra_workers s)" and w: "loop_wait i evs (ra_workers s ! i) s = Some s'" by (auto elim: on_workerE)
    show ?thesis using w ready_armed worker_same_owner(1) [OF w]
      by (auto simp: loop_wait_def set_worker_def intro!: upd [of _ i "Pending evs"] split: if_splits worker_state.splits)
  next
    case (RvNext i)
    with st have i: "i < length (ra_workers s)" and w: "loop_next i (ra_workers s ! i) s = Some s'" by (auto elim: on_workerE)
    show ?thesis using w old [OF i] worker_same_owner(3) [OF w] owner_invD(3) [OF I]
      by (auto simp: loop_next_def set_worker_def intro!: upd [of _ i] split: if_splits worker_state.splits list.splits option.splits)
  next
    case (RvLock i)
    with st have i: "i < length (ra_workers s)" and w: "loop_lock i (ra_workers s ! i) s = Some s'" by (auto elim: on_workerE)
    show ?thesis using w old [OF i] worker_same_owner(4) [OF w]
      by (auto simp: loop_lock_def set_worker_def intro!: upd [of _ i] split: if_splits worker_state.splits)
  next
    case (RvPump i n again)
    with st have i: "i < length (ra_workers s)" and w: "loop_pump i n again (ra_workers s ! i) s = Some s'" by (auto elim: on_workerE)
    show ?thesis using pump_due_inv [OF D T i w] .
  next
    case (RvUnlock i)
    with st have i: "i < length (ra_workers s)" and w: "loop_unlock i (ra_workers s ! i) s = Some s'" by (auto elim: on_workerE)
    show ?thesis using w old [OF i] worker_same_owner(6) [OF w]
      by (auto simp: loop_unlock_def set_worker_def intro!: upd [of _ i] split: if_splits worker_state.splits)
  next
    case (RvFail i)
    with st have i: "i < length (ra_workers s)" and w: "loop_fail i (ra_workers s ! i) s = Some s'" by (auto elim: on_workerE)
    show ?thesis using w worker_same_owner(2) [OF w]
      by (auto simp: loop_fail_def set_worker_def intro!: upd [of _ i] split: if_splits worker_state.splits)
  qed (use st in \<open>auto simp: on_caller_def register_add_def deregister_start_def deregister_delete_def deregister_dead_def
      split: if_splits caller_state.splits intro!: due_inv_mono [OF D] elim!: due_mono [rotated 3]\<close>)
qed

fun registered :: "reactor_event list \<Rightarrow> nat list" where
  "registered (RvRegister fd # es) = fd # registered es"
| "registered (_ # es) = registered es"
| "registered [] = []"

lemma ra_step_fds: "ra_step e s = Some s' \<Longrightarrow> ra_fds s' = ra_fds s @ registered [e]"
  by (cases e) (auto elim!: on_workerE dest!: worker_same_owner simp: same_owner_def on_caller_def register_start_def register_add_def
        deregister_start_def deregister_delete_def deregister_dead_def split: if_splits caller_state.splits)

lemma registered_Cons: "registered (e # es) = registered [e] @ registered es"
  by (cases e) simp_all

lemma ra_run_due:
  assumes "ra_run s es = Some s'" "owner_inv s" "worker_inv s" "token_inv s" "due_inv s" "\<forall>c. RvAdd c False \<notin> set es"
    "distinct (ra_fds s @ registered es)"
  shows "due_inv s'"
  using assms
proof (induction es arbitrary: s)
  case (Cons e es)
  then obtain s1 where s1: "ra_step e s = Some s1" "ra_run s1 es = Some s'" by (auto split: option.splits)
  have new: "f \<notin> set (ra_fds s)" if "e = RvRegister f" for f using Cons.prems(7) that by simp
  have "owner_inv s1" using Cons.prems(6) by (intro owner_inv_step [OF Cons.prems(2) s1(1)]) auto
  moreover have "worker_inv s1" by (rule worker_inv_step [OF Cons.prems(3,2) s1(1)])
  moreover have "token_inv s1" using new by (rule token_inv_step [OF Cons.prems(4,2,3) s1(1)])
  moreover have "due_inv s1" using new by (rule due_inv_step [OF Cons.prems(5,4,2,3) s1(1)])
  moreover have "distinct (ra_fds s1 @ registered es)"
    using Cons.prems(7) unfolding ra_step_fds [OF s1(1)] registered_Cons [of e es] by simp
  ultimately show ?case using Cons.prems(6) by (intro Cons.IH [OF s1(2)]) auto
qed simp

lemma newUDPReactor_due: "token_inv (newUDPReactor n)" "due_inv (newUDPReactor n)"
  by (simp_all add: token_inv_def due_inv_def tok_count_def newUDPReactor_def sum_list_replicate)



section \<open>A descriptor number that is used again\<close>

definition stuck :: "nat \<Rightarrow> nat \<Rightarrow> nat \<Rightarrow> nat option list \<Rightarrow> reactor \<Rightarrow> bool" where
  "stuck i c r evs s \<longleftrightarrow> i < length (ra_workers s) \<and> c < length (ra_callers s) \<and> r < length (ra_fds s) \<and> ra_workers s ! i = Running r evs \<and>
     ra_callers s ! c = Deleted r \<and> ra_fds s ! r \<in> ra_open s \<and> ra_queue s (ra_fds s ! r) = 0"

lemma stuck_step:
  assumes S: "stuck i c r evs s" and st: "ra_step e s = Some s'" and e: "e \<noteq> RvArrive (ra_fds s ! r)"
  shows "stuck i c r evs s' \<and> ra_fds s' ! r = ra_fds s ! r"
proof -
  have "i < length (ra_workers s)" "c < length (ra_callers s)" using S by (simp_all add: stuck_def)
  then have mem: "ra_workers s ! i \<in> set (ra_workers s)" "ra_callers s ! c \<in> set (ra_callers s)" by simp_all
  have lock: "reg_locked s r" unfolding reg_locked_iff using S by (intro bexI [OF _ mem(1)]) (simp add: stuck_def)
  have busy: "fd_busy s (ra_fds s ! r)" unfolding fd_busy_def list_ex_iff using S by (intro bexI [OF _ mem(2)]) (simp add: stuck_def)
  show ?thesis
  proof (cases e)
    case (RvPump j n again)
    with st S show ?thesis
      by (cases "j = i") (auto simp: stuck_def on_worker_def loop_pump_def set_worker_def rearm_def Let_def split: if_splits worker_state.splits)
  next
    case (RvNext j)
    with st S show ?thesis
      by (cases "j = i") (auto simp: stuck_def on_worker_def loop_next_def set_worker_def split: if_splits worker_state.splits list.splits option.splits)
  next
    case (RvDead k)
    with st S lock show ?thesis
      by (cases "k = c") (auto simp: stuck_def on_caller_def deregister_dead_def nth_list_update split: if_splits caller_state.splits)
  next
    case (RvDelete k)
    with st S show ?thesis
      by (cases "k = c") (auto simp: stuck_def on_caller_def deregister_delete_def split: if_splits caller_state.splits)
  next
    case (RvAdd k ok)
    with st S show ?thesis
      by (cases "k = c") (auto simp: stuck_def on_caller_def register_add_def split: if_splits caller_state.splits)
  next
    case (RvWait j evs')
    with st S show ?thesis
      by (cases "j = i") (auto simp: stuck_def on_worker_def loop_wait_def set_worker_def split: if_splits worker_state.splits)
  next
    case (RvLock j)
    with st S show ?thesis
      by (cases "j = i") (auto simp: stuck_def on_worker_def loop_lock_def set_worker_def split: if_splits worker_state.splits)
  next
    case (RvUnlock j)
    with st S show ?thesis
      by (cases "j = i") (auto simp: stuck_def on_worker_def loop_unlock_def set_worker_def split: if_splits worker_state.splits)
  next
    case (RvFail j)
    with st S show ?thesis
      by (cases "j = i") (auto simp: stuck_def on_worker_def loop_fail_def set_worker_def split: if_splits worker_state.splits)
  qed (use st S e busy in \<open>auto simp: stuck_def register_start_def deregister_start_def nth_append split: if_splits\<close>)
qed

lemma stuck_run:
  assumes "ra_run s es = Some s'" "stuck i c r evs s" "RvArrive (ra_fds s ! r) \<notin> set es"
  shows "stuck i c r evs s' \<and> ra_fds s' ! r = ra_fds s ! r"
proof (rule ra_steps.run_invariant [OF assms(1)])
  show "stuck i c r evs t' \<and> ra_fds t' ! r = ra_fds s ! r"
    if "e \<in> set es" "stuck i c r evs t \<and> ra_fds t ! r = ra_fds s ! r" "ra_step e t = Some t'" for e t t'
    using that assms(3) stuck_step [of i c r evs t e t'] by auto
qed (use assms in simp)

definition reuse_trace :: "reactor_event list" where
  "reuse_trace = [RvOpen 3, RvOpen 4, RvRegister 3, RvAdd 0 True, RvRegister 4, RvAdd 1 True, RvArrive 3, RvArrive 4,
     RvWait 0 [Some 3, Some 4], RvUnmap 4, RvDelete 2, RvDead 2, RvCloseFd 4, RvOpen 4, RvRegister 4, RvAdd 3 True,
     RvNext 0, RvLock 0, RvPump 0 1 True, RvUnlock 0, RvNext 0, RvLock 0, RvUnmap 4, RvDelete 4]"

lemma reuse_run: "\<exists>s. ra_run (newUDPReactor 1) reuse_trace = Some s \<and> stuck 0 4 2 [] s \<and> ra_fds s ! 2 = 4"
  by (simp add: reuse_trace_def reactor_eval stuck_def)

text \<open>
  C38. Deregistration does not exclude the reuse of a descriptor: an event reported for a socket that has since been deregistered
  and closed runs the handler of the next socket with the same number, although that one has nothing to read. The worker then
  waits in the read with the registration locked, and a deregistration of that socket, which precedes its closing, waits with it,
  whatever happens elsewhere, until a datagram arrives.
\<close>

theorem stale_event_blocks_deregister:
  "\<exists>s. ra_run (newUDPReactor 1) reuse_trace = Some s \<and> ra_workers s ! 0 = Running 2 [] \<and> ra_queue s 4 = 0 \<and>
    (\<forall>es s'. ra_run s es = Some s' \<and> RvArrive 4 \<notin> set es \<longrightarrow>
       ra_workers s' ! 0 = Running 2 [] \<and> ra_callers s' ! 4 = Deleted 2 \<and> 4 \<in> ra_open s')"
proof -
  obtain s where s: "ra_run (newUDPReactor 1) reuse_trace = Some s" "stuck 0 4 2 [] s" "ra_fds s ! 2 = 4" using reuse_run by blast
  have "stuck 0 4 2 [] s' \<and> ra_fds s' ! 2 = 4" if "ra_run s es = Some s'" "RvArrive 4 \<notin> set es" for es s'
    using stuck_run [OF that(1) s(2)] that(2) s(3) by simp
  then show ?thesis using s unfolding stuck_def by (intro exI [of _ s]) fastforce
qed

theorem stale_event_blocks_deregister_witness:
  "\<exists>s s'. ra_run (newUDPReactor 1) reuse_trace = Some s \<and> ra_run s [RvArrive 3, RvShut, RvOpen 7] = Some s' \<and> ra_callers s' ! 4 = Deleted 2"
proof -
  obtain s where s: "ra_run (newUDPReactor 1) reuse_trace = Some s"
    "\<forall>es s'. ra_run s es = Some s' \<and> RvArrive 4 \<notin> set es \<longrightarrow>
       ra_workers s' ! 0 = Running 2 [] \<and> ra_callers s' ! 4 = Deleted 2 \<and> 4 \<in> ra_open s'"
    using stale_event_blocks_deregister by blast
  have "\<exists>s'. ra_run s [RvArrive 3, RvShut, RvOpen 7] = Some s'"
    using s(1) by (auto simp: reuse_trace_def reactor_eval)
  then obtain s' where s': "ra_run s [RvArrive 3, RvShut, RvOpen 7] = Some s'" by blast
  have "RvArrive 4 \<notin> set [RvArrive 3, RvShut, RvOpen 7]" by simp
  then have "ra_callers s' ! 4 = Deleted 2" using s' s(2) by blast
  then show ?thesis using s(1) s' by blast
qed

end
