(* ===== verification/Cli.thy ===== *)
theory Cli
  imports Config
begin

text \<open>
  Model of \<open>main.go\<close>: the flag variables with the defaults \<open>addBootArgsFlags\<close>, \<open>addAuthFlags\<close> and
  \<open>addTLSFlags\<close> register, \<open>buildBootArgs\<close>, the name of the proxy subcommand and the arguments the
  daemon commands re-execute the program with. The flag syntax itself belongs to the cobra library.
\<close>

section \<open>Definitions\<close>

record flags =
  flagLogLevel :: gostring
  flagBind :: gostring
  flagConcurrent :: u32
  flagWorkers :: int
  flagCIDR :: gostring
  flagCIDRRange :: byte
  flagFallback :: gostring
  flagConnectTimeout :: u64
  flagTCPUserTimeout :: u64
  flagReuseAddr :: bool
  flagMaxPendingDials :: int
  flagReusePort :: bool
  flagUDPMaxPacketSize :: int
  flagUDPBatchSize :: int
  flagUDPBatchBufferBudget :: int
  flagUDPSendQueueSize :: int
  flagUDPSendWorkers :: int
  flagUDPSocketBuffer :: int
  flagUDPGSO :: bool
  flagUDPGRO :: bool
  flagUDPMaxAssociations :: u32
  flagUDPMetricsInterval :: u64
  flagUDPAssociationIdleTime :: u64
  flagUsername :: gostring
  flagPassword :: gostring
  flagTLSCert :: gostring
  flagTLSKey :: gostring

text \<open>The values of the flag variables when no flag is given.\<close>

definition default_flags :: "gostring \<Rightarrow> flags" where
  "default_flags goos =
     \<lparr>flagLogLevel = bytes_of ''info'', flagBind = bytes_of ''127.0.0.1:1080'',
      flagConcurrent = 8192, flagWorkers = 0, flagCIDR = [], flagCIDRRange = 0,
      flagFallback = [], flagConnectTimeout = 10,
      flagTCPUserTimeout = (if goos = bytes_of ''linux'' then 30 else 0),
      flagReuseAddr = True, flagMaxPendingDials = 512, flagReusePort = False,
      flagUDPMaxPacketSize = 65507, flagUDPBatchSize = 32, flagUDPBatchBufferBudget = 1024,
      flagUDPSendQueueSize = 4096, flagUDPSendWorkers = 0, flagUDPSocketBuffer = 0,
      flagUDPGSO = False, flagUDPGRO = False, flagUDPMaxAssociations = 0,
      flagUDPMetricsInterval = 30, flagUDPAssociationIdleTime = 0,
      flagUsername = [], flagPassword = [], flagTLSCert = [], flagTLSKey = []\<rparr>"

definition base_args :: "flags \<Rightarrow> addr_port \<Rightarrow> BootArgs" where
  "base_args f bnd =
     \<lparr>ba_LogLevel = ParseLogLevel (flagLogLevel f), ba_Bind = bnd,
      ba_Concurrent = flagConcurrent f, ba_Workers = flagWorkers f,
      ba_CIDR = None, ba_CIDRRange = None, ba_Fallback = None,
      ba_ConnectTimeout = flagConnectTimeout f, ba_TCPUserTimeout = None,
      ba_ReuseAddr = Some (flagReuseAddr f), ba_MaxPendingDials = flagMaxPendingDials f,
      ba_ReusePort = flagReusePort f,
      ba_UDP = \<lparr>uc_MaxPacketSize = flagUDPMaxPacketSize f, uc_BatchSize = flagUDPBatchSize f,
        uc_BatchBufferBudget = flagUDPBatchBufferBudget f, uc_SendQueueSize = flagUDPSendQueueSize f,
        uc_SendWorkers = flagUDPSendWorkers f, uc_SocketBufferBytes = flagUDPSocketBuffer f,
        uc_MaxAssociations = flagUDPMaxAssociations f, uc_MetricsIntervalSecs = flagUDPMetricsInterval f,
        uc_AssociationIdleTimeoutSecs = flagUDPAssociationIdleTime f,
        uc_GSO = flagUDPGSO f, uc_GRO = flagUDPGRO f\<rparr>,
      ba_Proxy = \<lparr>pc_Kind = ProxyHTTP,
        pc_Auth = \<lparr>am_Username = flagUsername f, am_Password = flagPassword f\<rparr>,
        pc_TLSCert = [], pc_TLSKey = []\<rparr>\<rparr>"

definition with_cidr :: "flags \<Rightarrow> BootArgs \<Rightarrow> BootArgs res" where
  "with_cidr f args =
     (if flagCIDR f \<noteq> [] then
        (case ParsePrefix (flagCIDR f) of
           None \<Rightarrow> Inl (Message ''invalid CIDR'')
         | Some cidr \<Rightarrow>
            let args = args\<lparr>ba_CIDR := Some cidr\<rparr> in
            Inr (if flagCIDRRange f > 0 then args\<lparr>ba_CIDRRange := Some (flagCIDRRange f)\<rparr> else args))
      else Inr args)"

definition with_fallback :: "flags \<Rightarrow> BootArgs \<Rightarrow> BootArgs res" where
  "with_fallback f args =
     (if flagFallback f \<noteq> [] then
        (case ParseFallback (flagFallback f) of
           Inl e \<Rightarrow> Inl (Message ''invalid fallback'')
         | Inr fb \<Rightarrow> Inr (args\<lparr>ba_Fallback := Some fb\<rparr>))
      else Inr args)"

definition with_proxy :: "flags \<Rightarrow> gostring \<Rightarrow> BootArgs \<Rightarrow> BootArgs res" where
  "with_proxy f proxyName args =
     (let px = ba_Proxy args;
          tls = (\<lambda>k. args\<lparr>ba_Proxy := px\<lparr>pc_Kind := k, pc_TLSCert := flagTLSCert f, pc_TLSKey := flagTLSKey f\<rparr>\<rparr>)
      in if proxyName = bytes_of ''http'' then Inr (args\<lparr>ba_Proxy := px\<lparr>pc_Kind := ProxyHTTP\<rparr>\<rparr>)
      else if proxyName = bytes_of ''https'' then Inr (tls ProxyHTTPS)
      else if proxyName = bytes_of ''socks5'' then Inr (args\<lparr>ba_Proxy := px\<lparr>pc_Kind := ProxySocks5\<rparr>\<rparr>)
      else if proxyName = bytes_of ''auto'' then Inr (tls ProxyAuto)
      else Inl (Message ''unknown proxy type''))"

definition buildBootArgs :: "gostring \<Rightarrow> flags \<Rightarrow> gostring \<Rightarrow> BootArgs res" where
  "buildBootArgs goos f proxyName = (case ParseAddrPort (flagBind f) of
      None \<Rightarrow> Inl (Message ''invalid bind address'')
    | Some bnd \<Rightarrow> (case with_cidr f (base_args f bnd) of
        Inl e \<Rightarrow> Inl e
      | Inr args \<Rightarrow> (case with_fallback f args of
          Inl e \<Rightarrow> Inl e
        | Inr args \<Rightarrow>
           let args = (if goos = bytes_of ''linux''
                       then args\<lparr>ba_TCPUserTimeout := Some (flagTCPUserTimeout f)\<rparr> else args) in
           (case with_proxy f proxyName args of
              Inl e \<Rightarrow> Inl e
            | Inr args \<Rightarrow> (case Validate args of
                Inl e \<Rightarrow> Inl e
              | Inr _ \<Rightarrow> Inr args)))))"

text \<open>\<open>strings.Fields\<close> on the command path, whose separators are single spaces.\<close>

definition proxyNameFromArgs :: "gostring \<Rightarrow> gostring" where
  "proxyNameFromArgs path =
     (let parts = filter (\<lambda>p. p \<noteq> []) (split_on 32 path) in
      if 2 \<le> length parts then last parts else [])"

definition buildRunArgsFromOSArgs :: "gostring list \<Rightarrow> gostring list" where
  "buildRunArgsFromOSArgs os_args =
     [bytes_of ''run''] @ (if length os_args > 2 then drop 2 os_args else [])"

section \<open>Lemmas\<close>

lemma with_cidr_Inr:
  assumes "with_cidr f a = Inr b"
  shows "ba_CIDR b = ba_CIDR a \<or> ba_CIDR b = ParsePrefix (flagCIDR f)"
  using assms by (auto simp: with_cidr_def Let_def split: if_splits option.splits)

lemma with_fallback_cidr: "with_fallback f a = Inr b \<Longrightarrow> ba_CIDR b = ba_CIDR a"
  by (auto simp: with_fallback_def split: if_splits sum.splits)

lemma with_proxy_cidr: "with_proxy f n a = Inr b \<Longrightarrow> ba_CIDR b = ba_CIDR a"
  by (auto simp: with_proxy_def Let_def split: if_splits)

lemma buildBootArgs_ok:
  assumes "buildBootArgs goos f n = Inr args"
  shows "boot_ok args" "\<And>c. ba_CIDR args = Some c \<Longrightarrow> prefix_valid c"
proof -
  show "boot_ok args"
    using assms by (auto simp: buildBootArgs_def Let_def Validate_iff [symmetric]
        split: option.splits sum.splits)
  fix c assume c: "ba_CIDR args = Some c"
  obtain bnd a1 a2 a3 where st: "with_cidr f (base_args f bnd) = Inr a1" "with_fallback f a1 = Inr a2"
    "with_proxy f n a3 = Inr args" "ba_CIDR a3 = ba_CIDR a2"
    using assms by (auto simp: buildBootArgs_def Let_def split: option.splits sum.splits if_splits)
  then have "ba_CIDR a1 = Some c" using c with_fallback_cidr with_proxy_cidr by metis
  moreover have "ba_CIDR (base_args f bnd) = None" by (simp add: base_args_def)
  ultimately show "prefix_valid c" using with_cidr_Inr [OF st(1)] ParsePrefix_valid by auto
qed

lemma parse_port_sample: "ParseUint 16 [49, 48, 56, 48] = Some 1080"
  by (simp add: ParseUint_def digits_value_def is_digit_def)

lemma parse_bits_sample: "ParseUint 63 [51, 50] = Some 32"
  by (simp add: ParseUint_def digits_value_def is_digit_def)

lemma parse_bind_sample:
  "ParseAddrPort (bytes_of ''127.0.0.1:1080'') = Some (AddrPortFrom (V4 0x7f000001) 1080)"
proof -
  have "cut_last 58 (bytes_of ''127.0.0.1:1080'') = Some (bytes_of ''127.0.0.1'', [49, 48, 56, 48])"
    "bytes_of ''127.0.0.1'' \<noteq> []" "hd (bytes_of ''127.0.0.1'') \<noteq> 91"
    "ParseAddr (bytes_of ''127.0.0.1'') = Some (V4 0x7f000001)"
    by code_simp+
  then show ?thesis by (simp add: ParseAddrPort_def parse_port_sample)
qed

lemma parse_cidr_sample:
  "ParsePrefix (bytes_of ''2001:db8::/32'') =
     Some \<lparr>pf_addr = V6 0x20010db8000000000000000000000000 [], pf_bits = 32\<rparr>"
proof -
  have "cut_last 47 (bytes_of ''2001:db8::/32'') = Some (bytes_of ''2001:db8::'', [51, 50])"
    "ParseAddr (bytes_of ''2001:db8::'') = Some (V6 0x20010db8000000000000000000000000 [])"
    by code_simp+
  then show ?thesis by (simp add: ParsePrefix_def parse_bits_sample BitLen_def)
qed

lemma parse_samples:
  "ParseLogLevel (bytes_of ''info'') = bytes_of ''INFO''"
  "bytes_of ''2001:db8::/32'' \<noteq> []" "bytes_of ''socks5'' \<noteq> bytes_of ''http''"
  "bytes_of ''socks5'' \<noteq> bytes_of ''https''"
  by code_simp+

lemmas build_defs = buildBootArgs_def with_cidr_def with_fallback_def with_proxy_def base_args_def
  default_flags_def DefaultBootArgs_def DefaultUDPConfig_def
  parse_samples parse_bind_sample parse_cidr_sample Let_def

section \<open>Properties\<close>

text \<open>
  A configuration that \<open>buildBootArgs\<close> accepts satisfies every cross-field constraint, its CIDR is a
  valid prefix without zone, and its proxy kind is the one the subcommand names.
\<close>

theorem buildBootArgs_sound:
  assumes "buildBootArgs goos f proxyName = Inr args"
  shows "boot_ok args \<and> (\<forall>c. ba_CIDR args = Some c \<longrightarrow> prefix_valid c) \<and>
    (proxyName, pc_Kind (ba_Proxy args)) \<in>
      {(bytes_of ''http'', ProxyHTTP), (bytes_of ''https'', ProxyHTTPS),
       (bytes_of ''socks5'', ProxySocks5), (bytes_of ''auto'', ProxyAuto)}"
proof -
  have "(proxyName, pc_Kind (ba_Proxy args)) \<in>
      {(bytes_of ''http'', ProxyHTTP), (bytes_of ''https'', ProxyHTTPS),
       (bytes_of ''socks5'', ProxySocks5), (bytes_of ''auto'', ProxyAuto)}"
    using assms
    by (auto simp: buildBootArgs_def with_proxy_def Let_def split: option.splits sum.splits if_splits)
  then show ?thesis using buildBootArgs_ok [OF assms] by blast
qed

theorem buildBootArgs_sound_witness:
  "\<exists>args. buildBootArgs (bytes_of ''linux'')
      ((default_flags (bytes_of ''linux''))\<lparr>flagCIDR := bytes_of ''2001:db8::/32'', flagCIDRRange := 48\<rparr>)
      (bytes_of ''socks5'') = Inr args \<and> boot_ok args \<and> pc_Kind (ba_Proxy args) = ProxySocks5"
proof -
  let ?f = "(default_flags (bytes_of ''linux''))\<lparr>flagCIDR := bytes_of ''2001:db8::/32'', flagCIDRRange := 48\<rparr>"
  obtain args where "buildBootArgs (bytes_of ''linux'') ?f (bytes_of ''socks5'') = Inr args"
    "pc_Kind (ba_Proxy args) = ProxySocks5"
    by (simp add: build_defs Validate_def BitLen_def)
  then show ?thesis using buildBootArgs_sound by blast
qed

text \<open>
  Run without flags on Linux, the command line gives the values of \<open>DefaultBootArgs\<close> except for
  two fields: the log level is already normalised and the TCP user timeout is 30 seconds instead of
  unset.
\<close>

theorem default_flags_vs_DefaultBootArgs:
  "buildBootArgs (bytes_of ''linux'') (default_flags (bytes_of ''linux'')) (bytes_of ''http'') =
     Inr (DefaultBootArgs\<lparr>ba_LogLevel := bytes_of ''INFO'', ba_TCPUserTimeout := Some 30\<rparr>)"
  by (simp add: build_defs Validate_def)

end
