(* ===== verification/GoStrings.thy ===== *)
theory GoStrings
  imports NetipParse
begin

text \<open>
  The functions of \<open>strings\<close>, \<open>strconv\<close> and \<open>path/filepath\<close> that several components call, beyond those of the prelude:
  trimming of white space, signed integers and the last element of a path.
\<close>

section \<open>Definitions\<close>

text \<open>\<open>strings.TrimSpace\<close>, with the UTF-8 encodings of the white space characters.\<close>

definition white_space :: "byte list list" where
  "white_space = [[9], [10], [11], [12], [13], [32], [0xC2, 0x85], [0xC2, 0xA0], [0xE1, 0x9A, 0x80],
     [0xE2, 0x80, 0x80], [0xE2, 0x80, 0x81], [0xE2, 0x80, 0x82], [0xE2, 0x80, 0x83], [0xE2, 0x80, 0x84], [0xE2, 0x80, 0x85],
     [0xE2, 0x80, 0x86], [0xE2, 0x80, 0x87], [0xE2, 0x80, 0x88], [0xE2, 0x80, 0x89], [0xE2, 0x80, 0x8A], [0xE2, 0x80, 0xA8],
     [0xE2, 0x80, 0xA9], [0xE2, 0x80, 0xAF], [0xE2, 0x81, 0x9F], [0xE3, 0x80, 0x80]]"

function trim_left :: "byte list list \<Rightarrow> gostring \<Rightarrow> gostring" where
  "trim_left ws s = (case find (\<lambda>w. w \<noteq> [] \<and> HasPrefix s w) ws of None \<Rightarrow> s | Some w \<Rightarrow> trim_left ws (drop (length w) s))"
  by pat_completeness auto
termination
  by (relation "measure (\<lambda>(ws, s). length s)") (auto simp: find_Some_iff HasPrefix_def prefix_def)

declare trim_left.simps [simp del]

definition TrimSpace :: "gostring \<Rightarrow> gostring" where
  "TrimSpace s = rev (trim_left (map rev white_space) (rev (trim_left white_space s)))"

text \<open>\<open>strconv.Atoi\<close>: an optional sign and decimal digits, within 64 bits.\<close>

definition Atoi :: "gostring \<Rightarrow> int option" where
  "Atoi s = (let neg = HasPrefix s [45]; ds = (if neg \<or> HasPrefix s [43] then tl s else s) in
     case ParseUint 64 ds of
       None \<Rightarrow> None
     | Some n \<Rightarrow> if neg then (if n \<le> 2 ^ 63 then Some (- int n) else None)
         else (if n < 2 ^ 63 then Some (int n) else None))"

text \<open>\<open>fmt.Sprintf("%d", n)\<close> for a natural number.\<close>

fun decimal :: "nat \<Rightarrow> gostring" where
  "decimal n = (if n < 10 then [48 + of_nat n] else decimal (n div 10) @ [48 + of_nat (n mod 10)])"

declare decimal.simps [simp del]

text \<open>\<open>filepath.Base\<close>: what follows the last slash, trailing slashes removed; \<open>.\<close> for the empty path.\<close>

definition filepath_Base :: "gostring \<Rightarrow> gostring" where
  "filepath_Base path =
     (if path = [] then [46]
      else let p = rev (dropWhile (\<lambda>b. b = 47) (rev path))
           in if p = [] then [47] else last (split_on 47 p))"

section \<open>Decimal numbers\<close>

lemma digit_byte:
  assumes "n < 10"
  shows "is_digit (48 + of_nat n)" "unat (48 + of_nat n :: byte) - 48 = n"
proof -
  have "unat (48 + of_nat n :: byte) = 48 + n"
    using assms by (simp add: unat_word_ariths unat_of_nat)
  then show "is_digit (48 + of_nat n)" "unat (48 + of_nat n :: byte) - 48 = n"
    using assms by (simp_all add: is_digit_def word_le_nat_alt)
qed

lemma decimal_digits: "decimal n \<noteq> [] \<and> list_all is_digit (decimal n) \<and> digits_value (decimal n) = n"
proof (induction n rule: decimal.induct)
  case (1 n)
  show ?case
  proof (cases "n < 10")
    case True
    then show ?thesis using digit_byte [OF True] by (simp add: decimal.simps [of n] digits_value_def)
  next
    case False
    then show ?thesis using 1 [OF False] digit_byte [of "n mod 10"] by (simp add: decimal.simps [of n] digits_value_def)
  qed
qed

lemma Atoi_decimal:
  assumes "n < 2 ^ 63"
  shows "Atoi (decimal n) = Some (int n)"
proof -
  obtain d ds where d: "decimal n = d # ds" "is_digit d" using decimal_digits [of n] by (cases "decimal n") auto
  then have "d \<noteq> 45" "d \<noteq> 43" by (auto simp: is_digit_def)
  then show ?thesis
    using decimal_digits [of n] assms d(1) by (auto simp: Atoi_def HasPrefix_def ParseUint_def Let_def)
qed

end
