(* ===== verification/ProcStatus.thy ===== *)
theory ProcStatus
  imports GoStrings
begin

text \<open>
  Model of \<open>printLinuxProcessStatus\<close> of \<open>internal/daemon\<close>: what is read from \<open>/proc\<close> about the daemon. The percentage and the megabytes that are
  printed are floating point functions of the numbers of \<open>proc_status\<close>.
\<close>

section \<open>Definitions\<close>

datatype disk_file = Missing | Unreadable | Content gostring

text \<open>\<open>strings.Fields\<close>: the parts between white space; \<open>cur\<close> is the part being read.\<close>

function fields_loop :: "gostring \<Rightarrow> gostring \<Rightarrow> gostring list" where
  "fields_loop cur s = (case s of
      [] \<Rightarrow> if cur = [] then [] else [cur]
    | c # cs \<Rightarrow>
       (case find (\<lambda>w. w \<noteq> [] \<and> HasPrefix s w) white_space of
          Some w \<Rightarrow> (if cur = [] then [] else [cur]) @ fields_loop [] (drop (length w) s)
        | None \<Rightarrow> fields_loop (cur @ [c]) cs))"
  by pat_completeness auto
termination
  by (relation "measure (\<lambda>(cur, s). length s)") (auto simp: find_Some_iff HasPrefix_def prefix_def)

declare fields_loop.simps [simp del]

definition Fields :: "gostring \<Rightarrow> gostring list" where
  "Fields s = fields_loop [] s"

text \<open>\<open>n, _ := strconv.ParseUint(s, 10, 64)\<close>: zero for what is no number, the largest number when it is out of range.\<close>

fun parse_uint_loop :: "u64 \<Rightarrow> gostring \<Rightarrow> u64" where
  "parse_uint_loop n [] = n"
| "parse_uint_loop n (c # cs) =
     (if \<not> is_digit c then 0
      else if 1844674407370955162 \<le> n then - 1
      else let n = n * 10; n1 = n + ucast (c - 48) in if n1 < n then - 1 else parse_uint_loop n1 cs)"

definition ParseUint_or_zero :: "gostring \<Rightarrow> u64" where
  "ParseUint_or_zero s = parse_uint_loop 0 s"

text \<open>\<open>s[strings.LastIndex(s, ")")+1:]\<close>, when there is one.\<close>

definition after_last_paren :: "gostring \<Rightarrow> gostring option" where
  "after_last_paren s = (if 41 \<in> set s then Some (last (split_on 41 s)) else None)"

record proc_status =
  ps_pid :: int
  ps_totalTime :: u64
  ps_starttime :: u64
  ps_uptime :: gostring
  ps_memKB :: u64

datatype proc_error = ReadStat | StatFormat | MalformedStat | StatFields | ReadUptime | MalformedUptime | ReadStatus

fun mem_loop :: "gostring list \<Rightarrow> u64" where
  "mem_loop [] = 0"
| "mem_loop (l # ls) =
     (if HasPrefix l (bytes_of ''VmRSS:'') then (let fields = Fields l in if 2 \<le> length fields then ParseUint_or_zero (fields ! 1) else 0)
      else mem_loop ls)"

definition printLinuxProcessStatus :: "disk_file \<Rightarrow> disk_file \<Rightarrow> disk_file \<Rightarrow> int \<Rightarrow> proc_error + proc_status" where
  "printLinuxProcessStatus stat uptime status pid = (case stat of
      Content statStr \<Rightarrow>
       if length (Fields statStr) < 20 then Inl StatFormat
       else (case after_last_paren statStr of
          None \<Rightarrow> Inl MalformedStat
        | Some tail \<Rightarrow>
           let rest = Fields tail in
           if length rest < 20 then Inl StatFields
           else let utime = ParseUint_or_zero (rest ! 11); stime = ParseUint_or_zero (rest ! 12); starttime = ParseUint_or_zero (rest ! 19) in
           (case uptime of
              Content uptimeData \<Rightarrow>
               (case Fields uptimeData of
                  [] \<Rightarrow> Inl MalformedUptime
                | up # _ \<Rightarrow>
                   (case status of
                      Content statusData \<Rightarrow>
                        Inr \<lparr>ps_pid = pid, ps_totalTime = utime + stime, ps_starttime = starttime, ps_uptime = up, ps_memKB = mem_loop (split_on 10 statusData)\<rparr>
                    | _ \<Rightarrow> Inl ReadStatus))
            | _ \<Rightarrow> Inl ReadUptime))
    | _ \<Rightarrow> Inl ReadStat)"

section \<open>Fields\<close>

lemma split_on_no_sep: "c \<notin> set s \<Longrightarrow> split_on c s = [s]"
  by (induction s) auto

lemma split_on_ne [simp]: "split_on c s \<noteq> []"
  by (induction s) (auto split: list.splits)

abbreviation space_at :: "gostring \<Rightarrow> gostring option" where
  "space_at s \<equiv> find (\<lambda>w. w \<noteq> [] \<and> HasPrefix s w) white_space"

lemma fields_loop_end: "fields_loop cur [] = (if cur = [] then [] else [cur])"
  by (simp add: fields_loop.simps)

lemma fields_loop_space: "space_at (c # cs) = Some w \<Longrightarrow> fields_loop cur (c # cs) = (if cur = [] then [] else [cur]) @ fields_loop [] (drop (length w) (c # cs))"
  by (subst fields_loop.simps) simp

lemma fields_loop_char: "space_at (c # cs) = None \<Longrightarrow> fields_loop cur (c # cs) = fields_loop (cur @ [c]) cs"
  by (subst fields_loop.simps) simp

lemma fields_loop_cur: "cur \<noteq> [] \<Longrightarrow> cur' \<noteq> [] \<Longrightarrow> length (fields_loop cur s) = length (fields_loop cur' s)"
proof (induction s arbitrary: cur cur')
  case (Cons c cs)
  show ?case using Cons.IH [of "cur @ [c]" "cur' @ [c]"] Cons.prems
    by (cases "space_at (c # cs)") (simp_all add: fields_loop_space fields_loop_char del: find.simps)
qed (simp add: fields_loop_end)

lemma fields_loop_Nil_le: "length (fields_loop [] s) \<le> length (fields_loop cur s)"
proof (cases s)
  case (Cons c cs)
  then show ?thesis using fields_loop_cur [of "[c]" "cur @ [c]" cs]
    by (cases "space_at (c # cs)") (simp_all add: fields_loop_space fields_loop_char del: find.simps)
qed (simp add: fields_loop_end)

lemma white_space_paren: "w \<in> set white_space \<Longrightarrow> 41 \<notin> set w"
  by (auto simp: white_space_def)

lemma space_before_paren:
  assumes "space_at (a @ 41 # s) = Some w"
  shows "0 < length w" "length w \<le> length a"
proof -
  have w: "w \<noteq> []" "HasPrefix (a @ 41 # s) w" "w \<in> set white_space" using assms by (auto simp: find_Some_iff)
  then show "0 < length w" by simp
  obtain t where t: "a @ 41 # s = w @ t" using w(2) by (auto simp: HasPrefix_def prefix_def)
  show "length w \<le> length a"
  proof (rule ccontr)
    assume l: "\<not> length w \<le> length a"
    have "(a @ 41 # s) ! length a = 41" by simp
    then have "w ! length a = 41" using l unfolding t by (simp add: nth_append)
    then have "41 \<in> set w" using l by (metis nth_mem not_le)
    then show False using white_space_paren [OF w(3)] by simp
  qed
qed

lemma fields_loop_after: "length (fields_loop [] s) \<le> length (fields_loop cur (a @ 41 # s))"
proof (induction "length a" arbitrary: a cur rule: less_induct)
  case less
  obtain c cs where a: "a @ 41 # s = c # cs" by (cases a) auto
  show ?case
  proof (cases "space_at (c # cs)")
    case None
    then have step: "fields_loop cur (a @ 41 # s) = fields_loop (cur @ [c]) cs" unfolding a by (rule fields_loop_char)
    show ?thesis
    proof (cases a)
      case Nil
      then show ?thesis using a step fields_loop_Nil_le [of s "cur @ [c]"] by simp
    next
      case (Cons d ds)
      then show ?thesis using a step less [of ds "cur @ [c]"] by auto
    qed
  next
    case (Some w)
    have w: "0 < length w" "length w \<le> length a" using space_before_paren Some unfolding a [symmetric] by blast+
    have "length (fields_loop [] s) \<le> length (fields_loop [] (drop (length w) a @ 41 # s))" by (rule less) (use w in \<open>simp add: diff_less del: length_greater_0_conv\<close>)
    moreover have "drop (length w) (c # cs) = drop (length w) a @ 41 # s" unfolding a [symmetric] using w(2) by simp
    ultimately show ?thesis unfolding a using fields_loop_space [OF Some, of cur] by simp
  qed
qed

section \<open>The status line\<close>

lemma split_on_append: "split_on c (a @ c # s) = split_on c a @ split_on c s"
  by (induction a) (auto split: list.splits)

lemma last_split_on_sep: "c \<notin> set s \<Longrightarrow> last (split_on c (a @ c # s)) = s"
  by (simp add: split_on_append split_on_no_sep)

text \<open>
  The numbers are read from the right fields whatever the name of the process is, also when it has spaces and
  parentheses: in \<open>/proc/<pid>/stat\<close> the name is followed by a parenthesis that is the last one of the line.
\<close>

theorem proc_status_any_name:
  assumes "41 \<notin> set tail" "20 \<le> length (Fields tail)" "Fields up = u # us"
  shows "printLinuxProcessStatus (Content (before_name @ name @ [41] @ tail)) (Content up) (Content status) pid =
    Inr \<lparr>ps_pid = pid, ps_totalTime = ParseUint_or_zero (Fields tail ! 11) + ParseUint_or_zero (Fields tail ! 12),
      ps_starttime = ParseUint_or_zero (Fields tail ! 19), ps_uptime = u, ps_memKB = mem_loop (split_on 10 status)\<rparr>"
proof -
  have "20 \<le> length (Fields ((before_name @ name) @ 41 # tail))"
    using fields_loop_after [of tail "[]" "before_name @ name"] assms(2) by (simp add: Fields_def)
  then show ?thesis using assms last_split_on_sep [OF assms(1), of "before_name @ name"] by (simp add: printLinuxProcessStatus_def after_last_paren_def Let_def)
qed

text \<open>\<open>ParseUint_or_zero\<close> is \<open>ParseUint\<close> on what that accepts.\<close>

lemma digits_mono: "m \<le> foldl (\<lambda>acc b. 10 * acc + (unat b - 48)) m (s :: gostring)"
proof (induction s arbitrary: m)
  case (Cons c s)
  have "m \<le> 10 * m + (unat c - 48)" by simp
  also note Cons.IH [of "10 * m + (unat c - 48)"]
  finally show ?case by simp
qed simp

lemma parse_uint_loop_digits:
  "list_all is_digit s \<Longrightarrow> foldl (\<lambda>acc b. 10 * acc + (unat b - 48)) (unat n) s < 2 ^ 64 \<Longrightarrow>
   unat (parse_uint_loop n s) = foldl (\<lambda>acc b. 10 * acc + (unat b - 48)) (unat n) s"
proof (induction s arbitrary: n)
  case (Cons c s)
  let ?m = "10 * unat n + (unat c - 48)"
  have m: "?m < 2 ^ 64" using digits_mono [of ?m s] Cons.prems(2) by simp
  have c: "48 \<le> c" "c \<le> 57" using Cons.prems(1) by (simp_all add: is_digit_def)
  have u: "unat (c - 48) = unat c - 48" using c(1) by (simp add: unat_sub)
  have "unat c \<le> 57" using c(2) by (simp add: word_le_nat_alt)
  then have d: "unat (ucast (c - 48) :: u64) = unat c - 48"
    using u by (simp add: unsigned_ucast_eq take_bit_nat_eq_self)
  have n10: "unat (n * 10) = unat n * 10" using m by (simp add: unat_word_ariths)
  have n1: "unat (n * 10 + ucast (c - 48)) = ?m" using m d n10 by (simp add: unat_word_ariths)
  have "\<not> 1844674407370955162 \<le> n" using m by (simp add: word_le_nat_alt)
  moreover have "\<not> n * 10 + ucast (c - 48) < n * 10" using n1 n10 by (simp add: word_less_nat_alt)
  ultimately show ?case using Cons.IH [of "n * 10 + ucast (c - 48)"] Cons.prems n1 by (simp add: Let_def)
qed simp

lemma ParseUint_or_zero_eq: "ParseUint 64 s = Some n \<Longrightarrow> unat (ParseUint_or_zero s) = n"
  using parse_uint_loop_digits [of s 0] by (auto simp: ParseUint_def ParseUint_or_zero_def digits_value_def split: if_splits)

end
