(* ===== verification/Daemon.thy ===== *)
theory Daemon
  imports ProcStatus
begin

text \<open>
  Model of \<open>internal/daemon\<close> on Unix: the pid file, \<open>Start\<close>, \<open>Stop\<close>, \<open>Restart\<close>, \<open>Status\<close>, \<open>Log\<close>;
  the warnings about a pid file that cannot be removed or a foreign process are left out. The answers of the operating system (which
  processes exist when, what their names are, which file operations succeed) are parameters; time is in milliseconds. A call that ends
  the process with \<open>os.Exit\<close> gives \<open>None\<close>.
\<close>

section \<open>Definitions\<close>

definition binName :: gostring where
  "binName = bytes_of ''outway''"

datatype daemon_error =
    ReadPidFile
  | ParsePid
  | CreateStdout
  | CreateStderr
  | WritePidFile
  | ExitedDuringStartup gostring
  | ReadLog
  | ProcError proc_error

datatype errno = ESRCH | EPERM | EINVAL

datatype signal = Signal0 | SIGINT

datatype daemon_output = AlreadyRunning int | StartedWith int | NotRunning | StatusOf proc_status | StatusPid int | LogLine gostring

text \<open>The state: the three files, what was printed and which signals were sent, with their times.\<close>

record daemon_state =
  ds_pidFile :: disk_file
  ds_stdoutFile :: disk_file
  ds_stderrFile :: disk_file
  ds_out :: "daemon_output list"
  ds_signals :: "(nat \<times> int) list"

text \<open>
  \<open>dv_kill t pid sig\<close> is the result of \<open>kill\<close> at time \<open>t\<close>, \<open>dv_comm t pid\<close> the file \<open>/proc/<pid>/comm\<close>; \<open>dv_stat\<close>, \<open>dv_uptime\<close> and \<open>dv_status\<close> are the
  other files of \<open>/proc\<close>. \<open>dv_stderr t\<close> is what the child
  has written to its standard error by then, \<open>dv_late i\<close> the time the \<open>i\<close>-th sleep takes beyond what was asked for.
\<close>

record daemon_env =
  dv_root :: bool
  dv_linux :: bool
  dv_kill :: "nat \<Rightarrow> int \<Rightarrow> signal \<Rightarrow> errno option"
  dv_comm :: "nat \<Rightarrow> int \<Rightarrow> disk_file"
  dv_stat :: "int \<Rightarrow> disk_file"
  dv_uptime :: disk_file
  dv_status :: "int \<Rightarrow> disk_file"
  dv_remove :: "errno option"
  dv_openStdout :: "errno option"
  dv_openStderr :: "errno option"
  dv_writePid :: "errno option"
  dv_spawn :: "nat option"
  dv_stderr :: "nat \<Rightarrow> gostring"
  dv_late :: "nat \<Rightarrow> nat"

definition processAlive :: "daemon_env \<Rightarrow> nat \<Rightarrow> int \<Rightarrow> bool" where
  "processAlive en t pid \<longleftrightarrow> dv_kill en t pid Signal0 \<noteq> Some ESRCH"

definition remove_pid_file :: "daemon_env \<Rightarrow> daemon_state \<Rightarrow> daemon_state" where
  "remove_pid_file en s = (if dv_remove en = None then s\<lparr>ds_pidFile := Missing\<rparr> else s)"

definition PID :: "daemon_env \<Rightarrow> nat \<Rightarrow> daemon_state \<Rightarrow> (daemon_error + int) \<times> daemon_state" where
  "PID en t s = (case ds_pidFile s of
      Missing \<Rightarrow> (Inr 0, s)
    | Unreadable \<Rightarrow> (Inl ReadPidFile, s)
    | Content data \<Rightarrow>
       (case Atoi (TrimSpace data) of
          None \<Rightarrow> (Inl ParsePid, s)
        | Some pid \<Rightarrow>
           if \<not> processAlive en t pid then (Inr 0, remove_pid_file en s)
           else if dv_linux en then
             (case dv_comm en t pid of
                Content name \<Rightarrow>
                 (let n = TrimSpace name
                  in if n \<noteq> binName \<and> \<not> HasPrefix n binName then (Inr 0, remove_pid_file en s) else (Inr pid, s))
              | _ \<Rightarrow> (Inr pid, s))
           else (Inr pid, s)))"

text \<open>\<open>pid, _ := d.PID()\<close>: an error leaves the pid at zero.\<close>

definition PID_or_zero :: "daemon_env \<Rightarrow> nat \<Rightarrow> daemon_state \<Rightarrow> int \<times> daemon_state" where
  "PID_or_zero en t s = (case PID en t s of (Inl _, s) \<Rightarrow> (0, s) | (Inr pid, s) \<Rightarrow> (pid, s))"

text \<open>\<open>stopProcess\<close> with \<open>n\<close> attempts left; the sleep between two attempts is a second.\<close>

fun stop_loop :: "daemon_env \<Rightarrow> nat \<Rightarrow> nat \<Rightarrow> int \<Rightarrow> (nat \<times> int) list" where
  "stop_loop en 0 t pid = []"
| "stop_loop en (Suc n) t pid =
     (if dv_kill en t pid SIGINT \<noteq> None then []
      else if \<not> processAlive en t pid then [(t, pid)]
      else (t, pid) # stop_loop en n (t + 1000) pid)"

definition stopProcess :: "daemon_env \<Rightarrow> nat \<Rightarrow> int \<Rightarrow> (nat \<times> int) list" where
  "stopProcess en t pid = stop_loop en 360 t pid"

definition Stop :: "daemon_env \<Rightarrow> nat \<Rightarrow> daemon_state \<Rightarrow> daemon_state option" where
  "Stop en t s =
     (if \<not> dv_root en then None
      else case PID_or_zero en t s of (pid, s) \<Rightarrow>
        Some (remove_pid_file en (if pid \<noteq> 0 then s\<lparr>ds_signals := ds_signals s @ stopProcess en t pid\<rparr> else s)))"

text \<open>\<open>waitForStartup\<close>: the child is looked at every 50 milliseconds until the deadline.\<close>

definition startup_message :: "gostring \<Rightarrow> gostring" where
  "startup_message data = TrimSpace (if 4096 < length data then drop (length data - 4096) data else data)"

function wait_loop :: "daemon_env \<Rightarrow> nat \<Rightarrow> nat \<Rightarrow> nat \<Rightarrow> int \<Rightarrow> daemon_error option" where
  "wait_loop en deadline now i pid =
     (if now < deadline then
        (if \<not> processAlive en now pid then Some (ExitedDuringStartup (startup_message (dv_stderr en now)))
         else wait_loop en deadline (now + 50 + dv_late en i) (Suc i) pid)
      else None)"
  by pat_completeness auto
termination
  by (relation "measure (\<lambda>(en, deadline, now, i, pid). deadline - now)") auto

declare wait_loop.simps [simp del]

definition waitForStartup :: "daemon_env \<Rightarrow> nat \<Rightarrow> int \<Rightarrow> daemon_error option" where
  "waitForStartup en now pid = wait_loop en (now + 750) now 0 pid"

definition Start :: "daemon_env \<Rightarrow> nat \<Rightarrow> daemon_state \<Rightarrow> (daemon_error option \<times> daemon_state) option" where
  "Start en t s = (case PID_or_zero en t s of (pid, s) \<Rightarrow>
     if pid \<noteq> 0 then Some (None, s\<lparr>ds_out := ds_out s @ [AlreadyRunning pid]\<rparr>)
     else if \<not> dv_root en then None
     else if dv_openStdout en \<noteq> None then Some (Some CreateStdout, s)
     else let s = s\<lparr>ds_stdoutFile := Content []\<rparr> in
     if dv_openStderr en \<noteq> None then Some (Some CreateStderr, s)
     else let s = s\<lparr>ds_stderrFile := Content []\<rparr> in
     case dv_spawn en of
       None \<Rightarrow> None
     | Some pid \<Rightarrow>
        if dv_writePid en \<noteq> None then Some (Some WritePidFile, s)
        else let s = s\<lparr>ds_pidFile := Content (decimal pid)\<rparr> in
        case waitForStartup en t (int pid) of
          Some err \<Rightarrow> Some (Some err, remove_pid_file en s)
        | None \<Rightarrow> Some (None, s\<lparr>ds_out := ds_out s @ [StartedWith (int pid)]\<rparr>))"

text \<open>\<open>Restart\<close> waits thirty times a tenth of a second between the two; \<open>stopped\<close> is the time \<open>Stop\<close> returned.\<close>

definition Restart :: "daemon_env \<Rightarrow> nat \<Rightarrow> nat \<Rightarrow> daemon_state \<Rightarrow> (daemon_error option \<times> daemon_state) option" where
  "Restart en t stopped s = (case Stop en t s of None \<Rightarrow> None | Some s \<Rightarrow> Start en (stopped + 3000) s)"

definition printProcessStatus :: "daemon_env \<Rightarrow> int \<Rightarrow> daemon_error + daemon_output" where
  "printProcessStatus en pid =
     (if dv_linux en
      then (case printLinuxProcessStatus (dv_stat en pid) (dv_uptime en) (dv_status en pid) pid of Inl err \<Rightarrow> Inl (ProcError err) | Inr st \<Rightarrow> Inr (StatusOf st))
      else Inr (StatusPid pid))"

definition daemon_Status :: "daemon_env \<Rightarrow> nat \<Rightarrow> daemon_state \<Rightarrow> daemon_error option \<times> daemon_state" where
  "daemon_Status en t s = (case PID en t s of
      (Inl err, s) \<Rightarrow> (Some err, s)
    | (Inr pid, s) \<Rightarrow>
       if pid = 0 then (None, s\<lparr>ds_out := ds_out s @ [NotRunning]\<rparr>)
       else (case printProcessStatus en pid of Inl err \<Rightarrow> (Some err, s) | Inr out \<Rightarrow> (None, s\<lparr>ds_out := ds_out s @ [out]\<rparr>)))"

text \<open>\<open>splitLines\<close>, with its two indices, and the printing of the logs.\<close>

fun split_lines_loop :: "gostring \<Rightarrow> nat list \<Rightarrow> nat \<Rightarrow> gostring list \<Rightarrow> nat \<times> gostring list" where
  "split_lines_loop s [] start lines = (start, lines)"
| "split_lines_loop s (i # is) start lines =
     (if s ! i = 10 then split_lines_loop s is (i + 1) (lines @ [take (i - start) (drop start s)])
      else split_lines_loop s is start lines)"

definition splitLines :: "gostring \<Rightarrow> gostring list" where
  "splitLines s = (case split_lines_loop s [0..<length s] 0 [] of
     (start, lines) \<Rightarrow> if start < length s then lines @ [drop start s] else lines)"

definition readAndPrintFile :: "disk_file \<Rightarrow> gostring \<Rightarrow> daemon_error option \<times> daemon_output list" where
  "readAndPrintFile f placeholder = (case f of
      Missing \<Rightarrow> (None, [])
    | Unreadable \<Rightarrow> (Some ReadLog, [])
    | Content data \<Rightarrow>
       if data = [] then (None, [])
       else (None, (if splitLines data = [] then [] else [LogLine placeholder]) @ map LogLine (splitLines data)))"

definition Log :: "daemon_state \<Rightarrow> daemon_error option \<times> daemon_output list" where
  "Log s = (case readAndPrintFile (ds_stdoutFile s) (bytes_of ''STDOUT>'') of
      (Some err, out) \<Rightarrow> (Some err, out)
    | (None, out) \<Rightarrow> (case readAndPrintFile (ds_stderrFile s) (bytes_of ''STDERR>'') of (err, out') \<Rightarrow> (err, out @ out')))"

section \<open>The pid file\<close>

lemma trim_left_none: "list_all (\<lambda>w. \<not> HasPrefix s w) ws \<Longrightarrow> trim_left ws s = s"
proof -
  assume "list_all (\<lambda>w. \<not> HasPrefix s w) ws"
  then have "find (\<lambda>w. w \<noteq> [] \<and> HasPrefix s w) ws = None" by (auto simp: find_None_iff list_all_iff)
  then show ?thesis by (simp add: trim_left.simps [of ws s])
qed

lemma digit_not_white: "is_digit d \<Longrightarrow> list_all (\<lambda>w. \<not> HasPrefix (d # s) w) white_space"
  "is_digit d \<Longrightarrow> list_all (\<lambda>w. \<not> HasPrefix (d # s) w) (map rev white_space)"
  by (auto simp: white_space_def HasPrefix_def is_digit_def)

lemma TrimSpace_digits:
  assumes "list_all is_digit s"
  shows "TrimSpace s = s"
proof (cases s)
  case Nil
  then show ?thesis by (simp add: TrimSpace_def trim_left_none white_space_def HasPrefix_def)
next
  case (Cons d ds)
  obtain e es where e: "rev s = e # es" using Cons by (cases "rev s") auto
  have "e \<in> set s" using arg_cong [OF e, of set] by simp
  then have "is_digit d" "is_digit e" using assms Cons by (auto simp: list_all_iff)
  then have "trim_left white_space s = s" "trim_left (map rev white_space) (rev s) = rev s"
    using Cons e trim_left_none digit_not_white by metis+
  then show ?thesis by (simp add: TrimSpace_def)
qed

lemma TrimSpace_decimal: "TrimSpace (decimal n) = decimal n"
  using TrimSpace_digits decimal_digits by simp

lemma PID_written:
  assumes "pid < 2 ^ 63" "ds_pidFile s = Content (decimal pid)" "processAlive en t (int pid)"
    "\<And>name. dv_comm en t (int pid) = Content name \<Longrightarrow> HasPrefix (TrimSpace name) binName"
  shows "PID en t s = (Inr (int pid), s)"
  using assms by (auto simp: PID_def TrimSpace_decimal Atoi_decimal Let_def split: disk_file.splits)

lemma remove_pid_file_sel [simp]:
  "ds_out (remove_pid_file en s) = ds_out s" "ds_signals (remove_pid_file en s) = ds_signals s"
  by (simp_all add: remove_pid_file_def)

lemma PID_out [simp]: "ds_out (snd (PID en t s)) = ds_out s" "ds_signals (snd (PID en t s)) = ds_signals s"
  by (simp_all add: PID_def Let_def split: disk_file.splits option.splits)

lemma PID_or_zero_sel: "PID_or_zero en t s = ((case fst (PID en t s) of Inl _ \<Rightarrow> 0 | Inr pid \<Rightarrow> pid), snd (PID en t s))"
  by (simp add: PID_or_zero_def split: prod.splits sum.splits)

lemma Start_started:
  assumes "Start en t s = Some (None, s')" "StartedWith p \<in> set (ds_out s')" "StartedWith p \<notin> set (ds_out s)"
  shows "\<exists>pid. p = int pid \<and> dv_spawn en = Some pid \<and> ds_pidFile s' = Content (decimal pid)"
  using assms by (auto simp: Start_def PID_or_zero_sel Let_def split: if_splits option.splits)

text \<open>
  C20. The daemon is not started twice: after a start that reported its process, and as long as that process lives under the
  program's name, a second start changes nothing and reports the same process.
\<close>

theorem daemon_started_once:
  assumes "Start en t s = Some (None, s')" "StartedWith pid \<in> set (ds_out s')" "StartedWith pid \<notin> set (ds_out s)" "0 < pid" "pid < 2 ^ 63"
    and "processAlive en' t' pid" "\<And>name. dv_comm en' t' pid = Content name \<Longrightarrow> HasPrefix (TrimSpace name) binName"
  shows "Start en' t' s' = Some (None, s'\<lparr>ds_out := ds_out s' @ [AlreadyRunning pid]\<rparr>)"
proof -
  obtain n where n: "pid = int n" "ds_pidFile s' = Content (decimal n)" using Start_started [OF assms(1-3)] by auto
  then have "PID en' t' s' = (Inr pid, s')" using PID_written [of n s' en' t'] assms(5-7) by simp
  then show ?thesis using assms(4) by (simp add: Start_def PID_or_zero_def)
qed

definition sample_daemon :: daemon_env where
  "sample_daemon = \<lparr>dv_root = True, dv_linux = True, dv_kill = (\<lambda>t pid sig. None), dv_comm = (\<lambda>t pid. Content binName), dv_stat = (\<lambda>pid. Missing), dv_uptime = Missing, dv_status = (\<lambda>pid. Missing), dv_remove = None,
     dv_openStdout = None, dv_openStderr = None, dv_writePid = None, dv_spawn = Some 7, dv_stderr = (\<lambda>t. []), dv_late = (\<lambda>i. 0)\<rparr>"

definition sample_files :: daemon_state where
  "sample_files = \<lparr>ds_pidFile = Missing, ds_stdoutFile = Missing, ds_stderrFile = Missing, ds_out = [], ds_signals = []\<rparr>"

lemma TrimSpace_binName: "TrimSpace binName = binName"
  by (simp add: TrimSpace_def binName_def bytes_of_def trim_left_none white_space_def HasPrefix_def)

lemma wait_loop_alive: "(\<And>t. processAlive en t pid) \<Longrightarrow> wait_loop en deadline now i pid = None"
  by (induction en deadline now i pid rule: wait_loop.induct) (simp add: wait_loop.simps)

lemma sample_start: "\<exists>s'. Start sample_daemon 0 sample_files = Some (None, s') \<and> ds_out s' = [StartedWith 7]"
proof -
  have "processAlive sample_daemon t 7" for t by (simp add: processAlive_def sample_daemon_def)
  then have "waitForStartup sample_daemon 0 7 = None" by (simp add: waitForStartup_def wait_loop_alive)
  then show ?thesis by (simp add: Start_def PID_or_zero_def PID_def sample_files_def Let_def) (simp add: sample_daemon_def)
qed

theorem daemon_started_once_witness:
  "\<exists>s' s''. Start sample_daemon 0 sample_files = Some (None, s') \<and> Start sample_daemon 5000 s' = Some (None, s'') \<and>
    ds_out s'' = [StartedWith 7, AlreadyRunning 7]"
proof -
  obtain s' where s': "Start sample_daemon 0 sample_files = Some (None, s')" "ds_out s' = [StartedWith 7]" using sample_start by blast
  have "Start sample_daemon 5000 s' = Some (None, s'\<lparr>ds_out := ds_out s' @ [AlreadyRunning 7]\<rparr>)"
    using s'(2) by (intro daemon_started_once [OF s'(1)])
      (auto simp: sample_files_def processAlive_def sample_daemon_def TrimSpace_binName HasPrefix_def)
  then show ?thesis using s' by simp
qed

section \<open>Stopping\<close>

lemma stop_loop_signals:
  "\<exists>k \<le> n. stop_loop en n t pid = map (\<lambda>i. (t + 1000 * i, pid)) [0..<k] \<and>
     (k < n \<longrightarrow> dv_kill en (t + 1000 * k) pid SIGINT \<noteq> None \<or> 0 < k \<and> \<not> processAlive en (t + 1000 * (k - 1)) pid)"
proof (induction n arbitrary: t)
  case (Suc n)
  show ?case
  proof (cases "dv_kill en t pid SIGINT = None \<and> processAlive en t pid")
    case True
    obtain k where k: "k \<le> n" "stop_loop en n (t + 1000) pid = map (\<lambda>i. (t + 1000 + 1000 * i, pid)) [0..<k]"
      "k < n \<longrightarrow> dv_kill en (t + 1000 + 1000 * k) pid SIGINT \<noteq> None \<or> 0 < k \<and> \<not> processAlive en (t + 1000 + 1000 * (k - 1)) pid"
      using Suc.IH by blast
    have "map (\<lambda>i. (t + 1000 * i, pid)) [0..<Suc k] = (t, pid) # map (\<lambda>i. (t + 1000 + 1000 * i, pid)) [0..<k]"
      by (simp add: upt_conv_Cons map_Suc_upt [symmetric] del: upt_Suc)
    then show ?thesis
      using True k by (intro exI [of _ "Suc k"]) (auto simp: algebra_simps simp del: upt_Suc gr0_conv_Suc)
  next
    case False
    then show ?thesis
      by (cases "dv_kill en t pid SIGINT = None") (auto intro: exI [of _ 0] exI [of _ 1])
  qed
qed simp

text \<open>
  \<open>Stop\<close> signals only the daemon, once a second and at most 360 times, and gives up earlier only when the process no longer
  exists or cannot be signalled; the pid file is removed in any case.
\<close>

theorem daemon_stop:
  assumes "Stop en t s = Some s'" "fst (PID_or_zero en t s) = pid"
  shows "dv_root en \<and> (dv_remove en = None \<longrightarrow> ds_pidFile s' = Missing) \<and>
    (\<exists>k \<le> 360. ds_signals s' = ds_signals s @ map (\<lambda>i. (t + 1000 * i, pid)) [0..<k] \<and> (pid = 0 \<longrightarrow> k = 0) \<and>
      (k < 360 \<and> pid \<noteq> 0 \<longrightarrow> dv_kill en (t + 1000 * k) pid SIGINT \<noteq> None \<or> 0 < k \<and> \<not> processAlive en (t + 1000 * (k - 1)) pid))"
proof (cases "pid = 0")
  case True
  then show ?thesis using assms by (auto simp: Stop_def PID_or_zero_sel remove_pid_file_def split: if_splits intro: exI [of _ 0])
next
  case False
  obtain k where "k \<le> 360" "stop_loop en 360 t pid = map (\<lambda>i. (t + 1000 * i, pid)) [0..<k]"
    "k < 360 \<longrightarrow> dv_kill en (t + 1000 * k) pid SIGINT \<noteq> None \<or> 0 < k \<and> \<not> processAlive en (t + 1000 * (k - 1)) pid"
    using stop_loop_signals by blast
  then show ?thesis
    using assms False by (auto simp: Stop_def PID_or_zero_sel stopProcess_def remove_pid_file_def split: if_splits intro!: exI [of _ k])
qed

theorem daemon_stop_witness:
  "\<exists>s'. Stop (sample_daemon\<lparr>dv_kill := \<lambda>t pid sig. if t < 1000 then None else Some ESRCH\<rparr>) 0 (sample_files\<lparr>ds_pidFile := Content (decimal 7)\<rparr>) = Some s' \<and>
    ds_pidFile s' = Missing \<and> (\<exists>k \<le> 360. ds_signals s' = map (\<lambda>i. (1000 * i, 7)) [0..<k])"
proof -
  let ?en = "sample_daemon\<lparr>dv_kill := \<lambda>t pid sig. if t < 1000 then None else Some ESRCH\<rparr>"
  let ?s = "sample_files\<lparr>ds_pidFile := Content (decimal 7)\<rparr>"
  have "PID ?en 0 ?s = (Inr (int 7), ?s)"
    by (rule PID_written) (auto simp: processAlive_def sample_daemon_def TrimSpace_binName HasPrefix_def)
  then have pid: "fst (PID_or_zero ?en 0 ?s) = 7" by (simp add: PID_or_zero_def)
  have root: "dv_root ?en" "dv_remove ?en = None" "ds_signals ?s = []" by (simp_all add: sample_daemon_def sample_files_def)
  then have "\<exists>s'. Stop ?en 0 ?s = Some s'" by (simp add: Stop_def case_prod_beta)
  then obtain s' where s': "Stop ?en 0 ?s = Some s'" by blast
  show ?thesis using daemon_stop [OF s' pid] s' root by auto
qed

section \<open>The start of the child\<close>

text \<open>
  A child that has ended stays in the process table until its parent waits for it, and \<open>kill\<close> finds it there; \<open>startDetached\<close> releases
  the process without waiting.
\<close>

datatype proc_state = ProcRunning | ProcZombie | ProcGone

definition kill_existing :: "proc_state \<Rightarrow> errno option" where
  "kill_existing p = (if p = ProcGone then Some ESRCH else None)"

text \<open>
  C39. A daemon that fails during its initialisation is reported as started: the child becomes a zombie of the waiting \<open>Start\<close>, which
  still finds it with signal 0, so that whenever the child ends and whatever it writes to its standard error, \<open>Start\<close> succeeds.
\<close>

theorem startup_failure_unreported:
  assumes "ds_pidFile s = Missing" "dv_root en" "dv_openStdout en = None" "dv_openStderr en = None" "dv_writePid en = None"
    and "dv_spawn en = Some pid" "\<And>t'. dv_kill en t' (int pid) Signal0 = kill_existing (child t')"
    and "\<And>t'. child t' = (if t' < exited then ProcRunning else ProcZombie)"
  shows "\<exists>s'. Start en t s = Some (None, s') \<and> ds_out s' = ds_out s @ [StartedWith (int pid)] \<and> ds_pidFile s' = Content (decimal pid)"
proof -
  have "processAlive en t' (int pid)" for t' using assms(7,8) by (simp add: processAlive_def kill_existing_def)
  then have "waitForStartup en t (int pid) = None" by (simp add: waitForStartup_def wait_loop_alive)
  then show ?thesis using assms(1-6) by (simp add: Start_def PID_or_zero_def PID_def Let_def)
qed

theorem startup_failure_unreported_witness:
  "\<exists>s'. Start (sample_daemon\<lparr>dv_stderr := \<lambda>t. bytes_of ''bind: address already in use''\<rparr>) 0 sample_files = Some (None, s') \<and>
    ds_out s' = [StartedWith 7]"
proof -
  let ?en = "sample_daemon\<lparr>dv_stderr := \<lambda>t. bytes_of ''bind: address already in use''\<rparr>"
  have "\<exists>s'. Start ?en 0 sample_files = Some (None, s') \<and> ds_out s' = ds_out sample_files @ [StartedWith (int 7)] \<and> ds_pidFile s' = Content (decimal 7)"
    by (rule startup_failure_unreported [where child = "\<lambda>t. if t < 10 then ProcRunning else ProcZombie" and exited = 10])
      (simp_all add: sample_files_def sample_daemon_def kill_existing_def)
  then show ?thesis by (auto simp: sample_files_def)
qed

text \<open>
  A pid file that holds a negative number is taken for a running daemon as soon as \<open>kill\<close> accepts the number, since there is no process
  to compare the name with: \<open>Stop\<close> then signals a whole process group, or with \<open>-1\<close> every process.
\<close>

theorem negative_pid_signalled:
  assumes "ds_pidFile s = Content (bytes_of ''-1'')" "dv_root en" "dv_kill en t (-1) Signal0 = None" "dv_comm en t (-1) = Missing"
    and "dv_kill en t (-1) SIGINT = None"
  shows "\<exists>s'. Stop en t s = Some s' \<and> (t, -1) \<in> set (ds_signals s')"
proof -
  have "TrimSpace (bytes_of ''-1'') = bytes_of ''-1''"
    by (simp add: TrimSpace_def bytes_of_def trim_left_none white_space_def HasPrefix_def)
  moreover have "Atoi (bytes_of ''-1'') = Some (-1)"
    by (simp add: Atoi_def bytes_of_def HasPrefix_def ParseUint_def is_digit_def digits_value_def)
  ultimately have "PID_or_zero en t s = (-1, s)" using assms(1,3,4) by (simp add: PID_or_zero_def PID_def processAlive_def)
  moreover have "(t, -1) \<in> set (stopProcess en t (-1))"
    using assms(5) unfolding stopProcess_def by (simp add: numeral_eq_Suc)
  ultimately show ?thesis using assms(2) by (simp add: Stop_def)
qed

theorem negative_pid_signalled_witness:
  "\<exists>s'. Stop (sample_daemon\<lparr>dv_comm := \<lambda>t pid. Missing\<rparr>) 0 (sample_files\<lparr>ds_pidFile := Content (bytes_of ''-1'')\<rparr>) = Some s' \<and>
    (0, -1) \<in> set (ds_signals s')"
  by (rule negative_pid_signalled) (simp_all add: sample_daemon_def)

section \<open>The logs\<close>

text \<open>\<open>splitLines\<close> is the split at newlines without a last empty line.\<close>

definition lines_of :: "gostring \<Rightarrow> gostring list" where
  "lines_of s = (let ls = split_on 10 s in if last ls = [] then butlast ls else ls)"

lemma split_on_sep: "c \<notin> set s \<Longrightarrow> split_on c (s @ c # r) = s # split_on c r"
  by (induction s) (auto split: list.splits)

lemma split_on_empty [simp]: "split_on c s = [[]] \<longleftrightarrow> s = []"
  by (cases s) (auto split: list.splits)

lemma last_split_on: "last (split_on c s) = [] \<longleftrightarrow> s = [] \<or> last s = c"
  by (induction s) (auto split: list.splits)

lemma split_lines_loop_lines:
  assumes "s = pre @ cur @ rest" "10 \<notin> set cur"
  shows "(case split_lines_loop s [length (pre @ cur)..<length s] (length pre) lines of
     (start, lines) \<Rightarrow> if start < length s then lines @ [drop start s] else lines) = lines @ lines_of (cur @ rest)"
  using assms
proof (induction rest arbitrary: pre cur lines)
  case Nil
  then show ?case by (auto simp: lines_of_def split_on_no_sep Let_def)
next
  case (Cons b rest)
  have k: "[length (pre @ cur)..<length s] = length (pre @ cur) # [Suc (length (pre @ cur))..<length s]"
    using Cons.prems(1) by (intro upt_conv_Cons) simp
  have b: "s ! length (pre @ cur) = b" using Cons.prems(1) by (simp add: nth_append)
  show ?case
  proof (cases "b = 10")
    case True
    have "lines_of (cur @ b # rest) = cur # lines_of rest"
      using True Cons.prems(2) by (simp add: lines_of_def Let_def split_on_sep)
    then show ?thesis
      using Cons.IH [of "pre @ cur @ [10]" "[]" "lines @ [cur]"] Cons.prems True b unfolding k by simp
  next
    case False
    then show ?thesis using Cons.IH [of pre "cur @ [b]" lines] Cons.prems b unfolding k by simp
  qed
qed

text \<open>
  Printing the logs splits a file into its lines: \<open>splitLines\<close> is the split at the newlines, a last empty line left out, and
  writing the lines back, each with its newline, gives the file, with a newline added where it did not end with one.
\<close>

theorem splitLines_lines:
  "splitLines s = (let ls = split_on 10 s in if last ls = [] then butlast ls else ls) \<and>
    concat (map (\<lambda>l. l @ [10]) (splitLines s)) = (if s = [] \<or> last s = 10 then s else s @ [10])"
proof -
  have split: "splitLines s = lines_of s"
    using split_lines_loop_lines [of s "[]" "[]" s "[]"] by (simp add: splitLines_def)
  have join: "concat (map (\<lambda>l. l @ [10]) (split_on 10 s)) = s @ [10]"
    by (induction s) (auto split: list.splits)
  show ?thesis
  proof (cases "last (split_on 10 s) = []")
    case True
    then have "split_on 10 s = butlast (split_on 10 s) @ [[]]" using append_butlast_last_id [of "split_on 10 s"] by simp
    then have "concat (map (\<lambda>l. l @ [10]) (butlast (split_on 10 s) @ [[]])) = s @ [10]" using join by simp
    then show ?thesis using True last_split_on [of 10 s] by (simp add: split lines_of_def Let_def)
  next
    case False
    then show ?thesis using join last_split_on [of 10 s] by (simp add: split lines_of_def Let_def)
  qed
qed

end
