(* ===== verification/Update.thy ===== *)
theory Update
  imports GoStrings
begin

text \<open>
  Model of the self-update of \<open>internal/oneself\<close>: which asset of a release is chosen, how the binary is taken out of it and how the
  executable is replaced, on a file system that maps paths to contents. Network and operating system answer through a record; the
  release that \<open>.github/workflows/release.yml\<close> publishes is modelled with it.
\<close>

section \<open>Definitions\<close>

subsection \<open>Choice of the asset\<close>

record githubAsset =
  as_Name :: gostring
  as_URL :: gostring

record githubRelease =
  rl_TagName :: gostring
  rl_Assets :: "githubAsset list"

definition update_binName :: gostring where
  "update_binName = bytes_of ''outway''"

definition target_triples :: "((gostring \<times> gostring) \<times> gostring) list" where
  "target_triples = map (\<lambda>((os, arch), t). ((bytes_of os, bytes_of arch), bytes_of t))
     [((''linux'', ''amd64''), ''x86_64-unknown-linux-gnu''), ((''linux'', ''arm64''), ''aarch64-unknown-linux-gnu''),
      ((''linux'', ''386''), ''i686-unknown-linux-gnu''), ((''darwin'', ''amd64''), ''x86_64-apple-darwin''),
      ((''darwin'', ''arm64''), ''aarch64-apple-darwin''), ((''windows'', ''amd64''), ''x86_64-pc-windows-msvc''),
      ((''windows'', ''arm64''), ''aarch64-pc-windows-msvc''), ((''freebsd'', ''amd64''), ''x86_64-unknown-freebsd'')]"

definition currentTarget :: "gostring \<Rightarrow> gostring \<Rightarrow> gostring" where
  "currentTarget GOOS GOARCH = (case map_of target_triples (GOOS, GOARCH) of Some t \<Rightarrow> t | None \<Rightarrow> GOOS @ [45] @ GOARCH)"

definition findAsset :: "gostring \<Rightarrow> gostring \<Rightarrow> githubAsset list \<Rightarrow> gostring \<Rightarrow> githubAsset option" where
  "findAsset GOOS GOARCH assets target =
     (case find (\<lambda>a. Contains (ToLower (as_Name a)) (ToLower target)) assets of
        Some a \<Rightarrow> Some a
      | None \<Rightarrow> find (\<lambda>a. Contains (ToLower (as_Name a)) GOOS \<and> Contains (ToLower (as_Name a)) GOARCH) assets)"

subsection \<open>Files\<close>

text \<open>A file is its contents and whether it is executable (mode 0755).\<close>

type_synonym file_system = "gostring \<Rightarrow> (byte list \<times> bool) option"

datatype update_error =
    FetchError go_error
  | BadStatus nat
  | NoAsset gostring
  | DownloadError go_error
  | NoExecutable go_error
  | ArchiveError go_error
  | BinaryNotFound
  | ReplaceError go_error
  | RemoveError go_error

text \<open>
  \<open>ue_release\<close> is the status and the decoded body of the answer of the release API. \<open>ue_get\<close> is the status, the body received and the error
  that cut it short, for an URL. \<open>ue_Open\<close> is the error of opening and reading the downloaded file, \<open>ue_gzip\<close> that of opening a compressed stream, \<open>ue_gunzip\<close> what it
  holds, \<open>ue_tar\<close> the entries of a compressed archive and the error that ends them, if any. The other fields are the results of the calls of the same names; \<open>ue_Write\<close> is the number of bytes written before an error.
\<close>

record update_env =
  ue_GOOS :: gostring
  ue_GOARCH :: gostring
  ue_currentVersion :: gostring
  ue_release :: "(nat \<times> githubRelease res) res"
  ue_get :: "gostring \<Rightarrow> (nat \<times> byte list \<times> go_error option) res"
  ue_Executable :: "gostring res"
  ue_TempFile :: "gostring res"
  ue_TempIn :: "gostring res"
  ue_Open :: "gostring \<Rightarrow> go_error option"
  ue_gzip :: "byte list \<Rightarrow> go_error option"
  ue_gunzip :: "byte list \<Rightarrow> byte list res"
  ue_tar :: "byte list \<Rightarrow> (gostring \<times> byte list res) list \<times> go_error option"
  ue_Write :: "(nat \<times> go_error) option"
  ue_Chmod :: "go_error option"
  ue_Close :: "go_error option"
  ue_Rename :: "go_error option"
  ue_Remove :: "gostring \<Rightarrow> go_error option"

definition os_Remove :: "update_env \<Rightarrow> gostring \<Rightarrow> file_system \<Rightarrow> file_system" where
  "os_Remove en p fs = (if ue_Remove en p = None then fs(p := None) else fs)"

definition fetchLatestRelease :: "update_env \<Rightarrow> update_error + githubRelease" where
  "fetchLatestRelease en = (case ue_release en of
      Inl err \<Rightarrow> Inl (FetchError err)
    | Inr (status, body) \<Rightarrow>
       if status \<noteq> 200 then Inl (BadStatus status)
       else case body of Inl err \<Rightarrow> Inl (FetchError err) | Inr rel \<Rightarrow> Inr rel)"

definition downloadAsset :: "update_env \<Rightarrow> gostring \<Rightarrow> file_system \<Rightarrow> (update_error + gostring) \<times> file_system" where
  "downloadAsset en url fs = (case ue_get en url of
      Inl err \<Rightarrow> (Inl (DownloadError err), fs)
    | Inr (status, body, broken) \<Rightarrow>
       if status \<noteq> 200 then (Inl (BadStatus status), fs)
       else case ue_TempFile en of
         Inl err \<Rightarrow> (Inl (DownloadError err), fs)
       | Inr tmp \<Rightarrow>
          (case broken of
             Some err \<Rightarrow> (Inl (DownloadError err), fs(tmp := Some (body, False)))
           | None \<Rightarrow> (Inr tmp, fs(tmp := Some (body, False)))))"

fun tar_loop :: "(gostring \<times> byte list res) list \<Rightarrow> go_error option \<Rightarrow> update_error + byte list" where
  "tar_loop [] None = Inl BinaryNotFound"
| "tar_loop [] (Some err) = Inl (ArchiveError err)"
| "tar_loop ((name, content) # entries) err =
     (let base = filepath_Base name
      in if base = update_binName \<or> base = update_binName @ bytes_of ''.exe''
         then (case content of Inl e \<Rightarrow> Inl (ArchiveError e) | Inr data \<Rightarrow> Inr data)
         else tar_loop entries err)"

definition extractFromTarGz :: "update_env \<Rightarrow> byte list \<Rightarrow> update_error + byte list" where
  "extractFromTarGz en data = (case ue_gzip en data of
      Some err \<Rightarrow> Inl (ArchiveError err)
    | None \<Rightarrow> (case ue_tar en data of (entries, err) \<Rightarrow> tar_loop entries err))"

definition readGzip :: "update_env \<Rightarrow> byte list \<Rightarrow> update_error + byte list" where
  "readGzip en data = (case ue_gzip en data of
      Some err \<Rightarrow> Inl (ArchiveError err)
    | None \<Rightarrow> (case ue_gunzip en data of Inl err \<Rightarrow> Inl (ArchiveError err) | Inr d \<Rightarrow> Inr d))"

definition extractBinary :: "update_env \<Rightarrow> gostring \<Rightarrow> file_system \<Rightarrow> gostring \<Rightarrow> update_error + byte list" where
  "extractBinary en path fs assetName = (case ue_Open en path of
      Some err \<Rightarrow> Inl (ArchiveError err)
    | None \<Rightarrow>
       (case fs path of
          None \<Rightarrow> Inl (ArchiveError (Message ''no such file''))
        | Some (data, _) \<Rightarrow>
           let name = ToLower assetName
           in if HasSuffix name (bytes_of ''.tar.gz'') \<or> HasSuffix name (bytes_of ''.tgz'') then extractFromTarGz en data
              else if HasSuffix name (bytes_of ''.gz'') then readGzip en data
              else Inr data))"

text \<open>\<open>replaceExecutable\<close>; the temporary file is removed on every return.\<close>

definition replaceExecutable :: "update_env \<Rightarrow> gostring \<Rightarrow> byte list \<Rightarrow> file_system \<Rightarrow> update_error option \<times> file_system" where
  "replaceExecutable en exe data fs = (case ue_TempIn en of
      Inl err \<Rightarrow> (Some (ReplaceError err), fs)
    | Inr tmp \<Rightarrow>
       (case ue_Write en of
          Some (n, err) \<Rightarrow> (Some (ReplaceError err), os_Remove en tmp (fs(tmp := Some (take n data, False))))
        | None \<Rightarrow>
       (case ue_Chmod en of
          Some err \<Rightarrow> (Some (ReplaceError err), os_Remove en tmp (fs(tmp := Some (data, False))))
        | None \<Rightarrow>
       (let fs = fs(tmp := Some (data, True)) in
        case ue_Close en of
          Some err \<Rightarrow> (Some (ReplaceError err), os_Remove en tmp fs)
        | None \<Rightarrow>
       (let fs = (if ue_GOOS en = bytes_of ''windows'' then os_Remove en exe fs else fs) in
        case ue_Rename en of
          Some err \<Rightarrow> (Some (ReplaceError err), os_Remove en tmp fs)
        | None \<Rightarrow> (None, os_Remove en tmp (fs(exe := fs tmp, tmp := None))))))))"

definition Update :: "update_env \<Rightarrow> file_system \<Rightarrow> update_error option \<times> file_system" where
  "Update en fs = (case fetchLatestRelease en of
      Inl err \<Rightarrow> (Some err, fs)
    | Inr rel \<Rightarrow>
       if TrimPrefix (rl_TagName rel) (bytes_of ''v'') = ue_currentVersion en then (None, fs)
       else let target = currentTarget (ue_GOOS en) (ue_GOARCH en) in
       case findAsset (ue_GOOS en) (ue_GOARCH en) (rl_Assets rel) target of
         None \<Rightarrow> (Some (NoAsset target), fs)
       | Some asset \<Rightarrow>
       (case downloadAsset en (as_URL asset) fs of
          (Inl err, fs) \<Rightarrow> (Some err, fs)
        | (Inr tmp, fs) \<Rightarrow>
       (case ue_Executable en of
          Inl err \<Rightarrow> (Some (NoExecutable err), os_Remove en tmp fs)
        | Inr exe \<Rightarrow>
       (case extractBinary en tmp fs (as_Name asset) of
          Inl err \<Rightarrow> (Some err, os_Remove en tmp fs)
        | Inr data \<Rightarrow> (case replaceExecutable en exe data fs of (err, fs) \<Rightarrow> (err, os_Remove en tmp fs))))))"

definition Uninstall :: "update_env \<Rightarrow> file_system \<Rightarrow> update_error option \<times> file_system" where
  "Uninstall en fs = (case ue_Executable en of
      Inl err \<Rightarrow> (Some (NoExecutable err), fs)
    | Inr exe \<Rightarrow> (case ue_Remove en exe of Some err \<Rightarrow> (Some (RemoveError err), fs) | None \<Rightarrow> (None, fs(exe := None))))"

subsection \<open>The published release\<close>

text \<open>
  The build matrix of the release workflow, and the asset of a target: a zip archive of \<open><base>.exe\<close> for Windows, otherwise a
  gzipped tar archive whose only entry is \<open><base>\<close>.
\<close>

definition release_matrix :: "(gostring \<times> gostring) list" where
  "release_matrix = map (\<lambda>(os, arch). (bytes_of os, bytes_of arch))
     [(''linux'', ''amd64''), (''linux'', ''arm64''), (''windows'', ''amd64''), (''windows'', ''arm64''), (''darwin'', ''amd64''), (''darwin'', ''arm64'')]"

definition release_base :: "gostring \<times> gostring \<Rightarrow> gostring" where
  "release_base t = bytes_of ''outway-'' @ fst t @ [45] @ snd t"

definition release_asset :: "gostring \<times> gostring \<Rightarrow> gostring" where
  "release_asset t = release_base t @ (if fst t = bytes_of ''windows'' then bytes_of ''.zip'' else bytes_of ''.tar.gz'')"

section \<open>Replacing the executable\<close>

lemma os_Remove_other [simp]: "p \<noteq> q \<Longrightarrow> os_Remove en q fs p = fs p"
  by (simp add: os_Remove_def)

lemma replaceExecutable_exe:
  assumes "ue_GOOS en \<noteq> bytes_of ''windows''" "\<And>tmp. ue_TempIn en = Inr tmp \<Longrightarrow> tmp \<noteq> exe" "replaceExecutable en exe data fs = (err, fs')"
  shows "fs' exe = (if err = None then Some (data, True) else fs exe)"
  using assms by (auto simp: replaceExecutable_def Let_def split: sum.splits option.splits prod.splits)

lemma replaceExecutable_other:
  assumes "replaceExecutable en exe data fs = (err, fs')" "p \<noteq> exe" "\<And>tmp. ue_TempIn en = Inr tmp \<Longrightarrow> p \<noteq> tmp"
  shows "fs' p = fs p"
  using assms by (auto simp: replaceExecutable_def Let_def split: sum.splits option.splits prod.splits if_splits)

lemma downloadAsset_other:
  assumes "downloadAsset en url fs = (r, fs')" "\<And>tmp. ue_TempFile en = Inr tmp \<Longrightarrow> p \<noteq> tmp"
  shows "fs' p = fs p"
  using assms by (auto simp: downloadAsset_def split: sum.splits option.splits prod.splits if_splits)

lemma downloadAsset_ok:
  assumes "downloadAsset en url fs = (Inr tmp, fs')"
  shows "ue_TempFile en = Inr tmp \<and> (\<exists>body. ue_get en url = Inr (200, body, None) \<and> fs' = fs(tmp := Some (body, False)))"
  using assms by (auto simp: downloadAsset_def split: sum.splits option.splits prod.splits if_splits)

lemma Update_cases:
  assumes "Update en fs = (err, fs')" "ue_Executable en = Inr exe" "ue_TempFile en = Inr tmp"
  shows "err \<noteq> None \<and> (\<forall>p. p \<noteq> tmp \<longrightarrow> fs' p = fs p) \<or>
    err = None \<and> fs' = fs \<and> (\<exists>rel. fetchLatestRelease en = Inr rel \<and> TrimPrefix (rl_TagName rel) (bytes_of ''v'') = ue_currentVersion en) \<or>
    (\<exists>rel asset body data fs2. fetchLatestRelease en = Inr rel \<and>
      findAsset (ue_GOOS en) (ue_GOARCH en) (rl_Assets rel) (currentTarget (ue_GOOS en) (ue_GOARCH en)) = Some asset \<and>
      ue_get en (as_URL asset) = Inr (200, body, None) \<and> extractBinary en tmp (fs(tmp := Some (body, False))) (as_Name asset) = Inr data \<and>
      replaceExecutable en exe data (fs(tmp := Some (body, False))) = (err, fs2) \<and> fs' = os_Remove en tmp fs2)"
proof (cases "fetchLatestRelease en")
  case (Inr rel)
  let ?target = "currentTarget (ue_GOOS en) (ue_GOARCH en)"
  show ?thesis
  proof (cases "TrimPrefix (rl_TagName rel) (bytes_of ''v'') = ue_currentVersion en")
    case old: False
    show ?thesis
    proof (cases "findAsset (ue_GOOS en) (ue_GOARCH en) (rl_Assets rel) ?target")
      case (Some asset)
      obtain r fs1 where d: "downloadAsset en (as_URL asset) fs = (r, fs1)" by fastforce
      show ?thesis
      proof (cases r)
        case (Inl e)
        then have "fs1 p = fs p" if "p \<noteq> tmp" for p
          using that assms(3) by (intro downloadAsset_other [OF d]) auto
        then show ?thesis using assms(1) Inr Some d Inl old by (auto simp: Update_def Let_def)
      next
        case tmp': (Inr tmp')
        obtain body where b: "tmp' = tmp" "ue_get en (as_URL asset) = Inr (200, body, None)" "fs1 = fs(tmp := Some (body, False))"
          using downloadAsset_ok [of en "as_URL asset" fs tmp' fs1] d tmp' assms(3) by auto
        show ?thesis
          using assms(1,2) Inr Some d tmp' b old
          by (cases "extractBinary en tmp fs1 (as_Name asset)") (auto simp: Update_def Let_def split: prod.splits)
      qed
    qed (use assms(1) Inr old in \<open>auto simp: Update_def Let_def\<close>)
  qed (use assms(1) Inr in \<open>auto simp: Update_def\<close>)
qed (use assms(1) in \<open>auto simp: Update_def\<close>)


section \<open>The project's own release\<close>

definition release_assets :: "(gostring \<times> gostring \<Rightarrow> gostring) \<Rightarrow> githubAsset list" where
  "release_assets url = map (\<lambda>t. \<lparr>as_Name = release_asset t, as_URL = url t\<rparr>) release_matrix"

definition release_match :: "gostring \<times> gostring \<Rightarrow> (gostring \<times> gostring) option" where
  "release_match t = (let target = currentTarget (fst t) (snd t) in
     case find (\<lambda>u. Contains (ToLower (release_asset u)) (ToLower target)) release_matrix of
       Some u \<Rightarrow> Some u
     | None \<Rightarrow> find (\<lambda>u. Contains (ToLower (release_asset u)) (fst t) \<and> Contains (ToLower (release_asset u)) (snd t)) release_matrix)"

lemma find_map_conv: "find P (map f xs) = map_option f (find (\<lambda>x. P (f x)) xs)"
  by (induction xs) auto

lemma findAsset_release: "findAsset (fst t) (snd t) (release_assets url) (currentTarget (fst t) (snd t)) =
    map_option (\<lambda>t. \<lparr>as_Name = release_asset t, as_URL = url t\<rparr>) (release_match t)"
  by (simp add: findAsset_def release_assets_def release_match_def find_map_conv Let_def split: option.split)

lemma release_match_self: "list_all (\<lambda>t. release_match t = Some t) release_matrix"
  by code_simp

lemma release_archives:
  "list_all (\<lambda>t. HasSuffix (ToLower (release_asset t)) (bytes_of ''.tar.gz'') = (fst t \<noteq> bytes_of ''windows'') \<and>
     (fst t = bytes_of ''windows'' \<longrightarrow> \<not> HasSuffix (ToLower (release_asset t)) (bytes_of ''.gz'') \<and> \<not> HasSuffix (ToLower (release_asset t)) (bytes_of ''.tgz'')) \<and>
     filepath_Base (release_base t) \<noteq> update_binName \<and> filepath_Base (release_base t) \<noteq> update_binName @ bytes_of ''.exe'') release_matrix"
  by code_simp

lemma extract_own_release:
  assumes "t \<in> set release_matrix" "ue_Open en tmp = None" "fs tmp = Some (archive, x)"
    and "fst t \<noteq> bytes_of ''windows'' \<Longrightarrow> ue_gzip en archive = None \<and> ue_tar en archive = ([(release_base t, Inr bin)], None)"
  shows "extractBinary en tmp fs (release_asset t) = (if fst t = bytes_of ''windows'' then Inr archive else Inl BinaryNotFound)"
proof -
  have "HasSuffix (ToLower (release_asset t)) (bytes_of ''.tar.gz'') = (fst t \<noteq> bytes_of ''windows'')"
    "fst t = bytes_of ''windows'' \<Longrightarrow> \<not> HasSuffix (ToLower (release_asset t)) (bytes_of ''.gz'') \<and> \<not> HasSuffix (ToLower (release_asset t)) (bytes_of ''.tgz'')"
    "filepath_Base (release_base t) \<noteq> update_binName" "filepath_Base (release_base t) \<noteq> update_binName @ bytes_of ''.exe''"
    using release_archives assms(1) unfolding list_all_iff by blast+
  then show ?thesis
    using assms(2-4) by (auto simp: extractBinary_def extractFromTarGz_def Let_def)
qed

text \<open>
  C40. The self-update cannot install the project's own releases. For every target of the build matrix the asset of the release is
  found, but on Unix the archive has the entry \<open>outway-<os>-<arch>\<close> while \<open>extractFromTarGz\<close> looks for \<open>outway\<close>, so that every update ends with
  an error; on Windows the zip archive is taken for the binary and written over the executable.
\<close>

theorem own_release_not_installed:
  assumes "t \<in> set release_matrix" "ue_GOOS en = fst t" "ue_GOARCH en = snd t"
    and "ue_release en = Inr (200, Inr \<lparr>rl_TagName = tag, rl_Assets = release_assets url\<rparr>)" "TrimPrefix tag (bytes_of ''v'') \<noteq> ue_currentVersion en"
    and "ue_get en (url t) = Inr (200, archive, None)" "ue_TempFile en = Inr tmp" "ue_Open en tmp = None" "ue_Executable en = Inr exe"
    and "fst t \<noteq> bytes_of ''windows'' \<Longrightarrow> ue_gzip en archive = None \<and> ue_tar en archive = ([(release_base t, Inr bin)], None)"
  shows "Update en fs =
    (if fst t = bytes_of ''windows''
     then (case replaceExecutable en exe archive (fs(tmp := Some (archive, False))) of (err, fs') \<Rightarrow> (err, os_Remove en tmp fs'))
     else (Some BinaryNotFound, os_Remove en tmp (fs(tmp := Some (archive, False)))))"
proof -
  have "release_match t = Some t" using release_match_self assms(1) unfolding list_all_iff by blast
  then have "findAsset (ue_GOOS en) (ue_GOARCH en) (release_assets url) (currentTarget (ue_GOOS en) (ue_GOARCH en)) =
      Some \<lparr>as_Name = release_asset t, as_URL = url t\<rparr>"
    using findAsset_release [of t url] assms(2,3) by simp
  moreover have "downloadAsset en (url t) fs = (Inr tmp, fs(tmp := Some (archive, False)))"
    using assms(6,7) by (simp add: downloadAsset_def)
  ultimately show ?thesis
    using assms(4,5,9) extract_own_release [OF assms(1,8) _ assms(10), where fs = "fs(tmp := Some (archive, False))"] by (simp add: Update_def fetchLatestRelease_def Let_def)
qed

definition sample_update :: update_env where
  "sample_update = \<lparr>ue_GOOS = bytes_of ''linux'', ue_GOARCH = bytes_of ''amd64'', ue_currentVersion = bytes_of ''1.0.0'',
     ue_release = Inr (200, Inr \<lparr>rl_TagName = bytes_of ''v1.1.0'', rl_Assets = release_assets (\<lambda>t. [1])\<rparr>),
     ue_get = (\<lambda>url. Inr (200, [1, 2], None)), ue_Executable = Inr (bytes_of ''/bin/outway''), ue_TempFile = Inr (bytes_of ''/tmp/a''),
     ue_TempIn = Inr (bytes_of ''/bin/b''), ue_Open = (\<lambda>p. None), ue_gzip = (\<lambda>d. None), ue_gunzip = (\<lambda>d. Inr [3]),
     ue_tar = (\<lambda>d. ([(release_base (bytes_of ''linux'', bytes_of ''amd64''), Inr [4])], None)),
     ue_Write = None, ue_Chmod = None, ue_Close = None, ue_Rename = None, ue_Remove = (\<lambda>p. None)\<rparr>"

lemma sample_paths: "bytes_of ''linux'' \<noteq> bytes_of ''windows''" "bytes_of ''/tmp/a'' \<noteq> bytes_of ''/bin/outway''"
  "bytes_of ''/bin/b'' \<noteq> bytes_of ''/bin/outway''" "TrimPrefix (bytes_of ''v1.1.0'') (bytes_of ''v'') \<noteq> bytes_of ''1.0.0''"
  by (simp_all add: bytes_of_def TrimPrefix_def HasPrefix_def)

theorem own_release_not_installed_witness:
  "fst (Update sample_update (\<lambda>p. None)) = Some BinaryNotFound"
proof -
  let ?t = "(bytes_of ''linux'', bytes_of ''amd64'')"
  have "?t \<in> set release_matrix" by (simp add: release_matrix_def)
  from own_release_not_installed [OF this, of sample_update "bytes_of ''v1.1.0''" "\<lambda>t. [1]" "[1, 2]" "bytes_of ''/tmp/a''"
      "bytes_of ''/bin/outway''" "[4]" "\<lambda>p. None"]
  show ?thesis using sample_paths by (simp add: sample_update_def)
qed

lemma sample_update_succeeds:
  assumes "en = sample_update\<lparr>ue_tar := \<lambda>d. ([(bytes_of ''outway'', Inr [4])], None)\<rparr>"
  shows "fst (Update en fs) = None"
proof -
  let ?t = "(bytes_of ''linux'', bytes_of ''amd64'')"
  have t: "?t \<in> set release_matrix" by (simp add: release_matrix_def)
  have "release_match ?t = Some ?t" using release_match_self t unfolding list_all_iff by blast
  then have f: "findAsset (bytes_of ''linux'') (bytes_of ''amd64'') (release_assets (\<lambda>t. [1])) (currentTarget (bytes_of ''linux'') (bytes_of ''amd64'')) =
      Some \<lparr>as_Name = release_asset ?t, as_URL = [1]\<rparr>"
    using findAsset_release [of ?t "\<lambda>t. [1]"] by simp
  have "HasSuffix (ToLower (release_asset ?t)) (bytes_of ''.tar.gz'')"
    using release_archives t sample_paths(1) unfolding list_all_iff by fastforce
  moreover have "filepath_Base (bytes_of ''outway'') = update_binName" by code_simp
  ultimately show ?thesis
    using f sample_paths assms by (simp add: Update_def fetchLatestRelease_def downloadAsset_def extractBinary_def extractFromTarGz_def
        replaceExecutable_def sample_update_def Let_def)
qed


end
