(* ===== verification/ServerBase.thy ===== *)
theory ServerBase
  imports NetipParse
begin

text \<open>
  Model of \<open>internal/serverbase/serverbase.go\<close>: accept shards and listeners, the connection gate, the
  sharded connection registry, lifetime shards and the bidirectional copy. A connection is identified
  by its pointer, as the registry does. Every method that runs under a lock is one function on the
  state; what other goroutines do in between shows in the order in which the functions are applied.
\<close>

section \<open>Definitions\<close>

definition AcceptShards :: "bool \<Rightarrow> int \<Rightarrow> bool \<Rightarrow> int" where
  "AcceptShards reusePortSupported gomaxprocs reusePort =
     (if \<not> reusePort \<or> \<not> reusePortSupported then 1
      else let shards = gomaxprocs in
        if shards < 1 then 1 else if shards > 16 then 16 else shards)"

text \<open>A \<open>net.Addr\<close>: a TCP or UDP address, another type given by its string, or nil.\<close>

datatype net_addr = TCPAddr udp_addr | UDPAddr udp_addr | OtherAddr gostring | NilAddr

definition AddrPortOf :: "net_addr \<Rightarrow> addr_port" where
  "AddrPortOf a = (case a of
      TCPAddr v \<Rightarrow> (let ap = UDPAddr_AddrPort v in AddrPortFrom (Unmap (ap_addr ap)) (ap_port ap))
    | UDPAddr v \<Rightarrow> (let ap = UDPAddr_AddrPort v in AddrPortFrom (Unmap (ap_addr ap)) (ap_port ap))
    | NilAddr \<Rightarrow> AddrPortFrom ZeroAddr 0
    | OtherAddr s \<Rightarrow> (case ParseAddrPort s of Some ap \<Rightarrow> ap | None \<Rightarrow> AddrPortFrom ZeroAddr 0))"

text \<open>
  \<open>ListenTCPShards\<close>. The environment gives the result of the i-th call of \<open>Listen\<close>; a listener is
  identified by a number. The result is the listeners, or the error together with the listeners that
  were closed again.
\<close>

fun listen_rest :: "(nat \<Rightarrow> nat res) \<Rightarrow> nat \<Rightarrow> nat \<Rightarrow> nat list \<Rightarrow> (go_error \<times> nat list) + nat list" where
  "listen_rest lst i 0 listeners = Inr listeners"
| "listen_rest lst i (Suc n) listeners = (case lst i of
      Inl e \<Rightarrow> Inl (e, listeners)
    | Inr ln \<Rightarrow> listen_rest lst (Suc i) n (listeners @ [ln]))"

definition ListenTCPShards ::
    "bool \<Rightarrow> (nat \<Rightarrow> nat res) \<Rightarrow> gostring \<Rightarrow> int \<Rightarrow> (go_error \<times> nat list) + nat list" where
  "ListenTCPShards reusePortSupported lst network shards =
     (let sharded = shards > 1 \<and> reusePortSupported;
          first = (case lst 0 of
             Inr ln \<Rightarrow> Inr (ln, 1)
           | Inl e \<Rightarrow> if network = bytes_of ''tcp6''
               then (case lst 1 of Inr ln \<Rightarrow> Inr (ln, 2) | Inl e \<Rightarrow> Inl e)
               else Inl e)
      in case first of
          Inl e \<Rightarrow> Inl (e, [])
        | Inr (ln, i) \<Rightarrow>
            if \<not> sharded then Inr [ln] else listen_rest lst i (nat (shards - 1)) [ln])"

subsection \<open>The connection gate\<close>

record ConnectionGate =
  tokens :: "chan option"

definition NewConnectionGate :: "u32 \<Rightarrow> ConnectionGate" where
  "NewConnectionGate mx =
     (if mx = 0 then \<lparr>tokens = None\<rparr> else \<lparr>tokens = Some (chan_make (unat mx))\<rparr>)"

definition NewTLSHandshakeGate :: "int \<Rightarrow> u32 \<Rightarrow> ConnectionGate" where
  "NewTLSHandshakeGate gomaxprocs maxConnections =
     (let limit = gomaxprocs * 32;
          limit = (if limit < 64 then 64 else limit);
          limit = (if limit > 1024 then 1024 else limit);
          limit = (if maxConnections > 0 \<and> word_of_int limit > maxConnections
                   then uint maxConnections else limit);
          limit = (if limit < 1 then 1 else limit)
      in NewConnectionGate (word_of_int limit))"

text \<open>
  A send that finds the channel full blocks: \<open>None\<close>. \<open>Acquire\<close> and \<open>Release\<close> return when the gate has no
  token channel.
\<close>

definition Acquire :: "ConnectionGate \<Rightarrow> ConnectionGate option" where
  "Acquire g = (case tokens g of
      None \<Rightarrow> Some g
    | Some c \<Rightarrow> map_option (\<lambda>c'. g\<lparr>tokens := Some c'\<rparr>) (chan_try_send c))"

definition Release :: "ConnectionGate \<Rightarrow> ConnectionGate option" where
  "Release g = (case tokens g of
      None \<Rightarrow> Some g
    | Some c \<Rightarrow> map_option (\<lambda>c'. g\<lparr>tokens := Some c'\<rparr>) (chan_recv c))"

text \<open>
  \<open>AcquireUntil\<close>. When the first send finds the channel full, the goroutine blocks until the done
  channel is closed or a slot is free; \<open>wait\<close> is the gate at the moment the blocked send goes through,
  or \<open>None\<close> when the select took the done case. \<open>done\<close> tells whether shutdown has started when the
  last select looks.
\<close>

definition AcquireUntil ::
    "ConnectionGate \<Rightarrow> ConnectionGate option \<Rightarrow> bool \<Rightarrow> bool \<times> ConnectionGate" where
  "AcquireUntil g wait don = (case tokens g of
      None \<Rightarrow> (\<not> don, g)
    | Some c \<Rightarrow>
       (case (case Acquire g of
                Some g' \<Rightarrow> Some g'
              | None \<Rightarrow> (case wait of None \<Rightarrow> None | Some gw \<Rightarrow> Acquire gw)) of
          None \<Rightarrow> (False, g)
        | Some g' \<Rightarrow>
            if don then (False, case Release g' of Some g'' \<Rightarrow> g'' | None \<Rightarrow> g')
            else (True, g')))"

subsection \<open>The connection registry\<close>

type_synonym conn = u64

record connSetShard =
  cs_closed :: bool
  cs_conns :: "conn list"

record ConnectionSet =
  cset_done :: bool
  cset_shards :: "connSetShard list"

definition connSetShards :: nat where
  "connSetShards = 2 ^ 5"

definition NewConnectionSet :: ConnectionSet where
  "NewConnectionSet = \<lparr>cset_done = False,
     cset_shards = replicate connSetShards \<lparr>cs_closed = False, cs_conns = []\<rparr>\<rparr>"

definition shardFor :: "conn \<Rightarrow> nat" where
  "shardFor c = unat (drop_bit (64 - 5) (c * 0x9e3779b97f4a7c15))"

definition Add_conn :: "ConnectionSet \<Rightarrow> conn \<Rightarrow> bool \<times> ConnectionSet" where
  "Add_conn s c =
     (let i = shardFor c; shard = cset_shards s ! i in
      if cs_closed shard then (False, s)
      else (True, s\<lparr>cset_shards := (cset_shards s)[i := shard\<lparr>cs_conns := List.insert c (cs_conns shard)\<rparr>]\<rparr>))"

definition Remove_conn :: "ConnectionSet \<Rightarrow> conn \<Rightarrow> ConnectionSet" where
  "Remove_conn s c =
     (let i = shardFor c; shard = cset_shards s ! i in
      s\<lparr>cset_shards := (cset_shards s)[i := shard\<lparr>cs_conns := removeAll c (cs_conns shard)\<rparr>]\<rparr>)"

text \<open>
  \<open>CloseAll\<close> closes the done channel and then handles one shard after the other; other goroutines can
  run between two shards. \<open>close_shard\<close> is the locked part for shard \<open>i\<close> and returns the connections to
  close.
\<close>

definition begin_close :: "ConnectionSet \<Rightarrow> ConnectionSet" where
  "begin_close s = s\<lparr>cset_done := True\<rparr>"

definition close_shard :: "nat \<Rightarrow> ConnectionSet \<Rightarrow> conn list \<times> ConnectionSet" where
  "close_shard i s = (cs_conns (cset_shards s ! i),
     s\<lparr>cset_shards := (cset_shards s)[i := \<lparr>cs_closed = True, cs_conns = []\<rparr>]\<rparr>)"

fun close_shards :: "nat list \<Rightarrow> ConnectionSet \<Rightarrow> conn list \<times> ConnectionSet" where
  "close_shards [] s = ([], s)"
| "close_shards (i # is) s =
     (let (cs, s) = close_shard i s; (cs', s) = close_shards is s in (cs @ cs', s))"

definition CloseAll :: "ConnectionSet \<Rightarrow> conn list \<times> ConnectionSet" where
  "CloseAll s = close_shards [0..<connSetShards] (begin_close s)"

subsection \<open>Lifetime shards\<close>

definition lifetimeShardCount :: nat where
  "lifetimeShardCount = 2 ^ 3"

definition LifetimeShards_For :: "conn \<Rightarrow> nat" where
  "LifetimeShards_For c = unat (drop_bit (64 - 3) (c * 0x9e3779b97f4a7c15))"

subsection \<open>Bidirectional copy\<close>

text \<open>
  The two directions of \<open>CopyBidirectionalContext\<close> run concurrently; the state keeps what they share
  and the effects on the two connections. The interrupting events are the cancellation of the context
  and the grace timer.
\<close>

datatype side = SideA | SideB

text \<open>
  \<open>CloseWrite\<close> half-closes a connection whose type has the method: a TCP and a TLS connection do, a wrapper that
  only embeds the interface \<open>net.Conn\<close> does not.
\<close>

datatype conn_kind = TCPConn | TLSConn | WrappedConn

definition CloseWrite :: "conn_kind \<Rightarrow> bool" where
  "CloseWrite c = (case c of TCPConn \<Rightarrow> True | TLSConn \<Rightarrow> True | WrappedConn \<Rightarrow> False)"

record copy_state =
  cp_wclosed :: "side list"
  cp_firstDone :: bool
  cp_timer :: bool
  cp_interrupted :: bool
  cp_done :: "side list"

definition copy_start :: copy_state where
  "copy_start = \<lparr>cp_wclosed = [], cp_firstDone = False, cp_timer = False, cp_interrupted = False, cp_done = []\<rparr>"

datatype copy_event = StreamDone side | CtxCancelled | GraceExpired

text \<open>\<open>StreamDone dst\<close>: the copy towards \<open>dst\<close> ended, and \<open>finishDirection(dst)\<close> runs.\<close>

definition finishDirection :: "(side \<Rightarrow> conn_kind) \<Rightarrow> nat \<Rightarrow> side \<Rightarrow> copy_state \<Rightarrow> copy_state" where
  "finishDirection kinds halfCloseGrace dst s =
     (let s = (if CloseWrite (kinds dst) then s\<lparr>cp_wclosed := cp_wclosed s @ [dst]\<rparr> else s);
          s = (if \<not> cp_firstDone s
               then s\<lparr>cp_firstDone := True, cp_timer := (halfCloseGrace > 0)\<rparr> else s)
      in s\<lparr>cp_done := cp_done s @ [dst]\<rparr>)"

definition copy_step :: "(side \<Rightarrow> conn_kind) \<Rightarrow> nat \<Rightarrow> copy_state \<Rightarrow> copy_event \<Rightarrow> copy_state option" where
  "copy_step kinds grace s e = (case e of
      StreamDone dst \<Rightarrow> if dst \<in> set (cp_done s) then None else Some (finishDirection kinds grace dst s)
    | CtxCancelled \<Rightarrow> Some (s\<lparr>cp_interrupted := True\<rparr>)
    | GraceExpired \<Rightarrow> if cp_timer s then Some (s\<lparr>cp_interrupted := True\<rparr>) else None)"

fun copy_run :: "(side \<Rightarrow> conn_kind) \<Rightarrow> nat \<Rightarrow> copy_state \<Rightarrow> copy_event list \<Rightarrow> copy_state option" where
  "copy_run kinds grace s [] = Some s"
| "copy_run kinds grace s (e # es) = (case copy_step kinds grace s e of None \<Rightarrow> None | Some s' \<Rightarrow> copy_run kinds grace s' es)"

definition copy_returns :: "copy_state \<Rightarrow> bool" where
  "copy_returns s \<longleftrightarrow> SideA \<in> set (cp_done s) \<and> SideB \<in> set (cp_done s)"

section \<open>The registry interface\<close>

text \<open>
  Accept loops and handlers add and remove connections while a shutdown closes one part of the
  registry after the other. A trace records which additions succeeded, which connections were removed
  by their handlers and which the shutdown closed.
\<close>

datatype 'c reg_event = EvAdd 'c | EvRemove 'c | EvClose nat

record ('s, 'c) reg_trace =
  rt_set :: 's
  rt_added :: "'c set"
  rt_removed :: "'c set"
  rt_closed :: "'c set"

definition reg_step :: "('s \<Rightarrow> 'c \<Rightarrow> bool \<times> 's) \<Rightarrow> ('s \<Rightarrow> 'c \<Rightarrow> 's) \<Rightarrow> (nat \<Rightarrow> 's \<Rightarrow> 'c list \<times> 's)
    \<Rightarrow> ('s, 'c) reg_trace \<Rightarrow> 'c reg_event \<Rightarrow> ('s, 'c) reg_trace" where
  "reg_step add remove close_part t e = (case e of
      EvAdd c \<Rightarrow> (let (ok, s') = add (rt_set t) c in
        t\<lparr>rt_set := s', rt_added := (if ok then insert c (rt_added t) else rt_added t)\<rparr>)
    | EvRemove c \<Rightarrow> t\<lparr>rt_set := remove (rt_set t) c, rt_removed := insert c (rt_removed t)\<rparr>
    | EvClose i \<Rightarrow> (let (cs, s') = close_part i (rt_set t) in
        t\<lparr>rt_set := s', rt_closed := rt_closed t \<union> set cs\<rparr>))"

definition reg_run :: "('s \<Rightarrow> 'c \<Rightarrow> bool \<times> 's) \<Rightarrow> ('s \<Rightarrow> 'c \<Rightarrow> 's) \<Rightarrow> (nat \<Rightarrow> 's \<Rightarrow> 'c list \<times> 's)
    \<Rightarrow> 's \<Rightarrow> 'c reg_event list \<Rightarrow> ('s, 'c) reg_trace" where
  "reg_run add remove close_part s es = foldl (reg_step add remove close_part)
     \<lparr>rt_set = s, rt_added = {}, rt_removed = {}, rt_closed = {}\<rparr> es"

locale conn_registry =
  fixes add :: "'s \<Rightarrow> 'c \<Rightarrow> bool \<times> 's"
    and remove :: "'s \<Rightarrow> 'c \<Rightarrow> 's"
    and close_part :: "nat \<Rightarrow> 's \<Rightarrow> 'c list \<times> 's"
    and parts :: nat
    and part_of :: "'c \<Rightarrow> nat"
    and part_closed :: "'s \<Rightarrow> nat \<Rightarrow> bool"
    and elems :: "'s \<Rightarrow> 'c set"
    and invar :: "'s \<Rightarrow> bool"
  assumes add_law: "invar s \<Longrightarrow> add s c = (ok, s') \<Longrightarrow> invar s' \<and>
      elems s' = (if ok then insert c (elems s) else elems s) \<and> (ok \<longleftrightarrow> \<not> part_closed s (part_of c))"
    and remove_law: "invar s \<Longrightarrow> invar (remove s c) \<and> elems (remove s c) = elems s - {c}"
    and close_law: "invar s \<Longrightarrow> i < parts \<Longrightarrow> close_part i s = (cs, s') \<Longrightarrow>
      invar s' \<and> elems s = set cs \<union> elems s' \<and> part_closed s' i"
    and closed_add: "invar s \<Longrightarrow> i < parts \<Longrightarrow> part_closed s i \<Longrightarrow> add s c = (ok, s') \<Longrightarrow> part_closed s' i"
    and closed_remove: "invar s \<Longrightarrow> i < parts \<Longrightarrow> part_closed s i \<Longrightarrow> part_closed (remove s c) i"
    and closed_close: "invar s \<Longrightarrow> i < parts \<Longrightarrow> part_closed s i \<Longrightarrow> close_part j s = (cs, s') \<Longrightarrow> part_closed s' i"
    and part_of_less: "part_of c < parts"
    and closed_empty: "invar s \<Longrightarrow> part_closed s (part_of c) \<Longrightarrow> c \<notin> elems s"
begin

definition accounted :: "('s, 'c) reg_trace \<Rightarrow> bool" where
  "accounted t \<longleftrightarrow> invar (rt_set t) \<and> rt_added t \<subseteq> elems (rt_set t) \<union> rt_removed t \<union> rt_closed t"

lemma step_accounted:
  assumes "accounted t" "case e of EvClose i \<Rightarrow> i < parts | _ \<Rightarrow> True"
  shows "accounted (reg_step add remove close_part t e)"
proof (cases e)
  case (EvAdd c)
  obtain ok s' where "add (rt_set t) c = (ok, s')" by fastforce
  with add_law [of "rt_set t" c ok s'] assms(1) EvAdd show ?thesis
    by (auto simp: accounted_def reg_step_def)
next
  case (EvRemove c)
  with remove_law [of "rt_set t" c] assms(1) show ?thesis
    by (auto simp: accounted_def reg_step_def)
next
  case (EvClose i)
  obtain cs s' where "close_part i (rt_set t) = (cs, s')" by fastforce
  with close_law [of "rt_set t" i cs s'] assms EvClose show ?thesis
    by (auto simp: accounted_def reg_step_def)
qed

lemma step_closed:
  assumes "accounted t" "case e of EvClose j \<Rightarrow> j < parts | _ \<Rightarrow> True" "i < parts"
    "part_closed (rt_set t) i \<or> e = EvClose i"
  shows "part_closed (rt_set (reg_step add remove close_part t e)) i"
proof (cases e)
  case (EvAdd c)
  obtain ok s' where "add (rt_set t) c = (ok, s')" by fastforce
  with closed_add [of "rt_set t" i c ok s'] assms EvAdd show ?thesis
    by (simp add: accounted_def reg_step_def)
next
  case (EvRemove c)
  with closed_remove [of "rt_set t" i c] assms show ?thesis
    by (simp add: accounted_def reg_step_def)
next
  case (EvClose j)
  obtain cs s' where "close_part j (rt_set t) = (cs, s')" by fastforce
  with close_law [of "rt_set t" j cs s'] closed_close [of "rt_set t" i j cs s'] assms EvClose
  show ?thesis by (auto simp: accounted_def reg_step_def)
qed

lemma run_accounted:
  assumes "accounted t" "\<forall>i. EvClose i \<in> set es \<longrightarrow> i < parts"
  shows "accounted (foldl (reg_step add remove close_part) t es) \<and>
    (\<forall>i < parts. part_closed (rt_set t) i \<or> EvClose i \<in> set es \<longrightarrow>
       part_closed (rt_set (foldl (reg_step add remove close_part) t es)) i)"
  using assms
proof (induction es arbitrary: t)
  case (Cons e es)
  have e: "case e of EvClose j \<Rightarrow> j < parts | _ \<Rightarrow> True" using Cons.prems(2) by (cases e) auto
  show ?case
    using Cons.IH [OF step_accounted [OF Cons.prems(1) e]] Cons.prems(2)
      step_closed [OF Cons.prems(1) e] by auto
qed simp

lemma shutdown_complete:
  assumes "invar s" "\<forall>i. EvClose i \<in> set es \<longleftrightarrow> i < parts"
  shows "rt_added (reg_run add remove close_part s es) \<subseteq>
      rt_removed (reg_run add remove close_part s es) \<union> rt_closed (reg_run add remove close_part s es)"
    "elems (rt_set (reg_run add remove close_part s es)) = {}"
    "fst (add (rt_set (reg_run add remove close_part s es)) c) = False"
proof -
  let ?t = "reg_run add remove close_part s es"
  have "accounted \<lparr>rt_set = s, rt_added = {}, rt_removed = {}, rt_closed = {}\<rparr>"
    using assms(1) by (simp add: accounted_def)
  from run_accounted [OF this, of es] assms(2)
  have acc: "accounted ?t" and cl: "\<forall>i < parts. part_closed (rt_set ?t) i"
    by (auto simp: reg_run_def)
  then show "elems (rt_set ?t) = {}"
    using closed_empty part_of_less by (auto simp: accounted_def)
  with acc show "rt_added ?t \<subseteq> rt_removed ?t \<union> rt_closed ?t" by (simp add: accounted_def)
  obtain ok s' where a: "add (rt_set ?t) c = (ok, s')" by fastforce
  with add_law [OF _ a] acc cl part_of_less [of c] show "fst (add (rt_set ?t) c) = False"
    by (simp add: accounted_def)
qed

end

section \<open>The registry\<close>

definition cset_elems :: "ConnectionSet \<Rightarrow> conn set" where
  "cset_elems s = (\<Union>sh \<in> set (cset_shards s). set (cs_conns sh))"

definition shard_ok :: "nat \<Rightarrow> connSetShard \<Rightarrow> bool" where
  "shard_ok i sh \<longleftrightarrow> distinct (cs_conns sh) \<and> (cs_closed sh \<longrightarrow> cs_conns sh = []) \<and>
     (\<forall>c \<in> set (cs_conns sh). shardFor c = i)"

definition cset_inv :: "ConnectionSet \<Rightarrow> bool" where
  "cset_inv s \<longleftrightarrow> length (cset_shards s) = connSetShards \<and>
     (\<forall>i < connSetShards. shard_ok i (cset_shards s ! i))"

lemma unat_drop_bit_less:
  assumes "k \<le> 64"
  shows "unat (drop_bit k (x :: u64)) < 2 ^ (64 - k)"
proof -
  have "unat (drop_bit k x) = unat x div 2 ^ k"
    unfolding unat_drop_bit_eq by (rule drop_bit_eq_div)
  also have "\<dots> < 2 ^ (64 - k)"
    using unat_u64_less [of x] assms
    by (simp add: less_mult_imp_div_less flip: power_add)
  finally show ?thesis .
qed

lemma shardFor_less [simp]: "shardFor c < connSetShards"
  using unat_drop_bit_less [of 59] by (simp add: shardFor_def connSetShards_def)

lemma LifetimeShards_For_less: "LifetimeShards_For c < lifetimeShardCount"
  using unat_drop_bit_less [of 61] by (simp add: LifetimeShards_For_def lifetimeShardCount_def)

lemma cset_elems_iff:
  assumes "cset_inv s"
  shows "c \<in> cset_elems s \<longleftrightarrow> c \<in> set (cs_conns (cset_shards s ! shardFor c))"
proof
  assume "c \<in> cset_elems s"
  then obtain sh where "sh \<in> set (cset_shards s)" "c \<in> set (cs_conns sh)"
    by (auto simp: cset_elems_def)
  then obtain i where "i < connSetShards" "c \<in> set (cs_conns (cset_shards s ! i))"
    using assms by (metis cset_inv_def in_set_conv_nth)
  then show "c \<in> set (cs_conns (cset_shards s ! shardFor c))"
    using assms by (auto simp: cset_inv_def shard_ok_def)
next
  assume "c \<in> set (cs_conns (cset_shards s ! shardFor c))"
  then show "c \<in> cset_elems s"
    using assms nth_mem [of "shardFor c" "cset_shards s"] by (auto simp: cset_elems_def cset_inv_def)
qed

lemma cset_update:
  assumes "cset_inv s" "shard_ok i sh" "i < connSetShards"
  shows "cset_inv (s\<lparr>cset_shards := (cset_shards s)[i := sh]\<rparr>)"
    and "cset_elems (s\<lparr>cset_shards := (cset_shards s)[i := sh]\<rparr>) =
      set (cs_conns sh) \<union> {c \<in> cset_elems s. shardFor c \<noteq> i}"
proof -
  show inv: "cset_inv (s\<lparr>cset_shards := (cset_shards s)[i := sh]\<rparr>)"
    using assms by (simp add: cset_inv_def nth_list_update)
  have "c \<in> cset_elems (s\<lparr>cset_shards := (cset_shards s)[i := sh]\<rparr>) \<longleftrightarrow>
      c \<in> set (cs_conns sh) \<union> {c \<in> cset_elems s. shardFor c \<noteq> i}" for c
  proof -
    have len: "length (cset_shards s) = connSetShards" using assms(1) by (simp add: cset_inv_def)
    have "c \<in> set (cs_conns sh) \<Longrightarrow> shardFor c = i" using assms(2) by (simp add: shard_ok_def)
    then show ?thesis
      unfolding cset_elems_iff [OF inv]
      by (cases "shardFor c = i") (simp_all add: len assms(3) cset_elems_iff [OF assms(1)], blast)
  qed
  then show "cset_elems (s\<lparr>cset_shards := (cset_shards s)[i := sh]\<rparr>) =
      set (cs_conns sh) \<union> {c \<in> cset_elems s. shardFor c \<noteq> i}" by blast
qed

lemma cset_invD:
  assumes "cset_inv s" "i < connSetShards"
  shows "shard_ok i (cset_shards s ! i)" "length (cset_shards s) = connSetShards"
  using assms by (auto simp: cset_inv_def)

lemma NewConnectionSet_inv [simp]: "cset_inv NewConnectionSet" "cset_elems NewConnectionSet = {}"
  by (auto simp: cset_inv_def shard_ok_def NewConnectionSet_def cset_elems_def)

lemma cset_elems_shard:
  assumes "cset_inv s" "i < connSetShards"
  shows "set (cs_conns (cset_shards s ! i)) = {c \<in> cset_elems s. shardFor c = i}"
  using cset_invD(1) [OF assms] cset_elems_iff [OF assms(1)] by (auto simp: shard_ok_def)

lemma Add_conn_ok:
  assumes "cset_inv s" "Add_conn s c = (ok, s')"
  shows "cset_inv s'" "cset_elems s' = (if ok then insert c (cset_elems s) else cset_elems s)"
    "ok \<longleftrightarrow> \<not> cs_closed (cset_shards s ! shardFor c)"
proof -
  let ?sh = "cset_shards s ! shardFor c"
  let ?sh' = "?sh\<lparr>cs_conns := List.insert c (cs_conns ?sh)\<rparr>"
  have r: "(ok, s') = (if cs_closed ?sh then (False, s)
      else (True, s\<lparr>cset_shards := (cset_shards s)[shardFor c := ?sh']\<rparr>))"
    using assms(2) by (simp add: Add_conn_def Let_def)
  then show "ok \<longleftrightarrow> \<not> cs_closed ?sh" by (simp split: if_splits)
  have "cset_inv s' \<and> cset_elems s' = (if ok then insert c (cset_elems s) else cset_elems s)"
  proof (cases "cs_closed ?sh")
    case False
    then have ok: "shard_ok (shardFor c) ?sh'"
      using cset_invD(1) [OF assms(1) shardFor_less, of c] by (auto simp: shard_ok_def)
    have "set (cs_conns ?sh') = insert c {x \<in> cset_elems s. shardFor x = shardFor c}"
      using cset_elems_shard [OF assms(1) shardFor_less, of c] by simp
    with cset_update [OF assms(1) ok shardFor_less] False r show ?thesis by auto
  qed (use r assms(1) in simp)
  then show "cset_inv s'" "cset_elems s' = (if ok then insert c (cset_elems s) else cset_elems s)"
    by auto
qed

lemma shard_ok_removeAll: "shard_ok i sh \<Longrightarrow> shard_ok i (sh\<lparr>cs_conns := removeAll c (cs_conns sh)\<rparr>)"
  by (cases sh) (simp add: shard_ok_def distinct_removeAll)

lemma Remove_conn_ok:
  assumes "cset_inv s"
  shows "cset_inv (Remove_conn s c)" "cset_elems (Remove_conn s c) = cset_elems s - {c}"
proof -
  let ?sh = "cset_shards s ! shardFor c"
  let ?sh' = "?sh\<lparr>cs_conns := removeAll c (cs_conns ?sh)\<rparr>"
  have eq: "Remove_conn s c = s\<lparr>cset_shards := (cset_shards s)[shardFor c := ?sh']\<rparr>"
    by (simp add: Remove_conn_def Let_def)
  have ok: "shard_ok (shardFor c) ?sh'"
    using cset_invD(1) [OF assms shardFor_less] by (rule shard_ok_removeAll)
  show "cset_inv (Remove_conn s c)"
    unfolding eq using assms ok shardFor_less by (rule cset_update(1))
  have "set (cs_conns ?sh') = {x \<in> cset_elems s. shardFor x = shardFor c} - {c}"
    using cset_elems_shard [OF assms shardFor_less, of c] by simp
  then show "cset_elems (Remove_conn s c) = cset_elems s - {c}"
    unfolding eq cset_update(2) [OF assms ok shardFor_less] by blast
qed

lemma close_shard_ok:
  assumes "cset_inv s" "i < connSetShards" "close_shard i s = (cs, s')"
  shows "cset_inv s'" "cset_elems s = set cs \<union> cset_elems s'" "distinct cs"
    "set cs \<inter> cset_elems s' = {}" "cs_closed (cset_shards s' ! i)"
proof -
  let ?sh = "\<lparr>cs_closed = True, cs_conns = []\<rparr>"
  have ok: "shard_ok i ?sh" by (simp add: shard_ok_def)
  have sh: "shard_ok i (cset_shards s ! i)" "length (cset_shards s) = connSetShards"
    using cset_invD [OF assms(1,2)] by auto
  have eq: "cs = cs_conns (cset_shards s ! i)" "s' = s\<lparr>cset_shards := (cset_shards s)[i := ?sh]\<rparr>"
    using assms(3) by (auto simp: close_shard_def)
  show "cset_inv s'" using cset_update(1) [OF assms(1) ok assms(2)] by (simp add: eq)
  have el: "cset_elems s' = {c \<in> cset_elems s. shardFor c \<noteq> i}"
    using cset_update(2) [OF assms(1) ok assms(2)] by (simp add: eq)
  moreover have "set cs = {c \<in> cset_elems s. shardFor c = i}"
    using cset_elems_shard [OF assms(1,2)] by (simp add: eq)
  ultimately show "cset_elems s = set cs \<union> cset_elems s'" "set cs \<inter> cset_elems s' = {}" by auto
  show "distinct cs" "cs_closed (cset_shards s' ! i)" using sh assms(2) by (auto simp: eq shard_ok_def)
qed

lemma closed_stays:
  assumes "length (cset_shards s) = connSetShards" "cs_closed (cset_shards s ! i)" "i < connSetShards"
  shows "Add_conn s c = (ok, s') \<Longrightarrow> cs_closed (cset_shards s' ! i)"
    "cs_closed (cset_shards (Remove_conn s c) ! i)"
    "close_shard j s = (cs, s') \<Longrightarrow> cs_closed (cset_shards s' ! i)"
proof -
  have upd: "cs_closed ((cset_shards s)[k := sh] ! i)" if "k = i \<Longrightarrow> cs_closed sh" for k sh
    using assms that by (cases "k = i") simp_all
  show "Add_conn s c = (ok, s') \<Longrightarrow> cs_closed (cset_shards s' ! i)"
    "cs_closed (cset_shards (Remove_conn s c) ! i)"
    "close_shard j s = (cs, s') \<Longrightarrow> cs_closed (cset_shards s' ! i)"
    using assms(2) by (auto simp: Add_conn_def Remove_conn_def close_shard_def Let_def intro!: upd split: if_splits)
qed

interpretation cset: conn_registry Add_conn Remove_conn close_shard connSetShards shardFor
  "\<lambda>s i. cs_closed (cset_shards s ! i)" cset_elems cset_inv
proof unfold_locales
  have len: "length (cset_shards s) = connSetShards" if "cset_inv s" for s
    using that by (simp add: cset_inv_def)
  show "cset_inv s' \<and> cset_elems s' = (if ok then insert c (cset_elems s) else cset_elems s) \<and>
      ok = (\<not> cs_closed (cset_shards s ! shardFor c))"
    if "cset_inv s" "Add_conn s c = (ok, s')" for s c ok s'
    using Add_conn_ok [OF that] by blast
  show "cset_inv (Remove_conn s c) \<and> cset_elems (Remove_conn s c) = cset_elems s - {c}"
    if "cset_inv s" for s c
    using Remove_conn_ok [OF that] by blast
  show "cset_inv s' \<and> cset_elems s = set cs \<union> cset_elems s' \<and> cs_closed (cset_shards s' ! i)"
    if "cset_inv s" "i < connSetShards" "close_shard i s = (cs, s')" for s i cs s'
    using close_shard_ok [OF that] by blast
  show "cs_closed (cset_shards s' ! i)"
    if "cset_inv s" "i < connSetShards" "cs_closed (cset_shards s ! i)" "Add_conn s c = (ok, s')"
    for s i c ok s'
    using closed_stays(1) [OF len that(3,2,4)] that(1) by blast
  show "cs_closed (cset_shards (Remove_conn s c) ! i)"
    if "cset_inv s" "i < connSetShards" "cs_closed (cset_shards s ! i)" for s i c
    using closed_stays(2) [OF len that(3,2)] that(1) by blast
  show "cs_closed (cset_shards s' ! i)"
    if "cset_inv s" "i < connSetShards" "cs_closed (cset_shards s ! i)" "close_shard j s = (cs, s')"
    for s i j cs s'
    using closed_stays(3) [OF len that(3,2,4)] that(1) by blast
  show "c \<notin> cset_elems s" if "cset_inv s" "cs_closed (cset_shards s ! shardFor c)" for s c
    using cset_invD(1) [OF that(1) shardFor_less, of c] that by (simp add: cset_elems_iff shard_ok_def)
qed (rule shardFor_less)

lemma close_shards_closed:
  assumes "length (cset_shards s) = connSetShards" "cs_closed (cset_shards s ! i)" "i < connSetShards"
    "close_shards is s = (cs, s')"
  shows "cs_closed (cset_shards s' ! i)"
  using assms
proof (induction "is" arbitrary: s cs)
  case (Cons j "is")
  obtain c1 s1 where c1: "close_shard j s = (c1, s1)" by fastforce
  obtain c2 where c2: "close_shards is s1 = (c2, s')"
    using Cons.prems(4) c1 by (auto split: prod.splits)
  have "length (cset_shards s1) = connSetShards" using c1 Cons.prems(1) by (auto simp: close_shard_def)
  then show ?case
    using Cons.IH [OF _ closed_stays(3) [OF Cons.prems(1-3) c1] Cons.prems(3) c2] by simp
qed simp

lemma close_shards_ok:
  assumes "cset_inv s" "\<forall>i \<in> set is. i < connSetShards" "close_shards is s = (cs, s')"
  shows "cset_inv s' \<and> cset_elems s = set cs \<union> cset_elems s' \<and> set cs \<inter> cset_elems s' = {} \<and>
    distinct cs \<and> (\<forall>i \<in> set is. cs_closed (cset_shards s' ! i))"
  using assms
proof (induction "is" arbitrary: s cs)
  case (Cons i "is")
  obtain c1 s1 where c1: "close_shard i s = (c1, s1)" by fastforce
  obtain c2 where c2: "close_shards is s1 = (c2, s')" and cs: "cs = c1 @ c2"
    using Cons.prems(3) c1 by (auto split: prod.splits)
  note ok = close_shard_ok [OF Cons.prems(1) _ c1]
  have IH: "cset_inv s' \<and> cset_elems s1 = set c2 \<union> cset_elems s' \<and> set c2 \<inter> cset_elems s' = {} \<and>
      distinct c2 \<and> (\<forall>i \<in> set is. cs_closed (cset_shards s' ! i))"
    using Cons.IH [OF ok(1) _ c2] Cons.prems(2) by simp
  have "cs_closed (cset_shards s' ! i)"
    using IH ok Cons.prems(2) close_shards_closed [OF _ _ _ c2, of i] by (simp add: cset_inv_def)
  with IH ok Cons.prems(2) show ?case by (auto simp: cs)
qed simp

text \<open>
  \<open>CloseAll\<close> as one operation: it closes each registered connection exactly once and nothing else.
\<close>

lemma CloseAll_closes_all:
  assumes "cset_inv s" "CloseAll s = (cs, s')"
  shows "set cs = cset_elems s \<and> distinct cs \<and> cset_elems s' = {}"
proof -
  have inv: "cset_inv (begin_close s)" "cset_elems (begin_close s) = cset_elems s"
    using assms(1) by (simp_all add: begin_close_def cset_inv_def cset_elems_def)
  have ok: "cset_inv s' \<and> cset_elems (begin_close s) = set cs \<union> cset_elems s' \<and> set cs \<inter> cset_elems s' = {} \<and>
      distinct cs \<and> (\<forall>i \<in> set [0..<connSetShards]. cs_closed (cset_shards s' ! i))"
    using assms(2) by (intro close_shards_ok [OF inv(1)]) (auto simp: CloseAll_def)
  then have "cset_elems s' = {}" using cset.closed_empty by auto
  with ok inv(2) show ?thesis by simp
qed

section \<open>The gate\<close>

definition gate_used :: "ConnectionGate \<Rightarrow> nat" where
  "gate_used g = (case tokens g of None \<Rightarrow> 0 | Some c \<Rightarrow> ch_len c)"

definition gate_cap :: "ConnectionGate \<Rightarrow> nat" where
  "gate_cap g = (case tokens g of None \<Rightarrow> 0 | Some c \<Rightarrow> ch_cap c)"

definition gate_limited :: "ConnectionGate \<Rightarrow> bool" where
  "gate_limited g = (case tokens g of None \<Rightarrow> False | Some c \<Rightarrow> chan_wf c)"

interpretation gate: semaphore gate_cap gate_used Acquire Release gate_limited
  by unfold_locales
     (auto simp: gate_cap_def gate_used_def gate_limited_def Acquire_def Release_def chan_wf_def
        chan_try_send_def chan_recv_def split: option.splits if_splits)

lemma NewConnectionGate_limited: "mx \<noteq> 0 \<Longrightarrow> gate_limited (NewConnectionGate mx)"
  "mx \<noteq> 0 \<Longrightarrow> gate_cap (NewConnectionGate mx) = unat mx" "gate_used (NewConnectionGate mx) = 0"
  by (simp_all add: NewConnectionGate_def gate_limited_def gate_cap_def gate_used_def chan_make_def chan_wf_def)

section \<open>The copy\<close>

definition copy_inv :: "(side \<Rightarrow> conn_kind) \<Rightarrow> nat \<Rightarrow> copy_state \<Rightarrow> bool" where
  "copy_inv kinds grace s \<longleftrightarrow> cp_wclosed s = filter (\<lambda>d. CloseWrite (kinds d)) (cp_done s) \<and> distinct (cp_done s) \<and>
     (cp_firstDone s \<longleftrightarrow> cp_done s \<noteq> []) \<and> (cp_timer s \<longleftrightarrow> cp_firstDone s \<and> 0 < grace)"

lemma copy_start_inv: "copy_inv kinds grace copy_start"
  by (simp add: copy_inv_def copy_start_def)

lemma copy_step_inv: "copy_inv kinds grace s \<Longrightarrow> copy_step kinds grace s e = Some s' \<Longrightarrow> copy_inv kinds grace s'"
  by (auto simp: copy_inv_def copy_step_def finishDirection_def Let_def
      split: copy_event.splits if_splits)

interpretation copy_steps: step_runs "\<lambda>e s. copy_step kinds grace s e" "copy_run kinds grace" for kinds grace
  by unfold_locales simp_all

lemma copy_run_inv: "copy_inv kinds grace s \<Longrightarrow> copy_run kinds grace s es = Some s' \<Longrightarrow> copy_inv kinds grace s'"
  by (rule copy_steps.run_invariant) (auto intro: copy_step_inv)

lemma copy_step_timer: "copy_step kinds grace s e = Some s' \<Longrightarrow> copy_inv kinds grace s \<Longrightarrow> cp_timer s \<Longrightarrow> cp_timer s'"
  by (auto simp: copy_inv_def copy_step_def finishDirection_def Let_def split: copy_event.splits if_splits)

lemma copy_run_timer: "copy_run kinds grace s es = Some s' \<Longrightarrow> copy_inv kinds grace s \<Longrightarrow> cp_timer s \<Longrightarrow> cp_timer s'"
  using copy_steps.run_invariant [of kinds grace s es s' "\<lambda>s. copy_inv kinds grace s \<and> cp_timer s"] copy_step_inv copy_step_timer by blast

lemma copy_run_interrupted:
  assumes "copy_run kinds grace s es = Some s'" "copy_inv kinds grace s" "cp_interrupted s'"
  shows "cp_interrupted s \<or> CtxCancelled \<in> set es \<or> GraceExpired \<in> set es \<and> cp_timer s'"
  using assms
proof (induction es arbitrary: s)
  case (Cons e es)
  then obtain t where t: "copy_step kinds grace s e = Some t" "copy_run kinds grace t es = Some s'"
    by (auto split: option.splits)
  have inv: "copy_inv kinds grace t" using Cons.prems(2) t(1) by (rule copy_step_inv)
  have "cp_interrupted t \<Longrightarrow> cp_interrupted s \<or> e = CtxCancelled \<or> e = GraceExpired \<and> cp_timer t"
    using t(1) by (auto simp: copy_step_def finishDirection_def Let_def split: copy_event.splits if_splits)
  with Cons.IH [OF t(2) inv Cons.prems(3)] copy_run_timer [OF t(2) inv] show ?case by auto
qed simp

section \<open>Listeners\<close>

lemma listen_rest_result:
  "case listen_rest lst i n ls of
     Inl (e, closed) \<Rightarrow> \<exists>m < n. lst (i + m) = Inl e \<and> closed = ls @ map (\<lambda>k. projr (lst (i + k))) [0..<m]
       \<and> (\<forall>k < m. isl (lst (i + k)) = False)
   | Inr ls' \<Rightarrow> length ls' = length ls + n"
proof (induction n arbitrary: i ls)
  case (Suc n)
  show ?case
  proof (cases "lst i")
    case (Inl e)
    then show ?thesis by (auto intro!: exI [of _ 0])
  next
    case (Inr ln)
    show ?thesis
    proof (cases "listen_rest lst (Suc i) n (ls @ [ln])")
      case (Inl p)
      obtain e closed where p: "p = (e, closed)" by (cases p)
      from Suc.IH [of "Suc i" "ls @ [ln]"] Inl p
      obtain m where m: "m < n" "lst (Suc (i + m)) = Inl e"
        "closed = (ls @ [ln]) @ map (\<lambda>k. projr (lst (Suc (i + k)))) [0..<m]"
        "\<forall>k < m. \<not> isl (lst (Suc (i + k)))"
        by auto
      have "closed = ls @ map (\<lambda>k. projr (lst (i + k))) [0..<Suc m]"
        using m(3) Inr by (simp add: upt_conv_Cons map_Suc_upt [symmetric] comp_def del: upt_Suc map_Suc_upt)
      moreover have "\<forall>k < Suc m. \<not> isl (lst (i + k))"
        using m(4) Inr by (auto simp: less_Suc_eq_0_disj)
      ultimately show ?thesis
        using Inl p Inr m(1,2) by (auto intro!: exI [of _ "Suc m"])
    next
      case (Inr ls')
      with Suc.IH [of "Suc i" "ls @ [ln]"] \<open>lst i = Inr ln\<close> show ?thesis by simp
    qed
  qed
qed simp

section \<open>Properties\<close>

text \<open>
  Shutdown leaves no connection behind: in every interleaving of additions and removals with a
  \<open>CloseAll\<close> that closes the shards in any order, every connection whose registration succeeded was
  removed by its handler or closed by the shutdown, the registry ends empty, and every later
  registration is refused.
\<close>

theorem shutdown_leaves_no_connection:
  assumes "\<forall>i. EvClose i \<in> set es \<longleftrightarrow> i < connSetShards"
  shows "rt_added (reg_run Add_conn Remove_conn close_shard NewConnectionSet es) \<subseteq>
      rt_removed (reg_run Add_conn Remove_conn close_shard NewConnectionSet es) \<union>
      rt_closed (reg_run Add_conn Remove_conn close_shard NewConnectionSet es) \<and>
    cset_elems (rt_set (reg_run Add_conn Remove_conn close_shard NewConnectionSet es)) = {} \<and>
    (\<forall>c. fst (Add_conn (rt_set (reg_run Add_conn Remove_conn close_shard NewConnectionSet es)) c) = False)"
  using cset.shutdown_complete [OF NewConnectionSet_inv(1) assms] by blast

theorem shutdown_leaves_no_connection_witness:
  "rt_added (reg_run Add_conn Remove_conn close_shard NewConnectionSet ([EvAdd 8] @ map EvClose [0..<32] @ [EvAdd 16])) \<subseteq>
    rt_removed (reg_run Add_conn Remove_conn close_shard NewConnectionSet ([EvAdd 8] @ map EvClose [0..<32] @ [EvAdd 16])) \<union>
    rt_closed (reg_run Add_conn Remove_conn close_shard NewConnectionSet ([EvAdd 8] @ map EvClose [0..<32] @ [EvAdd 16]))"
proof -
  have "\<forall>i. EvClose i \<in> set ([EvAdd 8] @ map EvClose [0..<32] @ [EvAdd 16 :: conn reg_event]) \<longleftrightarrow> i < connSetShards"
    by (auto simp: connSetShards_def)
  from shutdown_leaves_no_connection [OF this] show ?thesis by blast
qed

text \<open>
  The gate bounds the number of connections: starting from a new gate with a limit, any sequence
  of acquisitions and releases keeps at most that many slots in use, and a slot that is released can
  be acquired again at once.
\<close>

theorem gate_never_exceeds_limit:
  assumes "mx \<noteq> 0"
  shows "gate_used (sem_run Acquire Release ops (NewConnectionGate mx)) \<le> unat mx \<and>
    (\<forall>g. Release (sem_run Acquire Release ops (NewConnectionGate mx)) = Some g \<longrightarrow> Acquire g \<noteq> None)"
proof -
  let ?g = "sem_run Acquire Release ops (NewConnectionGate mx)"
  have k: "gate_limited ?g" "gate_cap ?g = unat mx"
    using gate.run_keeps [OF NewConnectionGate_limited(1) [OF assms], of ops] NewConnectionGate_limited(2) [OF assms]
    by simp_all
  then have "gate_used ?g \<le> unat mx" using gate.used_le [OF k(1)] by simp
  moreover have "Acquire g \<noteq> None" if "Release ?g = Some g" for g
    using gate.release_Some [OF k(1) that] gate.used_le [OF k(1)] gate.acquire_None [of g] by auto
  ultimately show ?thesis by blast
qed

theorem gate_never_exceeds_limit_witness:
  "gate_used (sem_run Acquire Release [Acquire_op, Acquire_op, Acquire_op] (NewConnectionGate 2)) \<le> 2"
  using gate_never_exceeds_limit [of 2 "[Acquire_op, Acquire_op, Acquire_op]"] by simp

text \<open>
  \<open>AcquireUntil\<close> never leaks a slot: it returns true exactly when it took one slot and shutdown had
  not started, and when it returns false the number of used slots is what it was, also when a blocked
  or fast acquisition raced with the shutdown.
\<close>

theorem AcquireUntil_no_leak:
  assumes "gate_limited g" "\<And>gw. wait = Some gw \<Longrightarrow> gate_limited gw \<and> gate_cap gw = gate_cap g \<and> gate_used gw < gate_cap g"
    and "AcquireUntil g wait don = (ok, g')"
  shows "if ok then \<not> don \<and> (gate_used g' = Suc (gate_used g) \<or> (\<exists>gw. wait = Some gw \<and> gate_used g' = Suc (gate_used gw)))
    else g' = g \<or> wait = Some g'"
proof -
  have rel: "Release x' = Some x" if "Acquire x = Some x'" "gate_limited x" for x x'
    using that by (auto simp: Acquire_def Release_def gate_limited_def chan_try_send_def chan_recv_def
        split: option.splits if_splits)
  have acq: "gate_used x' = Suc (gate_used x)" if "Acquire x = Some x'" "gate_limited x" for x x'
    using gate.acquire_Some [OF that(2,1)] by simp
  show ?thesis
  proof (cases "Acquire g")
    case (Some g1)
    with assms rel [OF Some assms(1)] acq [OF Some assms(1)] show ?thesis
      by (auto simp: AcquireUntil_def gate_limited_def split: option.splits if_splits)
  next
    case None
    show ?thesis
    proof (cases wait)
      case None
      with \<open>Acquire g = None\<close> assms show ?thesis
        by (auto simp: AcquireUntil_def gate_limited_def split: option.splits if_splits)
    next
      case (Some gw)
      then have gw: "gate_limited gw" using assms(2) by blast
      show ?thesis
        using \<open>Acquire g = None\<close> Some assms rel [OF _ gw] acq [OF _ gw]
        by (cases "Acquire gw") (auto simp: AcquireUntil_def gate_limited_def split: option.splits if_splits)
    qed
  qed
qed

theorem AcquireUntil_no_leak_witness:
  "AcquireUntil (NewConnectionGate 1) None True = (False, NewConnectionGate 1)"
  using AcquireUntil_no_leak [of "NewConnectionGate 1" None True False "snd (AcquireUntil (NewConnectionGate 1) None True)"]
  by (simp add: NewConnectionGate_limited AcquireUntil_def NewConnectionGate_def Acquire_def Release_def chan_make_def
      chan_try_send_def chan_recv_def)

text \<open>
  The TLS handshake gate always limits, to at least one and at most 1024 handshakes, and to no more
  than the connection limit when there is one.
\<close>

theorem TLSHandshakeGate_bounds:
  "gate_limited (NewTLSHandshakeGate gomaxprocs mx) \<and>
   gate_cap (NewTLSHandshakeGate gomaxprocs mx) =
     (let l = min 1024 (max 64 (nat (gomaxprocs * 32))) in if mx = 0 then l else min l (unat mx))"
proof -
  define l where "l = min 1024 (max 64 (gomaxprocs * 32))"
  have l: "64 \<le> l" "l \<le> 1024" by (auto simp: l_def)
  then have u: "uint (word_of_int l :: u32) = l" by (simp add: uint_word_of_int)
  then have nl: "unat (word_of_int l :: u32) = nat l" by (simp flip: nat_uint_eq)
  have nz: "(word_of_int l :: u32) \<noteq> 0" using l u by auto
  have less: "mx < word_of_int l \<longleftrightarrow> uint mx < l" by (simp add: word_less_def u)
  have clamp: "(if (if gomaxprocs * 32 < 64 then 64 else gomaxprocs * 32) > 1024 then 1024
      else if gomaxprocs * 32 < 64 then 64 else gomaxprocs * 32) = l"
    by (simp add: l_def min_def max_def)
  have cl: "NewTLSHandshakeGate gomaxprocs mx =
      NewConnectionGate (if mx \<noteq> 0 \<and> uint mx < l then mx else word_of_int l)"
  proof (cases "mx \<noteq> 0 \<and> uint mx < l")
    case True
    then have "uint mx \<noteq> 0" by (simp add: unsigned_eq_0_iff)
    moreover have "0 \<le> uint mx" by simp
    ultimately have "1 \<le> uint mx" by linarith
    with True show ?thesis
      unfolding NewTLSHandshakeGate_def Let_def clamp by (simp add: less word_gt_0)
  next
    case False
    then show ?thesis
      unfolding NewTLSHandshakeGate_def Let_def clamp using l by (auto simp: less word_gt_0)
  qed
  have L: "min 1024 (max 64 (nat (gomaxprocs * 32))) = nat l"
    by (auto simp: l_def min_def max_def)
  have lt: "uint mx < l \<longleftrightarrow> unat mx < nat l"
    using l by (simp add: nat_less_eq_zless flip: nat_uint_eq)
  show ?thesis
  proof (cases "mx \<noteq> 0 \<and> uint mx < l")
    case True
    then show ?thesis
      unfolding cl L Let_def using NewConnectionGate_limited(1,2) [of mx] lt by simp
  next
    case False
    then show ?thesis
      unfolding cl L Let_def using NewConnectionGate_limited(1,2) [OF nz] nl lt by auto
  qed
qed

text \<open>
  The bidirectional copy: each direction that ends half-closes its destination exactly once if its
  type allows it, the grace timer runs exactly from the end of the first direction on and only for a
  positive grace, and the connections are interrupted only by a cancellation or by that timer.
\<close>

theorem copy_half_close:
  assumes "copy_run kinds grace copy_start es = Some s"
  shows "cp_wclosed s = filter (\<lambda>d. CloseWrite (kinds d)) (cp_done s) \<and> distinct (cp_done s) \<and>
    (cp_timer s \<longleftrightarrow> cp_done s \<noteq> [] \<and> 0 < grace) \<and>
    (cp_interrupted s \<longrightarrow> CtxCancelled \<in> set es \<or> GraceExpired \<in> set es \<and> cp_done s \<noteq> [] \<and> 0 < grace)"
proof -
  show ?thesis
    using copy_run_inv [OF copy_start_inv assms] copy_run_interrupted [OF assms copy_start_inv]
    by (auto simp: copy_inv_def copy_start_def)
qed

theorem copy_half_close_witness:
  "\<exists>s. copy_run (\<lambda>_. TCPConn) 30 copy_start [StreamDone SideB, GraceExpired, StreamDone SideA] = Some s \<and>
     cp_wclosed s = [SideB, SideA] \<and> cp_timer s"
proof -
  obtain s where s: "copy_run (\<lambda>_. TCPConn) 30 copy_start [StreamDone SideB, GraceExpired, StreamDone SideA] = Some s"
    and d: "cp_done s = [SideB, SideA]"
    by (simp add: copy_step_def copy_start_def finishDirection_def CloseWrite_def)
  from copy_half_close [OF s] d s show ?thesis by (auto simp: CloseWrite_def)
qed

end
