(* ===== verification/AcceptLoop.thy ===== *)
theory AcceptLoop
  imports ServerBase
begin

text \<open>
  The accept loops of a server and its shutdown: \<open>Start\<close>, \<open>acceptLoop\<close> and \<open>Close\<close> of
  \<open>internal/server/socks/server.go\<close>; the HTTP server and the auto-detecting server have the same ones. Accept
  loops, connection handlers and the goroutine that closes the server run concurrently on the connection
  gate, the connection registry and the wait group; one step is one operation of one of them.
\<close>

section \<open>Definitions\<close>

text \<open>
  A loop waits in \<open>Accept\<close>, has accepted a connection, holds a slot of the gate for it, or has returned.
  A handler goroutine serves its connection, has closed it, or has also removed it from the registry.
  \<open>sv_open\<close> are the accepted connections that nobody has closed.
\<close>

datatype loop_phase = LAccept | LGot conn | LHeld conn | LExited

record server =
  sv_gate :: ConnectionGate
  sv_conns :: ConnectionSet
  sv_wg :: nat
  sv_loops :: "loop_phase list"
  sv_serving :: "conn list"
  sv_ended :: "conn list"
  sv_removed :: "conn list"
  sv_open :: "conn set"

datatype srv_event =
    SvAccept nat conn
  | SvAcceptError nat bool
  | SvAcquire nat
  | SvAdd nat
  | SvEnd conn
  | SvRemove conn
  | SvRelease conn
  | SvShutdown
  | SvCloseShard nat

text \<open>The server after \<open>NewServer\<close> and the calls of \<open>wg.Add\<close> in \<open>Start\<close>: one accept loop for each listener.\<close>

definition server_start :: "u32 \<Rightarrow> nat \<Rightarrow> server" where
  "server_start concurrent listeners =
     \<lparr>sv_gate = NewConnectionGate concurrent, sv_conns = NewConnectionSet, sv_wg = listeners,
      sv_loops = replicate listeners LAccept, sv_serving = [], sv_ended = [], sv_removed = [], sv_open = {}\<rparr>"

definition in_hands :: "loop_phase \<Rightarrow> conn list" where
  "in_hands p = (case p of LGot c \<Rightarrow> [c] | LHeld c \<Rightarrow> [c] | _ \<Rightarrow> [])"

definition hands :: "loop_phase list \<Rightarrow> conn list" where
  "hands ps = concat (map in_hands ps)"

definition live :: "server \<Rightarrow> conn list" where
  "live s = hands (sv_loops s) @ sv_serving s @ sv_ended s @ sv_removed s"

definition exit_loop :: "nat \<Rightarrow> server \<Rightarrow> server" where
  "exit_loop i s = s\<lparr>sv_loops := (sv_loops s)[i := LExited], sv_wg := sv_wg s - 1\<rparr>"

definition close_conn :: "conn \<Rightarrow> server \<Rightarrow> server" where
  "close_conn c s = s\<lparr>sv_open := sv_open s - {c}\<rparr>"

text \<open>
  \<open>acceptLoop\<close>, operation by operation, for the loop \<open>i\<close>. A connection is identified by its pointer, so an
  accepted one differs from those still in use. \<open>AcquireUntil\<close> returns when a slot is free or when
  shutdown has begun, and blocks otherwise.
\<close>

definition loop_step :: "srv_event \<Rightarrow> nat \<Rightarrow> server \<Rightarrow> server option" where
  "loop_step ev i s =
     (if length (sv_loops s) \<le> i then None
      else case sv_loops s ! i of
        LAccept \<Rightarrow>
         (case ev of
            SvAccept _ c \<Rightarrow> if c \<in> set (live s) then None
              else Some (s\<lparr>sv_loops := (sv_loops s)[i := LGot c], sv_open := insert c (sv_open s)\<rparr>)
          | SvAcceptError _ isClosed \<Rightarrow> if isClosed then Some (exit_loop i s) else Some s
          | _ \<Rightarrow> None)
      | LGot c \<Rightarrow>
         (if ev \<noteq> SvAcquire i \<or> Acquire (sv_gate s) = None \<and> \<not> cset_done (sv_conns s) then None
          else case AcquireUntil (sv_gate s) None (cset_done (sv_conns s)) of
              (True, g) \<Rightarrow> Some (s\<lparr>sv_gate := g, sv_loops := (sv_loops s)[i := LHeld c]\<rparr>)
            | (False, g) \<Rightarrow> Some (close_conn c (exit_loop i (s\<lparr>sv_gate := g\<rparr>))))
      | LHeld c \<Rightarrow>
         (if ev \<noteq> SvAdd i then None
          else case Add_conn (sv_conns s) c of
              (True, cs) \<Rightarrow> Some (s\<lparr>sv_conns := cs, sv_loops := (sv_loops s)[i := LAccept], sv_wg := sv_wg s + 1,
                                   sv_serving := c # sv_serving s\<rparr>)
            | (False, cs) \<Rightarrow> map_option (\<lambda>g. close_conn c (s\<lparr>sv_conns := cs, sv_gate := g, sv_loops := (sv_loops s)[i := LAccept]\<rparr>))
                (Release (sv_gate s)))
      | LExited \<Rightarrow> None)"

text \<open>
  The handler goroutine after its acceptor has closed the connection: the deferred calls \<open>conns.Remove\<close>,
  and \<open>gate.Release\<close> with \<open>wg.Done\<close>.
\<close>

definition handler_end :: "conn \<Rightarrow> server \<Rightarrow> server option" where
  "handler_end c s =
     (if c \<in> set (sv_serving s)
      then Some (close_conn c (s\<lparr>sv_serving := remove1 c (sv_serving s), sv_ended := c # sv_ended s\<rparr>)) else None)"

definition handler_remove :: "conn \<Rightarrow> server \<Rightarrow> server option" where
  "handler_remove c s =
     (if c \<in> set (sv_ended s)
      then Some (s\<lparr>sv_conns := Remove_conn (sv_conns s) c, sv_ended := remove1 c (sv_ended s), sv_removed := c # sv_removed s\<rparr>)
      else None)"

definition handler_release :: "conn \<Rightarrow> server \<Rightarrow> server option" where
  "handler_release c s =
     (if c \<in> set (sv_removed s)
      then map_option (\<lambda>g. s\<lparr>sv_gate := g, sv_removed := remove1 c (sv_removed s), sv_wg := sv_wg s - 1\<rparr>) (Release (sv_gate s))
      else None)"

text \<open>\<open>CloseAll\<close>, called by \<open>Close\<close>: the done channel first, then one shard after the other.\<close>

definition shutdown_shard :: "nat \<Rightarrow> server \<Rightarrow> server option" where
  "shutdown_shard k s =
     (if cset_done (sv_conns s) \<and> k < connSetShards
      then (case close_shard k (sv_conns s) of (cs, conns) \<Rightarrow> Some (s\<lparr>sv_conns := conns, sv_open := sv_open s - set cs\<rparr>))
      else None)"

definition srv_step :: "srv_event \<Rightarrow> server \<Rightarrow> server option" where
  "srv_step ev s = (case ev of
      SvAccept i _ \<Rightarrow> loop_step ev i s
    | SvAcceptError i _ \<Rightarrow> loop_step ev i s
    | SvAcquire i \<Rightarrow> loop_step ev i s
    | SvAdd i \<Rightarrow> loop_step ev i s
    | SvEnd c \<Rightarrow> handler_end c s
    | SvRemove c \<Rightarrow> handler_remove c s
    | SvRelease c \<Rightarrow> handler_release c s
    | SvShutdown \<Rightarrow> Some (s\<lparr>sv_conns := begin_close (sv_conns s)\<rparr>)
    | SvCloseShard k \<Rightarrow> shutdown_shard k s)"

fun srv_run :: "server \<Rightarrow> srv_event list \<Rightarrow> server option" where
  "srv_run s [] = Some s"
| "srv_run s (e # es) = (case srv_step e s of None \<Rightarrow> None | Some s' \<Rightarrow> srv_run s' es)"

section \<open>Invariant\<close>

definition holds_slot :: "loop_phase \<Rightarrow> nat" where
  "holds_slot p = (case p of LHeld _ \<Rightarrow> 1 | _ \<Rightarrow> 0)"

definition running :: "loop_phase \<Rightarrow> nat" where
  "running p = (case p of LExited \<Rightarrow> 0 | _ \<Rightarrow> 1)"

definition handlers :: "server \<Rightarrow> nat" where
  "handlers s = length (sv_serving s) + length (sv_ended s) + length (sv_removed s)"

definition slots_inv :: "u32 \<Rightarrow> server \<Rightarrow> bool" where
  "slots_inv mx s \<longleftrightarrow>
     (if mx = 0 then tokens (sv_gate s) = None
      else gate_limited (sv_gate s) \<and> gate_cap (sv_gate s) = unat mx \<and>
        gate_used (sv_gate s) = sum_list (map holds_slot (sv_loops s)) + handlers s)"

definition wg_inv :: "server \<Rightarrow> bool" where
  "wg_inv s \<longleftrightarrow> sv_wg s = sum_list (map running (sv_loops s)) + handlers s"

definition conns_inv :: "server \<Rightarrow> bool" where
  "conns_inv s \<longleftrightarrow> cset_inv (sv_conns s) \<and> distinct (live s) \<and>
     sv_open s \<subseteq> set (hands (sv_loops s)) \<union> set (sv_serving s) \<and>
     set (sv_serving s) \<inter> sv_open s \<subseteq> cset_elems (sv_conns s)"

lemma length_remove1_Suc: "c \<in> set xs \<Longrightarrow> length xs = Suc (length (remove1 c xs))"
  by (induction xs) auto

lemma hands_update:
  assumes "i < length xs"
  shows "\<exists>A B. hands xs = A @ in_hands (xs ! i) @ B \<and>
    (\<forall>p. hands (xs[i := p]) = A @ in_hands p @ B)"
unfolding hands_def
proof (intro exI conjI allI)
  let ?A = "concat (map in_hands (take i xs))" and ?B = "concat (map in_hands (drop (Suc i) xs))"
  show "concat (map in_hands xs) = ?A @ in_hands (xs ! i) @ ?B"
    using id_take_nth_drop [OF assms] by (metis concat.simps(2) concat_append list.simps(9) map_append)
  show "concat (map in_hands (xs[i := p])) = ?A @ in_hands p @ ?B" for p
    using assms by (simp add: upd_conv_take_nth_drop)
qed

section \<open>The steps as a relation\<close>

text \<open>One rule for each branch of the operations, with the new values of the fields.\<close>

inductive srv_trans :: "server \<Rightarrow> server \<Rightarrow> bool" where
  accept: "i < length (sv_loops s) \<Longrightarrow> sv_loops s ! i = LAccept \<Longrightarrow> c \<notin> set (live s) \<Longrightarrow>
     srv_trans s (s\<lparr>sv_loops := (sv_loops s)[i := LGot c], sv_open := insert c (sv_open s)\<rparr>)"
| accept_error: "srv_trans s s"
| listener_closed: "i < length (sv_loops s) \<Longrightarrow> sv_loops s ! i = LAccept \<Longrightarrow> srv_trans s (exit_loop i s)"
| acquired: "i < length (sv_loops s) \<Longrightarrow> sv_loops s ! i = LGot c \<Longrightarrow> Acquire (sv_gate s) = Some g \<Longrightarrow> \<not> cset_done (sv_conns s) \<Longrightarrow>
     srv_trans s (s\<lparr>sv_gate := g, sv_loops := (sv_loops s)[i := LHeld c]\<rparr>)"
| refused: "i < length (sv_loops s) \<Longrightarrow> sv_loops s ! i = LGot c \<Longrightarrow> cset_done (sv_conns s) \<Longrightarrow>
     srv_trans s (close_conn c (exit_loop i s))"
| added: "i < length (sv_loops s) \<Longrightarrow> sv_loops s ! i = LHeld c \<Longrightarrow> Add_conn (sv_conns s) c = (True, cs) \<Longrightarrow>
     srv_trans s (s\<lparr>sv_conns := cs, sv_loops := (sv_loops s)[i := LAccept], sv_wg := Suc (sv_wg s), sv_serving := c # sv_serving s\<rparr>)"
| not_added: "i < length (sv_loops s) \<Longrightarrow> sv_loops s ! i = LHeld c \<Longrightarrow> Add_conn (sv_conns s) c = (False, cs) \<Longrightarrow>
     Release (sv_gate s) = Some g \<Longrightarrow>
     srv_trans s (close_conn c (s\<lparr>sv_conns := cs, sv_gate := g, sv_loops := (sv_loops s)[i := LAccept]\<rparr>))"
| ended: "c \<in> set (sv_serving s) \<Longrightarrow>
     srv_trans s (close_conn c (s\<lparr>sv_serving := remove1 c (sv_serving s), sv_ended := c # sv_ended s\<rparr>))"
| removed: "c \<in> set (sv_ended s) \<Longrightarrow> srv_trans s (s\<lparr>sv_conns := Remove_conn (sv_conns s) c,
     sv_ended := remove1 c (sv_ended s), sv_removed := c # sv_removed s\<rparr>)"
| released: "c \<in> set (sv_removed s) \<Longrightarrow> Release (sv_gate s) = Some g \<Longrightarrow>
     srv_trans s (s\<lparr>sv_gate := g, sv_removed := remove1 c (sv_removed s), sv_wg := sv_wg s - Suc 0\<rparr>)"
| shutdown: "srv_trans s (s\<lparr>sv_conns := begin_close (sv_conns s)\<rparr>)"
| shard_closed: "k < connSetShards \<Longrightarrow> close_shard k (sv_conns s) = (cs, conns) \<Longrightarrow>
     srv_trans s (s\<lparr>sv_conns := conns, sv_open := sv_open s - set cs\<rparr>)"

lemma AcquireUntil_cases:
  assumes "tokens g = None \<or> gate_limited g" "\<not> (Acquire g = None \<and> \<not> don)" "AcquireUntil g None don = (ok, g')"
  shows "if ok then \<not> don \<and> Acquire g = Some g' else don \<and> g' = g"
proof (cases "Acquire g")
  case None
  with assms show ?thesis by (auto simp: AcquireUntil_def split: option.splits)
next
  case (Some ga)
  then have "Release ga = Some g" if "gate_limited g"
    using that by (auto simp: Acquire_def Release_def gate_limited_def chan_try_send_def chan_recv_def
      split: option.splits if_splits)
  with Some assms show ?thesis
    by (auto simp: AcquireUntil_def Acquire_def [of g] gate_limited_def split: option.splits if_splits)
qed

lemma slots_inv_gate: "slots_inv mx s \<Longrightarrow> tokens (sv_gate s) = None \<or> gate_limited (sv_gate s)"
  by (simp add: slots_inv_def split: if_splits)

lemma loop_step_trans:
  assumes "loop_step ev i s = Some s'" "slots_inv mx s"
  shows "srv_trans s s'"
proof -
  have i: "i < length (sv_loops s)" using assms(1) by (auto simp: loop_step_def split: if_splits)
  show ?thesis
  proof (cases "sv_loops s ! i")
    case LAccept
    with i assms(1) show ?thesis
      by (auto simp: loop_step_def intro: srv_trans.intros split: srv_event.splits if_splits)
  next
    case (LGot c)
    obtain ok g where a: "AcquireUntil (sv_gate s) None (cset_done (sv_conns s)) = (ok, g)" by fastforce
    have "\<not> (Acquire (sv_gate s) = None \<and> \<not> cset_done (sv_conns s))" 
      using i LGot assms(1) by (auto simp: loop_step_def split: if_splits)
    from AcquireUntil_cases [OF slots_inv_gate [OF assms(2)] this a] i LGot assms(1) a show ?thesis
      using acquired [OF i LGot, of g] refused [OF i LGot]
      by (auto simp: loop_step_def split: if_splits bool.splits)
  next
    case (LHeld c)
    with i assms(1) show ?thesis
      by (auto simp: loop_step_def intro: added not_added split: if_splits prod.splits bool.splits)
  qed (use i assms(1) in \<open>simp add: loop_step_def\<close>)
qed

lemma srv_step_trans:
  assumes "srv_step ev s = Some s'" "slots_inv mx s"
  shows "srv_trans s s'"
  using assms loop_step_trans
  by (cases ev)
     (auto simp: srv_step_def handler_end_def handler_remove_def handler_release_def shutdown_shard_def
       intro: srv_trans.intros split: if_splits prod.splits)

text \<open>The wait group counts the accept loops and the handlers.\<close>

lemma trans_wg:
  assumes "srv_trans s s'" "wg_inv s"
  shows "wg_inv s'"
  using assms
proof (induction rule: srv_trans.induct)
  case (accept i s c)
  with sum_list_map_update [of i "sv_loops s" running "LGot c"] show ?case by (simp add: wg_inv_def handlers_def running_def)
next
  case (listener_closed i s)
  with sum_list_map_update [of i "sv_loops s" running LExited] show ?case
    by (simp add: wg_inv_def handlers_def running_def exit_loop_def)
next
  case (acquired i s c g)
  with sum_list_map_update [of i "sv_loops s" running "LHeld c"] show ?case by (simp add: wg_inv_def handlers_def running_def)
next
  case (refused i s c)
  with sum_list_map_update [of i "sv_loops s" running LExited] show ?case
    by (simp add: wg_inv_def handlers_def running_def exit_loop_def close_conn_def)
next
  case (added i s c cs)
  with sum_list_map_update [of i "sv_loops s" running LAccept] show ?case by (simp add: wg_inv_def handlers_def running_def)
next
  case (not_added i s c cs g)
  with sum_list_map_update [of i "sv_loops s" running LAccept] show ?case
    by (simp add: wg_inv_def handlers_def running_def close_conn_def)
next
  case (released c s g)
  with length_remove1_Suc [of c "sv_removed s"] show ?case by (simp add: wg_inv_def handlers_def)
qed (auto simp: wg_inv_def handlers_def close_conn_def length_remove1_Suc)

text \<open>The gate counts the loops between \<open>AcquireUntil\<close> and \<open>Add\<close> and the handlers.\<close>

lemma slots_inv_0:
  assumes "slots_inv 0 s" "Acquire (sv_gate s) = Some g \<or> Release (sv_gate s) = Some g"
  shows "tokens g = None"
  using assms by (auto simp: slots_inv_def Acquire_def Release_def)

lemma slots_congI:
  assumes "slots_inv mx s" "sv_gate s' = sv_gate s" "handlers s' = handlers s"
    "sum_list (map holds_slot (sv_loops s')) = sum_list (map holds_slot (sv_loops s))"
  shows "slots_inv mx s'"
  using assms by (simp add: slots_inv_def)

lemma slots_acquireI:
  assumes "slots_inv mx s" "Acquire (sv_gate s) = Some (sv_gate s')"
    "sum_list (map holds_slot (sv_loops s')) + handlers s' = Suc (sum_list (map holds_slot (sv_loops s)) + handlers s)"
  shows "slots_inv mx s'"
  using assms gate.acquire_Some [of "sv_gate s" "sv_gate s'"] slots_inv_0 [of s "sv_gate s'"]
  by (cases "mx = 0") (auto simp: slots_inv_def)

lemma slots_releaseI:
  assumes "slots_inv mx s" "Release (sv_gate s) = Some (sv_gate s')"
    "Suc (sum_list (map holds_slot (sv_loops s')) + handlers s') = sum_list (map holds_slot (sv_loops s)) + handlers s"
  shows "slots_inv mx s'"
  using assms gate.release_Some [of "sv_gate s" "sv_gate s'"] slots_inv_0 [of s "sv_gate s'"]
  by (cases "mx = 0") (auto simp: slots_inv_def)

lemma trans_slots:
  assumes "srv_trans s s'" "slots_inv mx s"
  shows "slots_inv mx s'"
  using assms
proof (induction rule: srv_trans.induct)
  case (accept i s c)
  from accept.hyps sum_list_map_update [of i "sv_loops s" holds_slot "LGot c"] show ?case
    by (intro slots_congI [OF accept.prems]) (simp_all add: handlers_def holds_slot_def)
next
  case (listener_closed i s)
  from listener_closed.hyps sum_list_map_update [of i "sv_loops s" holds_slot LExited] show ?case
    by (intro slots_congI [OF listener_closed.prems]) (simp_all add: handlers_def holds_slot_def exit_loop_def)
next
  case (acquired i s c g)
  from acquired.hyps sum_list_map_update [of i "sv_loops s" holds_slot "LHeld c"] show ?case
    by (intro slots_acquireI [OF acquired.prems]) (simp_all add: handlers_def holds_slot_def)
next
  case (refused i s c)
  from refused.hyps sum_list_map_update [of i "sv_loops s" holds_slot LExited] show ?case
    by (intro slots_congI [OF refused.prems]) (simp_all add: handlers_def holds_slot_def exit_loop_def close_conn_def)
next
  case (added i s c cs)
  with sum_list_map_update [of i "sv_loops s" holds_slot LAccept] show ?case
    by (simp add: slots_inv_def handlers_def holds_slot_def)
next
  case (not_added i s c cs g)
  from not_added.hyps sum_list_map_update [of i "sv_loops s" holds_slot LAccept] show ?case
    by (intro slots_releaseI [OF not_added.prems]) (simp_all add: handlers_def holds_slot_def close_conn_def)
next
  case (released c s g)
  from released.hyps length_remove1_Suc [of c "sv_removed s"] show ?case
    by (intro slots_releaseI [OF released.prems]) (simp_all add: handlers_def)
qed (auto simp: slots_inv_def handlers_def close_conn_def length_remove1_Suc)

text \<open>
  An open connection is in the hands of an accept loop or has a handler, and one with a handler is in
  the registry, so that the shutdown finds it.
\<close>

lemma trans_conns:
  assumes "srv_trans s s'" "conns_inv s"
  shows "conns_inv s'"
  using assms
proof (induction rule: srv_trans.induct)
  case (accept i s c)
  with hands_update [of i "sv_loops s"] show ?case by (auto simp: conns_inv_def live_def in_hands_def)
next
  case (listener_closed i s)
  with hands_update [of i "sv_loops s"] show ?case by (auto simp: conns_inv_def live_def in_hands_def exit_loop_def)
next
  case (acquired i s c g)
  with hands_update [of i "sv_loops s"] show ?case by (auto simp: conns_inv_def live_def in_hands_def)
next
  case (refused i s c)
  with hands_update [of i "sv_loops s"] show ?case
    by (auto simp: conns_inv_def live_def in_hands_def exit_loop_def close_conn_def)
next
  case (added i s c cs)
  with hands_update [of i "sv_loops s"] Add_conn_ok [of "sv_conns s" c True cs] show ?case
    by (auto simp: conns_inv_def live_def in_hands_def)
next
  case (not_added i s c cs g)
  with hands_update [of i "sv_loops s"] Add_conn_ok [of "sv_conns s" c False cs] show ?case
    by (auto simp: conns_inv_def live_def in_hands_def close_conn_def)
next
  case (ended c s)
  then show ?case by (auto simp: conns_inv_def live_def close_conn_def)
next
  case (removed c s)
  with Remove_conn_ok [of "sv_conns s" c] show ?case by (auto simp: conns_inv_def live_def)
next
  case (released c s g)
  then show ?case by (auto simp: conns_inv_def live_def)
next
  case (shutdown s)
  then show ?case by (simp add: conns_inv_def live_def begin_close_def cset_inv_def cset_elems_def)
next
  case (shard_closed k s cs conns)
  with close_shard_ok [of "sv_conns s" k cs conns] show ?case by (auto simp: conns_inv_def live_def)
qed

section \<open>Reachable states\<close>

definition srv_inv :: "u32 \<Rightarrow> server \<Rightarrow> bool" where
  "srv_inv mx s \<longleftrightarrow> slots_inv mx s \<and> wg_inv s \<and> conns_inv s"

lemma server_start_inv: "srv_inv mx (server_start mx n)"
proof -
  have "hands (replicate n LAccept) = []" by (induction n) (simp_all add: hands_def in_hands_def)
  moreover have "sum_list (map running (replicate n LAccept)) = n" "sum_list (map holds_slot (replicate n LAccept)) = 0"
    by (induction n) (simp_all add: running_def holds_slot_def)
  ultimately show ?thesis
    using NewConnectionGate_limited [of mx]
    by (auto simp: srv_inv_def slots_inv_def wg_inv_def conns_inv_def server_start_def handlers_def live_def NewConnectionGate_def)
qed

lemma srv_step_inv: "srv_inv mx s \<Longrightarrow> srv_step ev s = Some s' \<Longrightarrow> srv_inv mx s'"
  using srv_step_trans [of ev s s' mx] trans_slots [of s s' mx] trans_wg [of s s'] trans_conns [of s s']
  by (simp add: srv_inv_def)

interpretation srv_steps: step_runs srv_step srv_run
  by unfold_locales simp_all

lemma srv_run_inv: "srv_inv mx s \<Longrightarrow> srv_run s es = Some s' \<Longrightarrow> srv_inv mx s'"
  by (rule srv_steps.run_invariant) (auto intro: srv_step_inv)

definition shard_shut :: "nat \<Rightarrow> server \<Rightarrow> bool" where
  "shard_shut k s = cs_closed (cset_shards (sv_conns s) ! k)"

lemma trans_shard_shut:
  assumes "srv_trans s s'" "k < connSetShards" "conns_inv s" "shard_shut k s"
  shows "shard_shut k s'"
  using assms
proof (induction rule: srv_trans.induct)
  case (added i s c cs)
  with cset.closed_add [of "sv_conns s" k c True cs] show ?case by (simp add: shard_shut_def conns_inv_def)
next
  case (not_added i s c cs g)
  with cset.closed_add [of "sv_conns s" k c False cs] show ?case
    by (simp add: shard_shut_def conns_inv_def close_conn_def)
next
  case (removed c s)
  with cset.closed_remove [of "sv_conns s" k c] show ?case by (simp add: shard_shut_def conns_inv_def)
next
  case (shard_closed j s cs conns)
  with cset.closed_close [of "sv_conns s" k j cs conns] show ?case by (simp add: shard_shut_def conns_inv_def)
qed (simp_all add: shard_shut_def exit_loop_def close_conn_def begin_close_def)

lemma shutdown_shard_shut:
  assumes "srv_step (SvCloseShard k) s = Some s'" "conns_inv s"
  shows "shard_shut k s'"
  using assms close_shard_ok(5) [of "sv_conns s" k]
  by (auto simp: srv_step_def shutdown_shard_def shard_shut_def conns_inv_def split: if_splits prod.splits)

lemma run_shard_shut:
  assumes "srv_inv mx s" "srv_run s es = Some s'" "k < connSetShards" "shard_shut k s \<or> SvCloseShard k \<in> set es"
  shows "shard_shut k s'"
  using assms
proof (induction es arbitrary: s)
  case (Cons e es)
  then obtain s1 where s1: "srv_step e s = Some s1" "srv_run s1 es = Some s'" by (auto split: option.splits)
  have "shard_shut k s1 \<or> SvCloseShard k \<in> set es"
    using Cons.prems s1 trans_shard_shut [of s s1 k] srv_step_trans [OF s1(1)] shutdown_shard_shut [of k s s1]
    by (auto simp: srv_inv_def)
  with Cons.IH [OF srv_step_inv [OF Cons.prems(1) s1(1)] s1(2) Cons.prems(3)] show ?case .
qed simp

lemma all_shut_no_elems:
  assumes "conns_inv s" "\<forall>k < connSetShards. shard_shut k s"
  shows "cset_elems (sv_conns s) = {}"
  using assms cset.closed_empty [of "sv_conns s"] by (auto simp: conns_inv_def shard_shut_def)

lemma holds_slot_le:
  assumes "i < length xs"
  shows "holds_slot (xs ! i) \<le> sum_list (map holds_slot xs)"
  using assms elem_le_sum_list [of i "map holds_slot xs"] by simp

lemma run_close_shards:
  assumes "cset_done (sv_conns s)" "\<forall>k \<in> set ks. k < connSetShards"
  shows "\<exists>s'. srv_run s (map SvCloseShard ks) = Some s' \<and> sv_serving s' = sv_serving s"
  using assms
proof (induction ks arbitrary: s)
  case (Cons k ks)
  obtain s1 where "srv_step (SvCloseShard k) s = Some s1" "cset_done (sv_conns s1)" "sv_serving s1 = sv_serving s"
    using Cons.prems by (simp add: srv_step_def shutdown_shard_def close_shard_def)
  with Cons.IH [of s1] Cons.prems(2) show ?case by auto
qed simp

lemmas srv_eval = srv_step_def loop_step_def server_start_def live_def hands_def in_hands_def NewConnectionGate_def
  AcquireUntil_def Acquire_def chan_make_def chan_try_send_def NewConnectionSet_def Add_conn_def begin_close_def

section \<open>Properties\<close>

text \<open>
  C21. Whatever accept loops, handlers and a closing goroutine do, in any order: the handlers and the
  loops about to start one are at most the configured number of concurrent connections, every open
  connection is in the hands of a loop or has a handler that will close it, and the wait group counts
  exactly the running loops and handlers.
\<close>

theorem server_accounting:
  assumes "srv_run (server_start mx n) es = Some s"
  shows "(mx \<noteq> 0 \<longrightarrow> sum_list (map holds_slot (sv_loops s)) + handlers s \<le> unat mx) \<and>
    sv_open s \<subseteq> set (hands (sv_loops s)) \<union> set (sv_serving s) \<and>
    sv_wg s = sum_list (map running (sv_loops s)) + handlers s"
proof -
  have inv: "srv_inv mx s" using srv_run_inv [OF server_start_inv assms] .
  then have "gate_used (sv_gate s) \<le> unat mx" if "mx \<noteq> 0"
    using that gate.used_le [of "sv_gate s"] by (simp add: srv_inv_def slots_inv_def)
  with inv show ?thesis by (auto simp: srv_inv_def slots_inv_def wg_inv_def conns_inv_def)
qed

theorem server_accounting_witness:
  "case srv_run (server_start 2 1) [SvAccept 0 7, SvAcquire 0, SvAdd 0, SvAccept 0 8, SvAcquire 0] of
     None \<Rightarrow> False
   | Some s \<Rightarrow> sum_list (map holds_slot (sv_loops s)) + handlers s \<le> 2 \<and> sv_wg s = 2"
proof -
  obtain s where s: "srv_run (server_start 2 1) [SvAccept 0 7, SvAcquire 0, SvAdd 0, SvAccept 0 8, SvAcquire 0] = Some s"
    "sv_wg s = 2"
    by (simp add: srv_eval)
  from server_accounting [OF s(1)] s(2) show ?thesis unfolding s(1) by simp
qed

text \<open>
  C5. When the shutdown has closed all parts of the registry, in any interleaving with accept loops and
  handlers, no handler has an open connection, and new ones cannot be registered. When the wait group has
  reached zero, all loops and handlers have ended, every accepted connection is closed and every slot of
  the gate is free.
\<close>

theorem server_shutdown:
  assumes "srv_run (server_start mx n) es = Some s" "\<forall>k < connSetShards. SvCloseShard k \<in> set es"
  shows "set (sv_serving s) \<inter> sv_open s = {} \<and> fst (Add_conn (sv_conns s) c) = False \<and>
    (sv_wg s = 0 \<longrightarrow> sv_open s = {} \<and> set (sv_loops s) \<subseteq> {LExited} \<and> gate_used (sv_gate s) = 0)"
proof -
  have inv: "srv_inv mx s" using srv_run_inv [OF server_start_inv assms(1)] .
  have shut: "\<forall>k < connSetShards. shard_shut k s" using run_shard_shut [OF server_start_inv assms(1)] assms(2) by blast
  then have "fst (Add_conn (sv_conns s) c) = False" by (simp add: shard_shut_def Add_conn_def)
  moreover have serving: "set (sv_serving s) \<inter> sv_open s = {}"
    using all_shut_no_elems [OF _ shut] inv by (auto simp: srv_inv_def conns_inv_def)
  moreover have "sv_open s = {} \<and> set (sv_loops s) \<subseteq> {LExited} \<and> gate_used (sv_gate s) = 0" if "sv_wg s = 0"
  proof -
    have zero: "\<forall>p \<in> set (sv_loops s). running p = 0" and none: "handlers s = 0"
      using that inv by (auto simp: srv_inv_def wg_inv_def)
    have "p = LExited" if "running p = 0" for p using that by (cases p) (simp_all add: running_def)
    with zero have exited: "set (sv_loops s) \<subseteq> {LExited}" by blast
    from exited have "hands (sv_loops s) = []" "sum_list (map holds_slot (sv_loops s)) = 0"
      by (auto simp: hands_def in_hands_def holds_slot_def)
    with inv none exited show ?thesis
      by (auto simp: srv_inv_def conns_inv_def slots_inv_def handlers_def gate_used_def split: if_splits)
  qed
  ultimately show ?thesis by blast
qed

theorem server_shutdown_witness:
  "\<exists>s. srv_run (server_start 1 1) ([SvAccept 0 7, SvAcquire 0, SvAdd 0, SvShutdown] @ map SvCloseShard [0..<connSetShards]) = Some s \<and>
     7 \<in> set (sv_serving s) \<and> 7 \<notin> sv_open s"
proof -
  obtain s1 where s1: "srv_run (server_start 1 1) [SvAccept 0 7, SvAcquire 0, SvAdd 0, SvShutdown] = Some s1"
    "cset_done (sv_conns s1)" "sv_serving s1 = [7]"
    by (simp add: srv_eval)
  then obtain s where s: "srv_run s1 (map SvCloseShard [0..<connSetShards]) = Some s" "sv_serving s = [7]"
    using run_close_shards [of s1 "[0..<connSetShards]"] by auto
  have run: "srv_run (server_start 1 1) ([SvAccept 0 7, SvAcquire 0, SvAdd 0, SvShutdown] @ map SvCloseShard [0..<connSetShards]) = Some s"
    unfolding srv_steps.run_append s1(1) by (simp only: option.case s(1))
  from server_shutdown [OF run] s(2) run show ?thesis by auto
qed

text \<open>
  C22. Once the shutdown has begun, no accept loop and no handler blocks on the gate: a loop that waits
  for a slot goes on and ends, a loop that holds one goes on, and a handler that gives its slot back does
  so at once.
\<close>

theorem server_shutdown_unblocks:
  assumes "srv_run (server_start mx n) es = Some s" "cset_done (sv_conns s)" "i < length (sv_loops s)"
  shows "(sv_loops s ! i = LGot c \<longrightarrow> (\<exists>s'. srv_step (SvAcquire i) s = Some s' \<and> sv_loops s' ! i = LExited \<and> c \<notin> sv_open s')) \<and>
    (sv_loops s ! i = LHeld c \<longrightarrow> (\<exists>s'. srv_step (SvAdd i) s = Some s' \<and> sv_loops s' ! i = LAccept)) \<and>
    (c \<in> set (sv_removed s) \<longrightarrow> (\<exists>s'. srv_step (SvRelease c) s = Some s'))"
proof -
  have inv: "slots_inv mx s" using srv_run_inv [OF server_start_inv assms(1)] by (simp add: srv_inv_def)
  have rel: "\<exists>g. Release (sv_gate s) = Some g" if "0 < sum_list (map holds_slot (sv_loops s)) + handlers s"
  proof (cases "mx = 0")
    case True
    with inv show ?thesis by (simp add: slots_inv_def Release_def)
  next
    case False
    with that inv gate.release_None [of "sv_gate s"] have "Release (sv_gate s) \<noteq> None"
      by (simp add: slots_inv_def del: sum_list_eq_0_iff)
    then show ?thesis by blast
  qed
  obtain ok g where a: "AcquireUntil (sv_gate s) None (cset_done (sv_conns s)) = (ok, g)" by fastforce
  have "\<not> ok" using AcquireUntil_cases [OF slots_inv_gate [OF inv] _ a] assms(2) by (auto split: if_splits)
  with a assms(2,3) have got: "\<exists>s'. srv_step (SvAcquire i) s = Some s' \<and> sv_loops s' ! i = LExited \<and> c \<notin> sv_open s'"
    if "sv_loops s ! i = LGot c" using that by (simp add: srv_step_def loop_step_def close_conn_def exit_loop_def)
  have "\<exists>g. Release (sv_gate s) = Some g" if "sv_loops s ! i = LHeld c"
    using holds_slot_le [OF assms(3)] that by (intro rel) (simp add: holds_slot_def)
  with assms(3) have "\<exists>s'. srv_step (SvAdd i) s = Some s' \<and> sv_loops s' ! i = LAccept" if "sv_loops s ! i = LHeld c"
    using that by (auto simp: srv_step_def loop_step_def close_conn_def split: prod.splits bool.splits)
  moreover have "\<exists>s'. srv_step (SvRelease c) s = Some s'" if "c \<in> set (sv_removed s)"
    using that rel by (auto simp: srv_step_def handler_release_def handlers_def dest: length_pos_if_in_set)
  ultimately show ?thesis using got by blast
qed

theorem server_shutdown_unblocks_witness:
  "\<exists>s s'. srv_run (server_start 1 2) [SvAccept 0 7, SvAcquire 0, SvAdd 0, SvAccept 1 9, SvShutdown] = Some s \<and>
     Acquire (sv_gate s) = None \<and> srv_step (SvAcquire 1) s = Some s' \<and> sv_loops s' ! 1 = LExited \<and> 9 \<notin> sv_open s'"
proof -
  obtain s where s: "srv_run (server_start 1 2) [SvAccept 0 7, SvAcquire 0, SvAdd 0, SvAccept 1 9, SvShutdown] = Some s"
    "cset_done (sv_conns s)" "1 < length (sv_loops s)" "sv_loops s ! 1 = LGot 9" "Acquire (sv_gate s) = None"
    by (simp add: srv_eval numeral_2_eq_2)
  from server_shutdown_unblocks [OF s(1-3), of 9] s show ?thesis by blast
qed

end
