(* ===== verification/Handshake.thy ===== *)
theory Handshake
  imports Ext Proto
begin

text \<open>
  Model of \<open>proto/handshake\<close>, \<open>proto/handshake/password\<close>, \<open>auth.go\<close> and \<open>conn.go\<close> under
  \<open>internal/server/socks\<close>: method selection, the RFC 1929 sub-negotiation, the authentication adaptor
  and \<open>Authenticate\<close>. Bytes are read from the client's stream; replies go to a writer as in \<open>Proto\<close>.
\<close>

section \<open>Definitions\<close>

subsection \<open>Method selection\<close>

text \<open>\<open>Method\<close> is a byte with four named values; \<open>MethodFromByte\<close> keeps every byte.\<close>

type_synonym Method = byte

definition MethodNoAuth :: Method where "MethodNoAuth = 0x00"
definition MethodGssApi :: Method where "MethodGssApi = 0x01"
definition MethodPassword :: Method where "MethodPassword = 0x02"
definition MethodNoAcceptableMethods :: Method where "MethodNoAcceptableMethods = 0xff"

definition MethodFromByte :: "byte \<Rightarrow> Method" where
  "MethodFromByte b =
     (if b = 0x00 then MethodNoAuth
      else if b = 0x01 then MethodGssApi
      else if b = 0x02 then MethodPassword
      else if b = 0xff then MethodNoAcceptableMethods
      else if 0x03 \<le> b \<and> b \<le> 0x7f then b
      else b)"

definition EvaluateMethod :: "Method list \<Rightarrow> Method \<Rightarrow> bool" where
  "EvaluateMethod methods m = list_ex (\<lambda>offered. offered = m) methods"

definition handshake_ReadRequest :: "Method list reader" where
  "handshake_ReadRequest = rbind readU8 (\<lambda>ver. rbind (rlift (checkVersion ver)) (\<lambda>_.
     rbind readU8 (\<lambda>nmethods. rbind (ReadFull (unat nmethods)) (\<lambda>buf.
       rret (map MethodFromByte buf)))))"

definition handshake_Response_MarshalTo :: "writer \<Rightarrow> Method \<Rightarrow> byte list \<Rightarrow> go_error option \<times> byte list" where
  "handshake_Response_MarshalTo w m out = writeAll w [Version5, m] out"

subsection \<open>Username and password\<close>

definition SubnegotiationVersion :: byte where
  "SubnegotiationVersion = 0x01"

record UsernamePassword =
  upUsername :: gostring
  upPassword :: gostring

definition password_ReadRequest :: "UsernamePassword reader" where
  "password_ReadRequest = rbind readU8 (\<lambda>ver.
     if ver \<noteq> SubnegotiationVersion then rfail (UnsupportedSubnegotiation ver)
     else rbind readU8 (\<lambda>ulen. rbind (ReadFull (unat ulen + 1)) (\<lambda>buf.
       let plen = buf ! unat ulen; username = take (unat ulen) buf in
       rbind (ReadFull (unat plen)) (\<lambda>pwd.
         rret \<lparr>upUsername = username, upPassword = pwd\<rparr>))))"

definition password_Request_MarshalTo ::
    "writer \<Rightarrow> UsernamePassword \<Rightarrow> byte list \<Rightarrow> go_error option \<times> byte list" where
  "password_Request_MarshalTo w req out =
     (let uname = upUsername req; passwd = upPassword req in
      writeAll w ([SubnegotiationVersion, of_nat (length uname)] @ uname
                  @ [of_nat (length passwd)] @ passwd) out)"

datatype Status = StatusSucceeded | StatusFailed

definition Status_Byte :: "Status \<Rightarrow> byte" where
  "Status_Byte s = (case s of StatusSucceeded \<Rightarrow> 0x00 | StatusFailed \<Rightarrow> 0xff)"

definition password_Response_MarshalTo :: "writer \<Rightarrow> Status \<Rightarrow> byte list \<Rightarrow> go_error option \<times> byte list" where
  "password_Response_MarshalTo w s out = writeAll w [SubnegotiationVersion, Status_Byte s] out"

definition ParseStatus :: "byte \<Rightarrow> Status res" where
  "ParseStatus b =
     (if b = 0x00 then Inr StatusSucceeded
      else if b = 0xff then Inr StatusFailed
      else Inl (InvalidStatus b))"

subsection \<open>The authentication adaptor\<close>

datatype authMode = authNone | authPassword

record AuthAdaptor =
  aa_mode :: authMode
  aa_username :: gostring
  aa_password :: gostring

definition NoAuthConfig :: AuthAdaptor where
  "NoAuthConfig = \<lparr>aa_mode = authNone, aa_username = [], aa_password = []\<rparr>"

definition PasswordConfig :: "gostring \<Rightarrow> gostring \<Rightarrow> AuthAdaptor" where
  "PasswordConfig u p = \<lparr>aa_mode = authPassword, aa_username = u, aa_password = p\<rparr>"

definition AuthAdaptor_Method :: "AuthAdaptor \<Rightarrow> Method" where
  "AuthAdaptor_Method a = (case aa_mode a of authPassword \<Rightarrow> MethodPassword | _ \<Rightarrow> MethodNoAuth)"

text \<open>
  The outcome of a step of the negotiation: an error or the extension with the bytes not yet read,
  and what has been written so far.
\<close>

type_synonym auth_out = "(Extension \<times> byte list) res \<times> byte list"

definition executePassword :: "u64 \<Rightarrow> writer \<Rightarrow> AuthAdaptor \<Rightarrow> byte list \<Rightarrow> byte list \<Rightarrow> auth_out" where
  "executePassword now w a inp out = (case password_ReadRequest inp of
      Inl e \<Rightarrow> (Inl e, out)
    | Inr (req, inp) \<Rightarrow>
       (let equal = HasPrefix (upUsername req) (aa_username a) \<and> upPassword req = aa_password a;
            status = (if equal then StatusSucceeded else StatusFailed)
        in case password_Response_MarshalTo w status out of
            (Some e, out) \<Rightarrow> (Inl e, out)
          | (None, out) \<Rightarrow>
              if \<not> equal then (Inl BadCredentials, out)
              else (Inr (TryFrom now (aa_username a) (upUsername req), inp), out)))"

definition Execute :: "u64 \<Rightarrow> writer \<Rightarrow> AuthAdaptor \<Rightarrow> byte list \<Rightarrow> byte list \<Rightarrow> auth_out" where
  "Execute now w a inp out = (case aa_mode a of
      authPassword \<Rightarrow> executePassword now w a inp out
    | _ \<Rightarrow> (Inr (None_ext, inp), out))"

text \<open>
  \<open>Authenticate\<close>. The boolean is whether the stream is returned with an error: it is exactly when the
  sub-negotiation fails.
\<close>

definition Authenticate ::
    "u64 \<Rightarrow> writer \<Rightarrow> AuthAdaptor \<Rightarrow> byte list \<Rightarrow> byte list \<Rightarrow> bool \<times> auth_out" where
  "Authenticate now w auth inp out = (case handshake_ReadRequest inp of
      Inl e \<Rightarrow> (False, Inl e, out)
    | Inr (methods, inp) \<Rightarrow>
       (let method = AuthAdaptor_Method auth in
        if EvaluateMethod methods method then
          (case handshake_Response_MarshalTo w method out of
             (Some e, out) \<Rightarrow> (False, Inl e, out)
           | (None, out) \<Rightarrow> (True, Execute now w auth inp out))
        else
          (let (_, out) = handshake_Response_MarshalTo w MethodNoAcceptableMethods out
           in (False, Inl NoAcceptableMethods, out))))"

section \<open>Lemmas\<close>

lemma MethodFromByte_id [simp]: "MethodFromByte b = b"
  by (simp add: MethodFromByte_def MethodNoAuth_def MethodGssApi_def MethodPassword_def
      MethodNoAcceptableMethods_def)

lemma map_MethodFromByte [simp]: "map MethodFromByte bs = bs"
  by (simp add: map_idI)

lemma EvaluateMethod_iff [simp]: "EvaluateMethod ms m \<longleftrightarrow> m \<in> set ms"
  by (auto simp: EvaluateMethod_def list_ex_iff)

lemma handshake_ReadRequest_iff:
  "handshake_ReadRequest s = Inr (ms, rest) \<longleftrightarrow>
     length ms \<le> 255 \<and> s = [Version5, of_nat (length ms)] @ ms @ rest"
proof
  assume "handshake_ReadRequest s = Inr (ms, rest)"
  then obtain n where "s = Version5 # n # ms @ rest" "length ms = unat n"
    by (auto simp: handshake_ReadRequest_def rbind_eq_Inr readU8_eq_Inr ReadFull_eq_Inr
        checkVersion_def rlift_def comp_def split: if_splits)
  then show "length ms \<le> 255 \<and> s = [Version5, of_nat (length ms)] @ ms @ rest"
    using unat_byte_le [of n] by simp
next
  assume "length ms \<le> 255 \<and> s = [Version5, of_nat (length ms)] @ ms @ rest"
  then show "handshake_ReadRequest s = Inr (ms, rest)"
    by (simp add: handshake_ReadRequest_def rbind_def unat_of_nat_byte comp_def)
qed

definition wf_credentials :: "UsernamePassword \<Rightarrow> bool" where
  "wf_credentials c \<longleftrightarrow> length (upUsername c) \<le> 255 \<and> length (upPassword c) \<le> 255"

lemma marshalled_password:
  "marshalled password_Request_MarshalTo c =
     Inr ([SubnegotiationVersion, of_nat (length (upUsername c))] @ upUsername c
          @ [of_nat (length (upPassword c))] @ upPassword c)"
  by (simp add: marshalled_def password_Request_MarshalTo_def Let_def)

lemma password_ReadRequest_enc:
  assumes "wf_credentials c" "marshalled password_Request_MarshalTo c = Inr bs"
  shows "password_ReadRequest (bs @ rest) = Inr (c, rest)"
proof -
  let ?u = "upUsername c" and ?p = "upPassword c"
  let ?b = "?u @ [of_nat (length ?p)]"
  have "ReadFull (length ?u + 1) (?b @ ?p @ rest) = Inr (?b, ?p @ rest)" by (rule ReadFull_append) simp
  then show ?thesis
    using assms
    by (auto simp: wf_credentials_def marshalled_password password_ReadRequest_def rbind_def
        unat_of_nat_byte Let_def)
qed

lemma password_ReadRequest_dec:
  assumes "password_ReadRequest s = Inr (c, rest)"
  shows "wf_credentials c \<and> (\<exists>bs. marshalled password_Request_MarshalTo c = Inr bs \<and> s = bs @ rest)"
proof -
  obtain ulen buf pwd where s: "s = SubnegotiationVersion # ulen # buf @ pwd @ rest"
    "length buf = unat ulen + 1" "length pwd = unat (buf ! unat ulen)"
    "c = \<lparr>upUsername = take (unat ulen) buf, upPassword = pwd\<rparr>"
    using assms
    by (auto simp: password_ReadRequest_def rbind_eq_Inr readU8_eq_Inr ReadFull_eq_Inr Let_def
        split: if_splits)
  have "buf = take (unat ulen) buf @ [buf ! unat ulen]"
    using s(2) by (metis Suc_eq_plus1 lessI take_Suc_conv_app_nth take_all order_refl)
  with s show ?thesis
    using unat_byte_le [of ulen] unat_byte_le [of "buf ! unat ulen"]
    by (simp add: wf_credentials_def marshalled_password min_def)
qed

interpretation password_codec: canonical_codec
  "marshalled password_Request_MarshalTo" password_ReadRequest wf_credentials
proof unfold_locales
  show "\<exists>bs. marshalled password_Request_MarshalTo a = Inr bs" for a
    by (simp add: marshalled_password)
  show "wf_credentials a \<and> (\<exists>bs. marshalled password_Request_MarshalTo a = Inr bs \<and> s = bs @ rest)"
    if "password_ReadRequest s = Inr (a, rest)" for s a rest
    using that by (rule password_ReadRequest_dec)
qed (rule password_ReadRequest_enc)

lemma writeAll_None: "writeAll w b out = (None, out') \<Longrightarrow> out' = out @ b"
  by (auto simp: writeAll_def split: option.splits)

lemma Authenticate_password_success:
  assumes "Authenticate now w (PasswordConfig u p) inp out = (st, Inr (e, rest), out')"
  shows "\<exists>ms c bs. MethodPassword \<in> set ms \<and> length ms \<le> 255 \<and>
    marshalled password_Request_MarshalTo c = Inr bs \<and> wf_credentials c \<and>
    inp = [Version5, of_nat (length ms)] @ ms @ bs @ rest \<and>
    HasPrefix (upUsername c) u \<and> upPassword c = p \<and> e = TryFrom now u (upUsername c) \<and>
    out' = out @ [Version5, MethodPassword, SubnegotiationVersion, Status_Byte StatusSucceeded]"
proof -
  obtain ms inp1 where hs: "handshake_ReadRequest inp = Inr (ms, inp1)" and ms: "MethodPassword \<in> set ms"
    and ex: "Execute now w (PasswordConfig u p) inp1 (out @ [Version5, MethodPassword]) = (Inr (e, rest), out')"
    using assms
    by (auto simp: Authenticate_def AuthAdaptor_Method_def PasswordConfig_def Let_def
        handshake_Response_MarshalTo_def dest!: writeAll_None
        split: sum.splits if_splits prod.splits option.splits)
  obtain c where c: "password_ReadRequest inp1 = Inr (c, rest)" "HasPrefix (upUsername c) u"
    "upPassword c = p" "e = TryFrom now u (upUsername c)"
    "out' = out @ [Version5, MethodPassword, SubnegotiationVersion, Status_Byte StatusSucceeded]"
    using ex
    by (auto simp: Execute_def executePassword_def PasswordConfig_def Let_def
        password_Response_MarshalTo_def dest!: writeAll_None
        split: sum.splits if_splits prod.splits option.splits)
  from password_codec.enc_dec [OF c(1)] hs ms c(2-) show ?thesis
    by (auto simp: handshake_ReadRequest_iff)
qed

lemma Authenticate_password_run:
  assumes "MethodPassword \<in> set ms" "length ms \<le> 255" "wf_credentials c"
    "marshalled password_Request_MarshalTo c = Inr bs"
  shows "Authenticate now no_fail (PasswordConfig u p) ([Version5, of_nat (length ms)] @ ms @ bs @ rest) out =
    (True, if HasPrefix (upUsername c) u \<and> upPassword c = p
       then (Inr (TryFrom now u (upUsername c), rest),
             out @ [Version5, MethodPassword, SubnegotiationVersion, Status_Byte StatusSucceeded])
       else (Inl BadCredentials,
             out @ [Version5, MethodPassword, SubnegotiationVersion, Status_Byte StatusFailed]))"
proof -
  have "handshake_ReadRequest ([Version5, of_nat (length ms)] @ ms @ bs @ rest) = Inr (ms, bs @ rest)"
    using assms(2) by (subst handshake_ReadRequest_iff) simp
  then show ?thesis
    using assms password_codec.dec_enc [OF assms(3,4), of rest]
    by (simp add: Authenticate_def AuthAdaptor_Method_def PasswordConfig_def Execute_def executePassword_def
        handshake_Response_MarshalTo_def password_Response_MarshalTo_def Let_def)
qed

section \<open>Properties\<close>

text \<open>
  C11. With a configured password nobody gets in without it: whatever bytes the client sends and
  whatever the writer does, \<open>Authenticate\<close> succeeds only if the client offered the password method and
  sent credentials with the configured password and a user name that starts with the configured one;
  the extension is then parsed from that user name, and exactly the two success replies were written.
\<close>

theorem password_auth_sound:
  assumes "Authenticate now w (PasswordConfig u p) inp out = (st, Inr (e, rest), out')"
  shows "\<exists>ms c bs. MethodPassword \<in> set ms \<and> length ms \<le> 255 \<and>
    marshalled password_Request_MarshalTo c = Inr bs \<and> wf_credentials c \<and>
    inp = [Version5, of_nat (length ms)] @ ms @ bs @ rest \<and>
    HasPrefix (upUsername c) u \<and> upPassword c = p \<and> e = TryFrom now u (upUsername c) \<and>
    out' = out @ [Version5, MethodPassword, SubnegotiationVersion, Status_Byte StatusSucceeded]"
  using assms by (rule Authenticate_password_success)

theorem password_auth_sound_witness:
  "\<exists>ms c bs. MethodPassword \<in> set ms \<and> length ms \<le> 255 \<and>
    marshalled password_Request_MarshalTo c = Inr bs \<and> wf_credentials c \<and>
    [5, 1, 2, 1, 1, 117, 1, 112, 9] = [Version5, of_nat (length ms)] @ ms @ bs @ [9] \<and>
    HasPrefix (upUsername c) [117] \<and> upPassword c = [112] \<and> None_ext = TryFrom 0 [117] (upUsername c) \<and>
    [5, 2, 1, 0] = [] @ [Version5, MethodPassword, SubnegotiationVersion, Status_Byte StatusSucceeded]"
proof -
  have "Authenticate 0 no_fail (PasswordConfig [117] [112]) [5, 1, 2, 1, 1, 117, 1, 112, 9] [] =
      (True, Inr (None_ext, [9]), [5, 2, 1, 0])"
    by code_simp
  from password_auth_sound [OF this] show ?thesis .
qed

text \<open>
  The dialogue is the RFC's: a client that offers the password method and sends well-formed
  credentials gets the selected method, then status 0 and the extension if the credentials match, and
  status 0xff and an error otherwise; the bytes behind the credentials are left for the request.
\<close>

theorem password_auth_dialogue:
  assumes "MethodPassword \<in> set ms" "length ms \<le> 255" "wf_credentials c"
    "marshalled password_Request_MarshalTo c = Inr bs"
  shows "Authenticate now no_fail (PasswordConfig u p) ([Version5, of_nat (length ms)] @ ms @ bs @ rest) [] =
    (True, if HasPrefix (upUsername c) u \<and> upPassword c = p
       then (Inr (TryFrom now u (upUsername c), rest), [5, 2, 1, 0])
       else (Inl BadCredentials, [5, 2, 1, 0xff]))"
  using Authenticate_password_run [OF assms, of now u p rest "[]"]
  by (simp add: Version5_def MethodPassword_def SubnegotiationVersion_def Status_Byte_def)

theorem password_auth_dialogue_witness:
  "Authenticate 0 no_fail (PasswordConfig [117] [112]) [5, 1, 2, 1, 1, 118, 1, 112] [] =
    (True, Inl BadCredentials, [5, 2, 1, 0xff])"
proof -
  have "marshalled password_Request_MarshalTo \<lparr>upUsername = [118], upPassword = [112]\<rparr> = Inr [1, 1, 118, 1, 112]"
    "wf_credentials \<lparr>upUsername = [118], upPassword = [112]\<rparr>"
    "\<not> HasPrefix [118] [117 :: byte]"
    by code_simp+
  with password_auth_dialogue [of "[MethodPassword]" _ _ 0 "[117]" "[112]" "[]", OF _ _ this(2,1)]
  show ?thesis by (simp add: Version5_def MethodPassword_def)
qed

text \<open>
  A client that does not offer the required method is told so with the reply 0xff and is not
  authenticated, in both authentication modes.
\<close>

theorem no_acceptable_method:
  assumes "AuthAdaptor_Method a \<notin> set ms" "length ms \<le> 255"
  shows "Authenticate now no_fail a ([Version5, of_nat (length ms)] @ ms @ rest) [] =
    (False, Inl NoAcceptableMethods, [5, 0xff])"
proof -
  have "handshake_ReadRequest ([Version5, of_nat (length ms)] @ ms @ rest) = Inr (ms, rest)"
    using assms(2) by (subst handshake_ReadRequest_iff) simp
  then show ?thesis using assms(1)
    by (simp add: Authenticate_def handshake_Response_MarshalTo_def Let_def Version5_def
        MethodNoAcceptableMethods_def)
qed

theorem no_acceptable_method_witness:
  "Authenticate 0 no_fail (PasswordConfig [117] [112]) [5, 2, 0, 1] [] = (False, Inl NoAcceptableMethods, [5, 0xff])"
  using no_acceptable_method [of "PasswordConfig [117] [112]" "[0, 1]" 0 "[]"]
  by (simp add: AuthAdaptor_Method_def PasswordConfig_def MethodPassword_def Version5_def)

end
