(* ===== verification/UdpIo.thy ===== *)
theory UdpIo
  imports UdpRuntime
begin

text \<open>
  Model of the packet input and output of the UDP relay: \<open>udp_io.go\<close>, the batch readers and writers of
  \<open>udp_io_linux.go\<close> and \<open>udp_io_other.go\<close>, and the segmentation offload of \<open>udp_gso_linux.go\<close> and
  \<open>udp_gro_linux.go\<close>. What the kernel returns from a call is a parameter.
\<close>

section \<open>Definitions\<close>

subsection \<open>Packets and addresses\<close>

text \<open>
  A packet read has \<open>rp_n\<close> bytes; \<open>rp_data\<close> is its buffer from the reader's offset on.
\<close>

record udpReadPacket =
  rp_buffer :: buf_id
  rp_data :: "byte list"
  rp_n :: nat
  rp_addr :: addr_port
  rp_truncated :: bool
  rp_batchSlot :: bool

record udpWritePacket =
  wp_buffer :: "byte list"
  wp_owner :: buf_id
  wp_addr :: addr_port
  wp_batchSlot :: bool

definition setUDPAddr :: "addr_port \<Rightarrow> udp_addr" where
  "setUDPAddr ap =
     (if Is4 (ap_addr ap) then \<lparr>ua_ip = As4 (ap_addr ap), ua_port = ap_port ap, ua_zone = []\<rparr>
      else \<lparr>ua_ip = As16 (ap_addr ap), ua_port = ap_port ap, ua_zone = []\<rparr>)"

subsection \<open>Batch writers\<close>

text \<open>
  \<open>wb msgs\<close> is what \<open>WriteBatch\<close> returns for the messages still to be sent. \<open>writeIPv4Messages\<close> and
  \<open>writeIPv6Messages\<close> differ in the type of the connection only.
\<close>

function writeMessages :: "('m list \<Rightarrow> nat \<times> go_error option) \<Rightarrow> 'm list \<Rightarrow> nat \<Rightarrow> nat \<times> go_error option" where
  "writeMessages wb msgs tot =
     (if tot < length msgs then
        (case wb (drop tot msgs) of
           (n, Some e) \<Rightarrow> (tot + n, Some e)
         | (n, None) \<Rightarrow> if n = 0 then (tot, None) else writeMessages wb msgs (tot + n))
      else (tot, None))"
  by auto
termination
  by (relation "measure (\<lambda>(wb, msgs, tot). length msgs - tot)") auto

declare writeMessages.simps [simp del]

text \<open>
  The writer has message slots for \<open>batchSize\<close> packets; slicing them beyond that is a run-time panic, which is
  \<open>None\<close>.
\<close>

definition linux_Write ::
    "nat \<Rightarrow> ((byte list \<times> udp_addr) list \<Rightarrow> nat \<times> go_error option) \<Rightarrow> udpWritePacket list \<Rightarrow> (nat \<times> go_error option) option" where
  "linux_Write batchSize wb packets =
     (if length packets = 0 then Some (0, None)
      else if length packets > batchSize then None
      else Some (writeMessages wb (map (\<lambda>p. (wp_buffer p, setUDPAddr (wp_addr p))) packets) 0))"

fun generic_Write :: "(byte list \<times> udp_addr \<Rightarrow> go_error option) \<Rightarrow> nat \<Rightarrow> udpWritePacket list \<Rightarrow> nat \<times> go_error option" where
  "generic_Write wr i [] = (i, None)"
| "generic_Write wr i (p # ps) = (case wr (wp_buffer p, setUDPAddr (wp_addr p)) of
      Some e \<Rightarrow> (i, Some e)
    | None \<Rightarrow> generic_Write wr (Suc i) ps)"

subsection \<open>Segmentation offload on send\<close>

fun gso_uniform :: "addr_port \<Rightarrow> nat \<Rightarrow> udpWritePacket list \<Rightarrow> bool" where
  "gso_uniform dst sz [] = True"
| "gso_uniform dst sz [p] = (wp_addr p = dst \<and> length (wp_buffer p) \<le> sz)"
| "gso_uniform dst sz (p # ps) = (wp_addr p = dst \<and> length (wp_buffer p) = sz \<and> gso_uniform dst sz ps)"

definition gsoEligible :: "bool \<Rightarrow> udpWritePacket list \<Rightarrow> nat option" where
  "gsoEligible enabled batch =
     (if \<not> enabled \<or> length batch < 2 then None
      else let dst = wp_addr (hd batch); size = length (wp_buffer (hd batch)) in
        if size = 0 then None
        else if gso_uniform dst size (tl batch) then Some size else None)"

text \<open>
  One round packs segments into the scratch buffer; \<open>gso_pack\<close> is their number.
\<close>

definition gsoMaxSegments :: nat where "gsoMaxSegments = 64"
definition gsoScratchBytes :: nat where "gsoScratchBytes = 64 * 1024"

fun gso_pack :: "nat \<Rightarrow> nat \<Rightarrow> byte list list \<Rightarrow> nat" where
  "gso_pack segments tot [] = 0"
| "gso_pack segments tot (p # ps) =
     (if segments < gsoMaxSegments \<and> \<not> tot + length p > gsoScratchBytes
      then Suc (gso_pack (Suc segments) (tot + length p) ps) else 0)"

definition sockaddr_ok :: "addr_port \<Rightarrow> bool" where
  "sockaddr_ok ap \<longleftrightarrow> Is4 (ap_addr ap) \<or> Is6 (ap_addr ap)"

text \<open>
  The loop of \<open>sendUDPGSO\<close> over the packets left. \<open>sendmsg\<close> gives the error of sending one super-datagram. The
  result is the number of packets sent, the error, and the super-datagrams handed to the kernel.
\<close>

lemma gso_pack_le: "gso_pack s t ps \<le> length ps"
  by (induction s t ps rule: gso_pack.induct) auto

function gso_loop :: "(byte list \<Rightarrow> go_error option) \<Rightarrow> nat \<Rightarrow> byte list list \<Rightarrow> nat \<times> go_error option \<times> byte list list" where
  "gso_loop sendmsg sent ps =
     (if ps = [] then (sent, None, [])
      else let segments = gso_pack 0 0 ps in
        if segments = 0 then (sent, Some (Message ''EMSGSIZE''), [])
        else let dgram = concat (take segments ps) in
          (case sendmsg dgram of
             Some e \<Rightarrow> (sent, Some e, [])
           | None \<Rightarrow> (case gso_loop sendmsg (sent + segments) (drop segments ps) of
               (n, err, out) \<Rightarrow> (n, err, dgram # out))))"
  by auto
termination
  by (relation "measure (\<lambda>(sendmsg, sent, ps). length ps)") auto

declare gso_loop.simps [simp del]

definition sendUDPGSO :: "(byte list \<Rightarrow> go_error option) \<Rightarrow> go_error option \<Rightarrow> udpWritePacket list \<Rightarrow> nat \<times> go_error option \<times> byte list list" where
  "sendUDPGSO sendmsg rawErr batch =
     (if length batch = 0 then (0, None, [])
      else if \<not> sockaddr_ok (wp_addr (batch ! 0)) then (0, Some (Message ''EAFNOSUPPORT''), [])
      else case rawErr of
          Some e \<Rightarrow> (0, Some e, [])
        | None \<Rightarrow> gso_loop sendmsg 0 (map wp_buffer batch))"

subsection \<open>Coalesced reads\<close>

definition groMaxSegments :: nat where "groMaxSegments = 64"

text \<open>
  \<open>parseGROSize\<close> on the parsed control messages (level, type, data); \<open>native\<close> reads a native-endian number.
\<close>

definition IPPROTO_UDP :: int where "IPPROTO_UDP = 17"
definition UDP_GRO :: int where "UDP_GRO = 104"

fun gro_size :: "(byte list \<Rightarrow> nat) \<Rightarrow> (int \<times> int \<times> byte list) list \<Rightarrow> nat" where
  "gro_size native [] = 0"
| "gro_size native ((level, ty, d) # ms) =
     (if level \<noteq> IPPROTO_UDP \<or> ty \<noteq> UDP_GRO then gro_size native ms
      else if length d \<ge> 4 then native (take 4 d)
      else if length d \<ge> 2 then native (take 2 d)
      else gro_size native ms)"

definition parseGROSize :: "(byte list \<Rightarrow> nat) \<Rightarrow> (int \<times> int \<times> byte list) list res \<Rightarrow> nat" where
  "parseGROSize native parsed = (case parsed of Inl _ \<Rightarrow> 0 | Inr ms \<Rightarrow> gro_size native ms)"

text \<open>
  \<open>readGRO\<close> after a successful read of \<open>n\<close> bytes: \<open>b\<close> is the buffer read into, \<open>copies\<close> the buffers taken from
  the pool for the further segments.
\<close>

definition readGRO ::
    "nat \<Rightarrow> buf_id \<Rightarrow> (nat \<Rightarrow> buf_id) \<Rightarrow> byte list \<Rightarrow> bool \<Rightarrow> addr_port \<Rightarrow> nat \<Rightarrow> udpRuntime \<Rightarrow> udpReadPacket list \<times> udpRuntime" where
  "readGRO limit b copies data trunc src segmentSize r =
     (let n = length data;
          one = (\<lambda>t. [\<lparr>rp_buffer = b, rp_data = data, rp_n = n, rp_addr = src, rp_truncated = t, rp_batchSlot = False\<rparr>])
      in if trunc then (one True, r)
         else if segmentSize = 0 \<or> segmentSize > limit \<or> n \<le> segmentSize then (one (n > limit), r)
         else
          (let fullSegments = n div segmentSize;
               remainder = n mod segmentSize;
               segments = (if remainder > 0 then fullSegments + 1 else fullSegments);
               m = rt_metrics r;
               m = (if segments > groMaxSegments then m\<lparr>groTruncatedReads := groTruncatedReads m + 1\<rparr> else m);
               segments = (if segments > groMaxSegments then groMaxSegments else segments);
               m = m\<lparr>groCoalescedReads := groCoalescedReads m + 1\<rparr>
           in (\<lparr>rp_buffer = b, rp_data = data, rp_n = segmentSize, rp_addr = src, rp_truncated = False, rp_batchSlot = False\<rparr> #
               map (\<lambda>i. let segmentLen = (if i = fullSegments then remainder else segmentSize) in
                  \<lparr>rp_buffer = copies i, rp_data = take segmentLen (drop (i * segmentSize) data), rp_n = segmentLen,
                   rp_addr = src, rp_truncated = False, rp_batchSlot = False\<rparr>) [1..<segments],
               r\<lparr>rt_metrics := m\<rparr>)))"

subsection \<open>Batched reads\<close>

text \<open>
  The extra buffers of \<open>readBatch\<close>: one batch slot each, at most \<open>k\<close>.
\<close>

fun acquire_extra :: "nat \<Rightarrow> udpRuntime \<Rightarrow> nat \<times> udpRuntime" where
  "acquire_extra 0 r = (0, r)"
| "acquire_extra (Suc k) r = (case tryAcquireBatchBuffer r of
      None \<Rightarrow> (0, r)
    | Some r' \<Rightarrow> (case acquire_extra k r' of (n, r'') \<Rightarrow> (Suc n, r'')))"

fun release_extra :: "buf_id list \<Rightarrow> udpRuntime \<Rightarrow> udpRuntime option" where
  "release_extra [] r = Some r"
| "release_extra (b # bs) r = Option.bind (releaseBuffer b True r) (release_extra bs)"

text \<open>
  What the drain returns: the messages read (data, truncation flag, sender), or an error that says
  there was nothing to read, or another error.
\<close>

datatype drain = Drained "(byte list \<times> bool \<times> addr_port) list" | DrainAgain | DrainError

definition read_packet :: "nat \<Rightarrow> bool \<Rightarrow> buf_id \<Rightarrow> byte list \<times> bool \<times> addr_port \<Rightarrow> udpReadPacket" where
  "read_packet limit bslot b m = (case m of (data, trunc, src) \<Rightarrow>
     \<lparr>rp_buffer = b, rp_data = data, rp_n = length data, rp_addr = src,
      rp_truncated = trunc \<or> length data > limit, rp_batchSlot = bslot\<rparr>)"

text \<open>
  \<open>readBatch\<close>: \<open>b\<close> is the buffer of the blocking read, \<open>bs\<close> the buffers of the batch; \<open>disabled\<close> is
  \<open>batchDisabled\<close>. The drain fills at most the buffers acquired.
\<close>

definition readBatch ::
    "nat \<Rightarrow> buf_id \<Rightarrow> (byte list \<times> bool \<times> addr_port) res \<Rightarrow> (nat \<Rightarrow> buf_id) \<Rightarrow> (nat \<Rightarrow> drain) \<Rightarrow> bool \<Rightarrow> udpRuntime
      \<Rightarrow> (udpReadPacket list res \<times> bool \<times> udpRuntime) option" where
  "readBatch limit b first bs drained disabled r = (case first of
      Inl e \<Rightarrow> Some (Inl e, disabled, putBuffer b r)
    | Inr m \<Rightarrow>
       (let p0 = read_packet limit False b m in
        if uc_BatchSize (rt_config r) = 1 \<or> disabled then Some (Inr [p0], disabled, r)
        else case acquire_extra (nat (uc_BatchSize (rt_config r)) - 1) r of (extra, r) \<Rightarrow>
          if extra = 0 then Some (Inr [p0], disabled, r)
          else (case drained extra of
             DrainAgain \<Rightarrow> map_option (\<lambda>r. (Inr [p0], disabled, r)) (release_extra (map bs [0..<extra]) r)
           | DrainError \<Rightarrow> map_option (\<lambda>r. (Inr [p0], True,
                 r\<lparr>rt_metrics := (rt_metrics r)\<lparr>batchFallbacks := batchFallbacks (rt_metrics r) + 1\<rparr>\<rparr>))
               (release_extra (map bs [0..<extra]) r)
           | Drained ms \<Rightarrow> map_option (\<lambda>r. (Inr (p0 # map (\<lambda>i. read_packet limit True (bs i) (ms ! i)) [0..<length ms]), disabled, r))
               (release_extra (map bs [length ms..<extra]) r))))"

text \<open>The single-packet reader of the other systems; \<open>errTrunc\<close> tells an error that means truncation.\<close>

definition generic_Read ::
    "nat \<Rightarrow> buf_id \<Rightarrow> (go_error \<Rightarrow> bool) \<Rightarrow> (byte list \<times> bool \<times> addr_port) \<times> go_error option \<Rightarrow> udpRuntime
      \<Rightarrow> udpReadPacket list res \<times> udpRuntime" where
  "generic_Read limit b errTrunc result r = (case result of ((data, trunc, src), err) \<Rightarrow>
     (let errorTruncated = (case err of None \<Rightarrow> False | Some e \<Rightarrow> errTrunc e) in
      case err of
        Some e \<Rightarrow> if \<not> errorTruncated then (Inl e, putBuffer b r)
           else (Inr [\<lparr>rp_buffer = b, rp_data = data, rp_n = length data, rp_addr = src, rp_truncated = True, rp_batchSlot = False\<rparr>], r)
      | None \<Rightarrow> (Inr [read_packet limit False b (data, trunc, src)], r)))"

section \<open>Splitting into chunks\<close>

text \<open>The datagrams a super-datagram stands for: pieces of the segment size, the last one maybe shorter.\<close>

function chunks :: "nat \<Rightarrow> 'a list \<Rightarrow> 'a list list" where
  "chunks g xs = (if g = 0 \<or> xs = [] then [] else take g xs # chunks g (drop g xs))"
  by auto
termination
  by (relation "measure (\<lambda>(g, xs). length xs)") auto

declare chunks.simps [simp del]

lemma chunks_Nil [simp]: "chunks g [] = []"
  by (simp add: chunks.simps)

lemma chunks_append: "length p = g \<Longrightarrow> 0 < g \<Longrightarrow> chunks g (p @ xs) = p # chunks g xs"
  by (subst chunks.simps) auto

lemma chunks_short: "length p \<le> g \<Longrightarrow> p \<noteq> [] \<Longrightarrow> chunks g p = [p]"
  by (subst chunks.simps) (cases p, auto)

lemma concat_chunks: "0 < g \<Longrightarrow> concat (chunks g xs) = xs"
  by (induction g xs rule: chunks.induct) (subst chunks.simps, auto)

fun unif :: "nat \<Rightarrow> 'a list list \<Rightarrow> bool" where
  "unif g [] = True"
| "unif g [p] = (length p \<le> g)"
| "unif g (p # q # ps) = (length p = g \<and> unif g (q # ps))"

lemma unif_ConsD: "unif g (p # ps) \<Longrightarrow> unif g ps"
  by (cases ps) auto

lemma unif_take_drop: "unif g ps \<Longrightarrow> unif g (take k ps) \<and> unif g (drop k ps)"
proof (induction g ps arbitrary: k rule: unif.induct)
  case (2 g p)
  then show ?case by (cases k) auto
next
  case (3 g p q ps)
  then have IH: "unif g (take j (q # ps)) \<and> unif g (drop j (q # ps))" for j by simp
  show ?case
  proof (cases k)
    case (Suc j)
    then show ?thesis using IH [of j] 3(2) by (cases j) auto
  qed (use 3(2) in simp)
qed simp

lemma chunks_concat:
  assumes "0 < g" "unif g ps"
  shows "chunks g (concat ps) = filter (\<lambda>p. p \<noteq> []) ps"
  using assms
proof (induction g ps rule: unif.induct)
  case (2 g p)
  then show ?case by (cases "p = []") (auto simp: chunks_short)
next
  case (3 g p q ps)
  then have "p \<noteq> []" by auto
  then show ?case using 3 by (auto simp: chunks_append)
qed simp

section \<open>Sending\<close>

lemma gso_uniform_unif: "gso_uniform dst g ps \<Longrightarrow> unif g (map wp_buffer ps)"
  by (induction dst g ps rule: gso_uniform.induct) auto

lemma gsoEligible_unif:
  assumes "gsoEligible e batch = Some g"
  shows "unif g (map wp_buffer batch)" "0 < g" "batch \<noteq> []"
proof -
  obtain p q ps where b: "batch = p # q # ps" and u: "gso_uniform (wp_addr p) g (q # ps)" "g = length (wp_buffer p)" "0 < g"
    using assms by (cases batch; cases "tl batch") (auto simp: gsoEligible_def Let_def split: if_splits)
  with gso_uniform_unif [OF u(1)] show "unif g (map wp_buffer batch)" "0 < g" "batch \<noteq> []" by auto
qed

lemma gso_loop_datagrams:
  assumes "unif g ps" "0 < g" "gso_loop sendmsg k ps = (n, err, out)"
  shows "k \<le> n \<and> n - k \<le> length ps \<and> (err = None \<longrightarrow> n - k = length ps) \<and>
    concat (map (chunks g) out) = filter (\<lambda>p. p \<noteq> []) (take (n - k) ps)"
  using assms
proof (induction sendmsg k ps arbitrary: n err out rule: gso_loop.induct)
  case (1 sendmsg k ps)
  let ?s = "gso_pack 0 0 ps"
  show ?case
  proof (cases "ps = [] \<or> ?s = 0 \<or> sendmsg (concat (take ?s ps)) \<noteq> None")
    case True
    then show ?thesis using 1(4) by (subst (asm) gso_loop.simps) (auto simp: Let_def split: if_splits)
  next
    case False
    then obtain n' err' out' where r: "gso_loop sendmsg (k + ?s) (drop ?s ps) = (n', err', out')"
      and e: "n = n'" "err = err'" "out = concat (take ?s ps) # out'"
      using 1(4) by (subst (asm) gso_loop.simps) (auto simp: Let_def split: prod.splits)
    have le: "?s \<le> length ps" by (rule gso_pack_le)
    have u: "unif g (take ?s ps)" "unif g (drop ?s ps)" using unif_take_drop [OF 1(2)] by auto
    from 1(1) [OF _ refl _ refl _ u(2) 1(3) r] False
    have IH: "k + ?s \<le> n' \<and> n' - (k + ?s) \<le> length (drop ?s ps) \<and> (err' = None \<longrightarrow> n' - (k + ?s) = length (drop ?s ps)) \<and>
        concat (map (chunks g) out') = filter (\<lambda>p. p \<noteq> []) (take (n' - (k + ?s)) (drop ?s ps))" by auto
    then have "take (n' - k) ps = take ?s ps @ take (n' - (k + ?s)) (drop ?s ps)"
      using le by (metis add_diff_cancel_left' add_diff_inverse_nat diff_diff_left le_diff_conv2 add.commute
          not_less take_add add_leD1)
    with IH e le chunks_concat [OF 1(3) u(1)] show ?thesis by auto
  qed
qed

lemma gso_pack_replicate:
  assumes "s + k \<le> gsoMaxSegments" "t + k * length p \<le> gsoScratchBytes"
  shows "gso_pack s t (replicate k p) = k"
  using assms by (induction k arbitrary: s t) auto

lemma writeMessages_bounds:
  assumes "\<And>ms. fst (wb ms) \<le> length ms" "k \<le> length msgs"
  shows "fst (writeMessages wb msgs k) \<le> length msgs \<and> k \<le> fst (writeMessages wb msgs k)"
  using assms
proof (induction wb msgs k rule: writeMessages.induct)
  case (1 wb msgs k)
  obtain n e where w: "wb (drop k msgs) = (n, e)" by (cases "wb (drop k msgs)")
  have n: "n \<le> length msgs - k" using 1(2) [of "drop k msgs"] w by simp
  show ?case
  proof (cases "k < length msgs \<and> e = None \<and> n \<noteq> 0")
    case True
    then show ?thesis using 1(1) [OF _ w [symmetric] _ _] n w 1(2,3)
      by (subst (1 2) writeMessages.simps) fastforce
  next
    case False
    then show ?thesis using n w 1(3) by (subst (1 2) writeMessages.simps) (auto split: option.splits)
  qed
qed

section \<open>Reading\<close>

lemma chunks_nth:
  assumes "0 < g"
  shows "chunks g xs = map (\<lambda>i. take g (drop (i * g) xs)) [0..<(length xs + g - 1) div g]"
proof (induction xs rule: length_induct)
  case (1 xs)
  show ?case
  proof (cases "xs = []")
    case True
    then show ?thesis using assms by simp
  next
    case False
    then obtain m where "length xs = Suc m" by (cases xs) auto
    then have l: "(length xs + g - 1) div g = Suc ((length (drop g xs) + g - 1) div g)"
      using assms by (cases "length xs \<le> g") (auto simp: le_div_geq div_if)
    have "chunks g xs = take g xs # chunks g (drop g xs)" using assms False by (subst chunks.simps) simp
    also have "chunks g (drop g xs) = map (\<lambda>i. take g (drop (i * g) (drop g xs))) [0..<(length (drop g xs) + g - 1) div g]"
      using 1 False assms by simp
    finally show ?thesis unfolding l upt_conv_Cons [OF zero_less_Suc]
      by (simp add: map_Suc_upt [symmetric] o_def del: map_Suc_upt upt_Suc) (simp add: add.commute)
  qed
qed

lemma release_extra_effect:
  assumes "length bs \<le> slots_used r"
  shows "\<exists>r'. release_extra bs r = Some r' \<and> slots_used r = slots_used r' + length bs \<and>
    mset (rt_puts r') = mset (rt_puts r) + mset bs \<and> rt_shards r' = rt_shards r \<and> rt_metrics r' = rt_metrics r"
  using assms
proof (induction bs arbitrary: r)
  case (Cons b bs)
  obtain r1 where r1: "releaseBuffer b True r = Some r1"
    using releaseBuffer_enabled [of True r b] Cons.prems by auto
  note e = releaseBuffer_effect [OF r1]
  with Cons.IH [of r1] Cons.prems obtain r' where "release_extra bs r1 = Some r'" "slots_used r1 = slots_used r' + length bs"
    "mset (rt_puts r') = mset (rt_puts r1) + mset bs" "rt_shards r' = rt_shards r1" "rt_metrics r' = rt_metrics r1"
    by auto
  with r1 e show ?case by auto
qed simp

lemma acquire_extra_effect:
  assumes "acquire_extra k r = (n, r')"
  shows "n \<le> k \<and> slots_used r' = slots_used r + n \<and> rt_puts r' = rt_puts r \<and> rt_shards r' = rt_shards r \<and> rt_metrics r' = rt_metrics r"
  using assms
proof (induction k arbitrary: r n)
  case (Suc k)
  show ?case
  proof (cases "tryAcquireBatchBuffer r")
    case None
    then show ?thesis using Suc.prems by simp
  next
    case (Some r1)
    then have "slots_used r1 = Suc (slots_used r) \<and> rt_puts r1 = rt_puts r \<and> rt_shards r1 = rt_shards r \<and> rt_metrics r1 = rt_metrics r"
      by (auto simp: tryAcquireBatchBuffer_def chan_try_send_def slots_used_def split: option.splits if_splits)
    with Some Suc show ?thesis by (auto split: prod.splits)
  qed
qed simp

section \<open>Properties\<close>

text \<open>
  The in-place address conversion of the batch writers agrees with the standard one exactly for valid
  addresses without a zone: the scope of a link-local IPv6 destination is lost.
\<close>

theorem setUDPAddr_iff:
  "setUDPAddr ap = UDPAddrFromAddrPort ap \<longleftrightarrow> IsValid (ap_addr ap) \<and> Zone (ap_addr ap) = []"
  by (cases "ap_addr ap")
     (auto simp: setUDPAddr_def UDPAddrFromAddrPort_def AsSlice_def As4_def As16_def IsValid_def)

text \<open>
  Segmentation offload sends the datagrams of the batch: cut into segments, the super-datagrams handed
  to the kernel are the packets reported as sent, in order, the empty ones left out; without an error
  the whole batch is reported.
\<close>

theorem gso_datagrams:
  assumes "gsoEligible enabled batch = Some g" "sendUDPGSO sendmsg None batch = (n, err, out)"
  shows "n \<le> length batch \<and> (err = None \<longrightarrow> n = length batch) \<and>
    concat (map (chunks g) out) = filter (\<lambda>p. p \<noteq> []) (map wp_buffer (take n batch))"
proof -
  note u = gsoEligible_unif [OF assms(1)]
  show ?thesis
  proof (cases "sockaddr_ok (wp_addr (batch ! 0))")
    case True
    then have "gso_loop sendmsg 0 (map wp_buffer batch) = (n, err, out)"
      using assms(2) u(3) by (simp add: sendUDPGSO_def)
    from gso_loop_datagrams [OF u(1,2) this] show ?thesis by (simp add: take_map)
  next
    case False
    then show ?thesis using assms(2) u(3) by (auto simp: sendUDPGSO_def)
  qed
qed

definition sample_writes :: "byte list list \<Rightarrow> udpWritePacket list" where
  "sample_writes ps = map (\<lambda>p. \<lparr>wp_buffer = p, wp_owner = 0, wp_addr = AddrPortFrom (V4 1) 53, wp_batchSlot = False\<rparr>) ps"

theorem gso_datagrams_witness:
  "gsoEligible True (sample_writes [[1, 2], [3, 4], [5]]) = Some 2 \<and>
   sendUDPGSO (\<lambda>_. None) None (sample_writes [[1, 2], [3, 4], [5]]) = (3, None, [[1, 2, 3, 4, 5]]) \<and>
   concat (map (chunks 2) [[1, 2, 3, 4, 5 :: byte]]) = [[1, 2], [3, 4], [5]]"
proof -
  have e: "gsoEligible True (sample_writes [[1, 2], [3, 4], [5]]) = Some 2"
    by (simp add: gsoEligible_def sample_writes_def Let_def)
  have s: "sendUDPGSO (\<lambda>_. None) None (sample_writes [[1, 2], [3, 4], [5]]) = (3, None, [[1, 2, 3, 4, 5]])"
    by (simp add: sendUDPGSO_def sample_writes_def sockaddr_ok_def gso_loop.simps gsoMaxSegments_def gsoScratchBytes_def)
  from gso_datagrams [OF e s] e s show ?thesis by (simp add: sample_writes_def)
qed

definition ipv4_kernel :: "byte list \<Rightarrow> go_error option" where
  "ipv4_kernel d = (if length d > 65507 then Some (Message ''EMSGSIZE'') else None)"

definition wide_batch :: "udpWritePacket list" where
  "wide_batch = sample_writes (replicate 32 (replicate 2048 0))"

lemma sample_writes_uniform: "gso_uniform (AddrPortFrom (V4 1) 53) n (sample_writes (replicate k (replicate n 0)))"
proof (induction k)
  case (Suc k)
  then show ?case by (cases k) (auto simp: sample_writes_def)
qed (simp add: sample_writes_def)

lemma wide_batch_Cons: "wide_batch = sample_writes (replicate 2048 0 # replicate 31 (replicate 2048 0))"
  using replicate_Suc [of 31 "replicate 2048 (0 :: byte)"] unfolding wide_batch_def by simp

lemma wide_batch_buffers: "map wp_buffer wide_batch = replicate 32 (replicate 2048 0)"
  unfolding wide_batch_def sample_writes_def by (simp add: o_def del: replicate.simps replicate_Suc)

lemma wide_batch_loop: "gso_loop ipv4_kernel 0 (replicate 32 (replicate 2048 0)) = (0, Some (Message ''EMSGSIZE''), [])"
proof -
  have "gso_pack 0 0 (replicate 32 (replicate 2048 (0 :: byte))) = 32"
    by (rule gso_pack_replicate) (simp_all add: gsoMaxSegments_def gsoScratchBytes_def)
  moreover have "length (concat (replicate 32 (replicate 2048 (0 :: byte)))) = 65536"
    by (simp add: length_concat sum_list_replicate del: replicate.simps replicate_Suc)
  ultimately show ?thesis
    by (subst gso_loop.simps) (simp add: ipv4_kernel_def Let_def del: replicate.simps replicate_Suc length_concat)
qed

text \<open>
  The scratch buffer is larger than the largest UDP payload over IPv4, 65507 bytes: a batch of 32
  datagrams of 2048 bytes is packed into one super-datagram of 65536 bytes, so a kernel that takes
  every datagram up to the maximum sends none of them, although each one alone would be sent.
\<close>

theorem gso_super_datagram_too_long:
  "gsoEligible True wide_batch = Some 2048 \<and>
   sendUDPGSO ipv4_kernel None wide_batch = (0, Some (Message ''EMSGSIZE''), []) \<and>
   map (ipv4_kernel \<circ> wp_buffer) wide_batch = replicate 32 None"
proof -
  have "gsoEligible True wide_batch = Some 2048"
    unfolding wide_batch_Cons using sample_writes_uniform [of 2048 31]
    by (simp add: gsoEligible_def Let_def sample_writes_def del: replicate.simps replicate_Suc)
  moreover have "sockaddr_ok (wp_addr (wide_batch ! 0))" "wide_batch \<noteq> []"
    unfolding wide_batch_Cons by (simp_all add: sample_writes_def sockaddr_ok_def del: replicate.simps replicate_Suc)
  moreover have "map (ipv4_kernel \<circ> wp_buffer) wide_batch = map ipv4_kernel (replicate 32 (replicate 2048 0))"
    unfolding wide_batch_buffers [symmetric] by simp
  ultimately show ?thesis
    by (simp add: sendUDPGSO_def wide_batch_buffers wide_batch_loop ipv4_kernel_def del: replicate.simps replicate_Suc)
qed

lemma readGRO_split:
  assumes "0 < g" "g \<le> limit" "g < length data" "readGRO limit b copies data False src g r = (pkts, r')"
  shows "map (\<lambda>p. take (rp_n p) (rp_data p)) pkts = take groMaxSegments (chunks g data) \<and>
    (\<forall>p \<in> set pkts. rp_n p \<le> limit \<and> \<not> rp_truncated p \<and> rp_addr p = src)"
proof -
  let ?n = "length data" and ?f = "\<lambda>i. take g (drop (i * g) data)"
  define full where "full = ?n div g"
  define segs where "segs = (if ?n mod g > 0 then full + 1 else full)"
  have n: "?n = full * g + ?n mod g" by (simp add: full_def)
  have up: "(?n + g - 1) div g = segs"
  proof (cases "?n mod g = 0")
    case True
    then have e: "?n + g - 1 = (g - 1) + full * g" using n assms(1) by simp
    show ?thesis unfolding e using True assms(1) by (subst div_mult_self1) (auto simp: segs_def)
  next
    case False
    then have e: "?n + g - 1 = (?n mod g - 1) + (full + 1) * g" using n assms(1) by (simp add: algebra_simps)
    have "?n mod g - 1 < g" using assms(1) by (meson less_imp_diff_less mod_less_divisor)
    then show ?thesis unfolding e using False assms(1) by (subst div_mult_self1) (auto simp: segs_def)
  qed
  have "1 \<le> full" using assms(1,3) by (simp add: full_def div_greater_zero_iff Suc_le_eq)
  then have s2: "1 < segs" using n assms(3) by (cases "full = 1") (auto simp: segs_def)
  have "length (drop (full * g) data) = ?n mod g" "?n mod g < g" using n assms(1) by simp_all
  then have last: "take (?n mod g) (drop (full * g) data) = ?f full" by (simp add: take_all)
  have pk: "pkts = \<lparr>rp_buffer = b, rp_data = data, rp_n = g, rp_addr = src, rp_truncated = False, rp_batchSlot = False\<rparr> #
      map (\<lambda>i. let segmentLen = (if i = full then ?n mod g else g) in
          \<lparr>rp_buffer = copies i, rp_data = take segmentLen (drop (i * g) data), rp_n = segmentLen,
           rp_addr = src, rp_truncated = False, rp_batchSlot = False\<rparr>) [1..<min groMaxSegments segs]"
    using assms by (auto simp: readGRO_def Let_def full_def segs_def min_def)
  have "map (\<lambda>p. take (rp_n p) (rp_data p)) pkts = ?f 0 # map ?f [1..<min groMaxSegments segs]"
    unfolding pk using last by (auto simp: Let_def)
  also have "\<dots> = map ?f [0..<min groMaxSegments segs]"
    using s2 upt_conv_Cons [of 0 "min groMaxSegments segs"] by (simp add: groMaxSegments_def)
  also have "\<dots> = take groMaxSegments (chunks g data)"
    unfolding chunks_nth [OF assms(1)] up by (cases "groMaxSegments \<le> segs") (simp_all add: take_map min_def)
  finally show ?thesis using assms(1,2) unfolding pk
    by (auto simp: Let_def intro: order.trans [OF less_imp_le [OF mod_less_divisor]])
qed

lemma readGRO_length:
  assumes "0 < g" "g \<le> limit" "g < length data" "readGRO limit b copies data False src g r = (pkts, r')"
  shows "length pkts = min groMaxSegments ((length data + g - 1) div g)"
proof -
  have "length pkts = length (take groMaxSegments (chunks g data))"
    using readGRO_split [OF assms] by (metis length_map)
  then show ?thesis by (simp add: chunks_nth [OF assms(1)] min.commute)
qed

text \<open>
  C30. A coalesced read is split back into the datagrams: the payloads of the packets are the first 64
  pieces of the data cut at the segment size, none above the reader's limit, and all carry the sender.
\<close>

theorem gro_split:
  assumes "0 < g" "g \<le> limit" "g < length data" "readGRO limit b copies data False src g r = (pkts, r')"
  shows "map (\<lambda>p. take (rp_n p) (rp_data p)) pkts = take groMaxSegments (chunks g data) \<and>
    (\<forall>p \<in> set pkts. rp_n p \<le> limit \<and> \<not> rp_truncated p \<and> rp_addr p = src)"
  using assms by (rule readGRO_split)

theorem gro_split_witness:
  "map (\<lambda>p. take (rp_n p) (rp_data p)) (fst (readGRO 100 7 (\<lambda>i. i) [1, 2, 3, 4, 5] False (AddrPortFrom (V4 1) 9) 2 (newUDPRuntime sample_cfg 5))) =
     [[1, 2], [3, 4], [5]]"
proof -
  have c: "chunks 2 [1, 2, 3, 4, 5 :: byte] = [[1, 2], [3, 4], [5]]" by (simp add: chunks.simps)
  obtain pkts r' where "readGRO 100 7 (\<lambda>i. i) [1, 2, 3, 4, 5] False (AddrPortFrom (V4 1) 9) 2 (newUDPRuntime sample_cfg 5) = (pkts, r')"
    by (cases "readGRO 100 7 (\<lambda>i. i) [1, 2, 3, 4, 5] False (AddrPortFrom (V4 1) 9) 2 (newUDPRuntime sample_cfg 5)")
  with gro_split [OF _ _ _ this] show ?thesis by (simp add: c groMaxSegments_def)
qed

text \<open>
  C31. A coalesced read can return more packets than the batch writers have slots for: with a batch size
  below 64, a burst of more than that many segments makes the write of the packets read panic.
\<close>

theorem gro_burst_panics_writer:
  assumes "0 < g" "g \<le> limit" "batchSize < 64" "batchSize * g < length data" "g < length data"
    "readGRO limit b copies data False src g r = (pkts, r')" "length writes = length pkts"
  shows "linux_Write batchSize wb writes = None"
proof -
  have "Suc batchSize * g \<le> length data + g - 1" using assms(1,4) by simp
  then have "Suc batchSize \<le> (length data + g - 1) div g"
    using div_le_mono [of "Suc batchSize * g" "length data + g - 1" g] assms(1) by simp
  with readGRO_length [OF assms(1,2,5,6)] assms(3,7) show ?thesis by (auto simp: linux_Write_def groMaxSegments_def)
qed

theorem gro_burst_panics_writer_witness:
  "linux_Write (nat (uc_BatchSize DefaultUDPConfig)) (\<lambda>ms. (length ms, None)) (map (\<lambda>p. \<lparr>wp_buffer = take (rp_n p) (rp_data p), wp_owner = rp_buffer p,
      wp_addr = AddrPortFrom (V4 2) 53, wp_batchSlot = rp_batchSlot p\<rparr>)
     (fst (readGRO 65507 7 (\<lambda>i. i) (replicate 33 1) False (AddrPortFrom (V4 1) 9) 1 (newUDPRuntime DefaultUDPConfig 5)))) = None"
proof -
  obtain pkts r' where r: "readGRO 65507 7 (\<lambda>i. i) (replicate 33 1) False (AddrPortFrom (V4 1) 9) 1 (newUDPRuntime DefaultUDPConfig 5) = (pkts, r')"
    by fastforce
  then show ?thesis
    using gro_burst_panics_writer [OF _ _ _ _ _ r, where batchSize = 32 and wb = "\<lambda>ms. (length ms, None)"] by (simp add: DefaultUDPConfig_def)
qed

lemma release_tail:
  assumes "extra \<le> slots_used r"
  obtains r' where "release_extra (map bs [k..<extra]) r = Some r'" "slots_used r = slots_used r' + (extra - k)"
    "mset (rt_puts r') = mset (rt_puts r) + mset (map bs [k..<extra])"
proof -
  have "length (map bs [k..<extra]) \<le> slots_used r" using assms by simp
  from release_extra_effect [OF this] show ?thesis using that by (auto simp del: mset_map mset_upt)
qed

lemma read_packet_sel [simp]:
  "rp_batchSlot (read_packet limit f b m) = f" "rp_buffer (read_packet limit f b m) = b"
  by (simp_all add: read_packet_def split: prod.splits)

lemma upt_split: "k \<le> n \<Longrightarrow> [0..<n] = [0..<k] @ [k..<n]"
  using upt_add_eq_append [of 0 k "n - k"] by simp

definition conserved :: "buf_id \<Rightarrow> (nat \<Rightarrow> buf_id) \<Rightarrow> nat \<Rightarrow> udpRuntime \<Rightarrow> udpReadPacket list \<Rightarrow> udpRuntime \<Rightarrow> bool" where
  "conserved b bs used r pkts r' \<longleftrightarrow>
     slots_used r' = slots_used r + length (filter rp_batchSlot pkts) \<and>
     mset (rt_puts r') + mset (map rp_buffer pkts) = mset (rt_puts r) + {#b#} + mset (map bs [0..<used])"

text \<open>The part of \<open>readBatch\<close> after the slots have been acquired.\<close>

lemma drain_conserves:
  assumes ms: "\<And>k ms. drained k = Drained ms \<Longrightarrow> length ms \<le> k"
    and a: "acquire_extra n r = (extra, r1)"
  shows "\<exists>pkts dis r'. (case drained extra of
             DrainAgain \<Rightarrow> map_option (\<lambda>r. (Inr [read_packet limit False b m], disabled, r)) (release_extra (map bs [0..<extra]) r1)
           | DrainError \<Rightarrow> map_option (\<lambda>r. (Inr [read_packet limit False b m], True,
                 r\<lparr>rt_metrics := (rt_metrics r)\<lparr>batchFallbacks := batchFallbacks (rt_metrics r) + 1\<rparr>\<rparr>))
               (release_extra (map bs [0..<extra]) r1)
           | Drained ms \<Rightarrow> map_option (\<lambda>r. (Inr (read_packet limit False b m #
                 map (\<lambda>i. read_packet limit True (bs i) (ms ! i)) [0..<length ms]), disabled, r))
               (release_extra (map bs [length ms..<extra]) r1)) = Some (Inr pkts, dis, r') \<and>
    conserved b bs extra r pkts r'"
proof -
  note ae = acquire_extra_effect [OF a]
  then have le: "extra \<le> slots_used r1" by simp
  obtain r' where r': "release_extra (map bs [0..<extra]) r1 = Some r'" "slots_used r1 = slots_used r' + (extra - 0)"
    "mset (rt_puts r') = mset (rt_puts r1) + mset (map bs [0..<extra])" by (rule release_tail [OF le])
  show ?thesis
  proof (cases "drained extra")
    case DrainAgain
    then show ?thesis using r' ae by (simp add: conserved_def)
  next
    case DrainError
    then show ?thesis using r' ae by (simp add: conserved_def) (auto simp: slots_used_def)
  next
    case (Drained ds)
    obtain r2 where "release_extra (map bs [length ds..<extra]) r1 = Some r2" "slots_used r1 = slots_used r2 + (extra - length ds)"
      "mset (rt_puts r2) = mset (rt_puts r1) + mset (map bs [length ds..<extra])" by (rule release_tail [OF le])
    then show ?thesis using Drained ae ms [OF Drained] upt_split [OF ms [OF Drained]]
      by (auto simp: conserved_def filter_map o_def multiset.map_comp simp del: mset_upt)
  qed
qed

text \<open>
  Batched reads neither lose nor leak buffers: the batch slots taken are those of the packets returned,
  and every buffer used for the read belongs to a returned packet or went back to the pool. A read never
  blocks on giving a slot back.
\<close>

theorem readBatch_conserves:
  assumes "\<And>k ms. drained k = Drained ms \<Longrightarrow> length ms \<le> k"
  shows "\<exists>res dis r' used. readBatch limit b first bs drained disabled r = Some (res, dis, r') \<and>
    (let pkts = (case res of Inl _ \<Rightarrow> [] | Inr ps \<Rightarrow> ps) in
       slots_used r' = slots_used r + length (filter rp_batchSlot pkts) \<and>
       mset (rt_puts r') + mset (map rp_buffer pkts) = mset (rt_puts r) + {#b#} + mset (map bs [0..<used]))"
proof (cases first)
  case (Inl e)
  then show ?thesis by (intro exI [of _ "Inl e"] exI [of _ disabled] exI [of _ "putBuffer b r"] exI [of _ 0])
    (simp add: readBatch_def putBuffer_def slots_used_def)
next
  case (Inr m)
  obtain extra r1 where a: "acquire_extra (nat (uc_BatchSize (rt_config r)) - 1) r = (extra, r1)"
    by (cases "acquire_extra (nat (uc_BatchSize (rt_config r)) - 1) r")
  let ?skip = "uc_BatchSize (rt_config r) = 1 \<or> disabled"
  show ?thesis
  proof (cases "?skip \<or> extra = 0")
    case True
    then show ?thesis using Inr a acquire_extra_effect [OF a]
      by (intro exI [of _ "Inr [read_packet limit False b m]"] exI [of _ disabled] exI [of _ "if ?skip then r else r1"] exI [of _ 0])
         (auto simp: readBatch_def Let_def)
  next
    case False
    with drain_conserves [where drained = drained and limit = limit and b = b and m = m and disabled = disabled and bs = bs, OF assms a] Inr a obtain pkts dis r' where
      "readBatch limit b first bs drained disabled r = Some (Inr pkts, dis, r')" "conserved b bs extra r pkts r'"
      by (auto simp: readBatch_def Let_def)
    then show ?thesis by (auto simp: conserved_def Let_def simp del: mset_map mset_upt)
  qed
qed

theorem readBatch_conserves_witness:
  "\<exists>res dis r' used. readBatch 100 7 (Inr ([1], False, AddrPortFrom (V4 1) 9)) (\<lambda>i. i) (\<lambda>_. DrainAgain) False (newUDPRuntime sample_cfg 5) =
      Some (res, dis, r') \<and>
    (let pkts = (case res of Inl _ \<Rightarrow> [] | Inr ps \<Rightarrow> ps) in
       slots_used r' = slots_used (newUDPRuntime sample_cfg 5) + length (filter rp_batchSlot pkts) \<and>
       mset (rt_puts r') + mset (map rp_buffer pkts) = mset (rt_puts (newUDPRuntime sample_cfg 5)) + {#7#} + mset (map (\<lambda>i. i) [0..<used]))"
  by (rule readBatch_conserves) simp

end
