(* ===== verification/UdpRelay.thy ===== *)
theory UdpRelay
  imports UdpIo
begin

text \<open>
  Model of the UDP relay of \<open>internal/server/socks/server.go\<close>: the checks and routing of a client packet
  (\<open>processInbound\<close>), the two pumps of an association, and the preparation of a response. One call of a pump
  is a function on the state of the association and of the shared runtime; \<open>None\<close> means that it blocks for
  ever on giving a batch slot back.
\<close>

section \<open>Definitions\<close>

subsection \<open>Checks and routing\<close>

definition isAuthorized :: "addr_port \<Rightarrow> addr \<Rightarrow> bool" where
  "isAuthorized src expected =
     (let srcIP = ap_addr src; expIP = expected in
      if srcIP = expIP then True
      else if Is4In6 srcIP \<and> Is4 expIP \<and> Unmap srcIP = expIP then True
      else if Is4 srcIP \<and> Is4In6 expIP \<and> Unmap expIP = srcIP then True
      else False)"

text \<open>\<open>lookup\<close> is \<open>connect.LookupCachedHost\<close> at the time of the call.\<close>

fun first_family :: "bool \<Rightarrow> bool \<Rightarrow> bool \<Rightarrow> u16 \<Rightarrow> addr list \<Rightarrow> addr_port option" where
  "first_family preferredV4 hasFallback fallbackV4 port [] = None"
| "first_family preferredV4 hasFallback fallbackV4 port (a # as) =
     (let unmapped = Unmap a in
      if preferredV4 = Is4 unmapped \<or> (hasFallback \<and> fallbackV4 = Is4 unmapped)
      then Some (AddrPortFrom unmapped port)
      else first_family preferredV4 hasFallback fallbackV4 port as)"

definition cachedTargetForFamily ::
    "(gostring \<Rightarrow> addr list option) \<Rightarrow> gostring \<Rightarrow> u16 \<Rightarrow> bool \<Rightarrow> bool \<Rightarrow> bool \<Rightarrow> addr_port option" where
  "cachedTargetForFamily lookup domain port preferredV4 hasFallback fallbackV4 = (case lookup domain of
      None \<Rightarrow> None
    | Some addrs \<Rightarrow> first_family preferredV4 hasFallback fallbackV4 port addrs)"

text \<open>The address a relay packet is authorized for, from the request and the control connection's peer.\<close>

definition authorized_ip :: "Address \<Rightarrow> addr_port \<Rightarrow> addr" where
  "authorized_ip address peer = (case aSocket address of
      Some ap \<Rightarrow> if \<not> IsUnspecified (ap_addr ap) then ap_addr ap
                 else if IsValid (ap_addr peer) then ap_addr peer else IPv4Unspecified
    | None \<Rightarrow> if IsValid (ap_addr peer) then ap_addr peer else IPv4Unspecified)"

subsection \<open>The request direction\<close>

record relay_env =
  en_associationID :: u64
  en_srcIP :: addr
  en_preferredV4 :: bool
  en_hasFallback :: bool
  en_fallbackV4 :: bool
  en_gso :: bool
  en_gomaxprocs :: int

record relay =
  rl_rt :: udpRuntime
  rl_preferredBatch :: "udpWritePacket list"
  rl_fallbackBatch :: "udpWritePacket list"
  rl_srcPort :: u32
  rl_batchInPackets :: u64
  rl_batchInBytes :: u64
  rl_errCh :: "go_error list"
  rl_lastActivity :: int

definition upd_metrics :: "(udpMetrics \<Rightarrow> udpMetrics) \<Rightarrow> udpRuntime \<Rightarrow> udpRuntime" where
  "upd_metrics f r = r\<lparr>rt_metrics := f (rt_metrics r)\<rparr>"

definition drop_packet :: "(udpMetrics \<Rightarrow> udpMetrics) \<Rightarrow> buf_id \<Rightarrow> bool \<Rightarrow> relay \<Rightarrow> (bool \<times> relay) option" where
  "drop_packet f b bslot st =
     map_option (\<lambda>r. (False, st\<lparr>rl_rt := r\<rparr>)) (releaseBuffer b bslot (upd_metrics f (rl_rt st)))"

definition queue_write :: "relay_env \<Rightarrow> addr_port \<Rightarrow> inboundPacket \<Rightarrow> relay \<Rightarrow> relay" where
  "queue_write en target pkt st =
     (let w = \<lparr>wp_buffer = ip_payload pkt, wp_owner = ip_buffer pkt, wp_addr = target, wp_batchSlot = ip_batchSlot pkt\<rparr>
      in if en_preferredV4 en \<noteq> Is4 (ap_addr target) \<and> en_hasFallback en \<and> en_fallbackV4 en = Is4 (ap_addr target)
         then st\<lparr>rl_fallbackBatch := rl_fallbackBatch st @ [w]\<rparr>
         else st\<lparr>rl_preferredBatch := rl_preferredBatch st @ [w]\<rparr>)"

definition processInbound ::
    "relay_env \<Rightarrow> (gostring \<Rightarrow> addr list option) \<Rightarrow> bool \<Rightarrow> inboundPacket \<Rightarrow> relay \<Rightarrow> (bool \<times> relay) option" where
  "processInbound en lookup lifetimeErr pkt st =
     (if ip_frag pkt \<noteq> 0 then
        drop_packet (\<lambda>m. m\<lparr>fragmentDrops := fragmentDrops m + 1\<rparr>) (ip_buffer pkt) (ip_batchSlot pkt) st
      else if \<not> isAuthorized (ip_src pkt) (en_srcIP en) then
        drop_packet (\<lambda>m. m\<lparr>unauthorizedDrops := unauthorizedDrops m + 1\<rparr>) (ip_buffer pkt) (ip_batchSlot pkt) st
      else
        (let st = st\<lparr>rl_srcPort := ucast (ap_port (ip_src pkt)), rl_batchInPackets := rl_batchInPackets st + 1,
                    rl_batchInBytes := rl_batchInBytes st + of_nat (length (ip_payload pkt))\<rparr>
         in case aSocket (ip_dst pkt) of
              Some ap \<Rightarrow> Some (True, queue_write en (AddrPortFrom (Unmap (ap_addr ap)) (ap_port ap)) pkt st)
            | None \<Rightarrow>
               (case cachedTargetForFamily lookup (aDomain (ip_dst pkt)) (aPort (ip_dst pkt))
                       (en_preferredV4 en) (en_hasFallback en) (en_fallbackV4 en) of
                  Some target \<Rightarrow> Some (True, queue_write en target pkt st)
                | None \<Rightarrow>
                   (case dispatch (en_gomaxprocs en) lifetimeErr
                           \<lparr>sj_associationID = en_associationID en, sj_packet = pkt,
                            sj_target = FromHost (aDomain (ip_dst pkt)) (aPort (ip_dst pkt))\<rparr> (rl_rt st) of
                      (True, r) \<Rightarrow> Some (True, st\<lparr>rl_rt := r\<rparr>)
                    | (False, r) \<Rightarrow> map_option (\<lambda>r. (True, st\<lparr>rl_rt := r\<rparr>)) (releaseInboundPacket pkt r)))))"

text \<open>The body of the loop of \<open>inboundPump\<close>.\<close>

definition inbound_packet ::
    "relay_env \<Rightarrow> (gostring \<Rightarrow> addr list option) \<Rightarrow> (buf_id \<Rightarrow> bool) \<Rightarrow> udpReadPacket \<Rightarrow> relay \<Rightarrow> (bool \<times> relay) option" where
  "inbound_packet en lookup lifetimeErr p st =
     (if rp_truncated p then
        drop_packet (\<lambda>m. m\<lparr>truncatedDrops := truncatedDrops m + 1\<rparr>) (rp_buffer p) (rp_batchSlot p) st
      else case ParseUdpHeader (take (rp_n p) (rp_data p)) of
          Inl _ \<Rightarrow> drop_packet (\<lambda>m. m\<lparr>malformedDrops := malformedDrops m + 1\<rparr>) (rp_buffer p) (rp_batchSlot p) st
        | Inr (hdr, hlen) \<Rightarrow>
            processInbound en lookup (lifetimeErr (rp_buffer p))
              \<lparr>ip_payload = drop hlen (take (rp_n p) (rp_data p)), ip_buffer = rp_buffer p, ip_frag = uFrag hdr,
               ip_dst = uAddress hdr, ip_src = rp_addr p, ip_batchSlot = rp_batchSlot p\<rparr> st)"

fun inbound_packets ::
    "relay_env \<Rightarrow> (gostring \<Rightarrow> addr list option) \<Rightarrow> (buf_id \<Rightarrow> bool) \<Rightarrow> udpReadPacket list \<Rightarrow> bool \<Rightarrow> relay \<Rightarrow> (bool \<times> relay) option" where
  "inbound_packets en lookup lifetimeErr [] active st = Some (active, st)"
| "inbound_packets en lookup lifetimeErr (p # ps) active st = (case inbound_packet en lookup lifetimeErr p st of
      None \<Rightarrow> None
    | Some (a, st) \<Rightarrow> inbound_packets en lookup lifetimeErr ps (active \<or> a) st)"

fun release_writes :: "udpWritePacket list \<Rightarrow> udpRuntime \<Rightarrow> udpRuntime option" where
  "release_writes [] r = Some r"
| "release_writes (w # ws) r = Option.bind (releaseBuffer (wp_owner w) (wp_batchSlot w) r) (release_writes ws)"

text \<open>
  The error accounting after a write of \<open>total\<close> packets. \<open>flushBatch\<close> is given the results of the batch writer and
  of the offloaded send.
\<close>

definition write_result :: "nat \<times> go_error option \<Rightarrow> nat \<Rightarrow> go_error list \<Rightarrow> udpRuntime \<Rightarrow> go_error list \<times> udpRuntime" where
  "write_result res tot errCh r = (case res of (written, writeErr) \<Rightarrow>
     if writeErr \<noteq> None \<or> written \<noteq> tot
     then (reportUDPError errCh (case writeErr of None \<Rightarrow> ShortWrite | Some e \<Rightarrow> e),
           upd_metrics (\<lambda>m. m\<lparr>metric_errors := metric_errors m + 1\<rparr>) r)
     else (errCh, r))"

definition flushBatch ::
    "bool \<Rightarrow> (udpWritePacket list \<Rightarrow> nat \<times> go_error option) \<Rightarrow> (udpWritePacket list \<Rightarrow> nat \<Rightarrow> nat \<times> go_error option)
      \<Rightarrow> udpWritePacket list \<Rightarrow> go_error list \<Rightarrow> udpRuntime \<Rightarrow> (go_error list \<times> udpRuntime) option" where
  "flushBatch gsoEnabled writer gso batch errCh r =
     (if length batch = 0 then Some (errCh, r)
      else let res = (case gsoEligible gsoEnabled batch of Some sz \<Rightarrow> gso batch sz | None \<Rightarrow> writer batch)
           in map_option (write_result res (length batch) errCh) (release_writes batch r))"

text \<open>One call of \<open>inboundPump\<close>; the writers' first argument tells the preferred socket from the fallback.\<close>

definition inboundPump ::
    "relay_env \<Rightarrow> (gostring \<Rightarrow> addr list option) \<Rightarrow> (buf_id \<Rightarrow> bool) \<Rightarrow> (bool \<Rightarrow> udpWritePacket list \<Rightarrow> nat \<times> go_error option)
      \<Rightarrow> (bool \<Rightarrow> udpWritePacket list \<Rightarrow> nat \<Rightarrow> nat \<times> go_error option) \<Rightarrow> bool \<Rightarrow> int \<Rightarrow> udpReadPacket list res \<Rightarrow> relay \<Rightarrow> (bool \<times> relay) option" where
  "inboundPump en lookup lifetimeErr writer gso ctxErr now read st = (case read of
      Inl e \<Rightarrow>
        if \<not> ctxErr \<and> e \<noteq> NetErrClosed
        then Some (False, st\<lparr>rl_rt := upd_metrics (\<lambda>m. m\<lparr>metric_errors := metric_errors m + 1\<rparr>) (rl_rt st),
                             rl_errCh := reportUDPError (rl_errCh st) e\<rparr>)
        else Some (False, st)
    | Inr packets \<Rightarrow>
       Option.bind (inbound_packets en lookup lifetimeErr packets False (st\<lparr>rl_batchInPackets := 0, rl_batchInBytes := 0\<rparr>))
         (\<lambda>(active, st).
           let r = (if rl_batchInPackets st > 0
                    then upd_metrics (\<lambda>m. m\<lparr>inPackets := inPackets m + rl_batchInPackets st, inBytes := inBytes m + rl_batchInBytes st\<rparr>) (rl_rt st)
                    else rl_rt st)
           in Option.bind (flushBatch (en_gso en) (writer True) (gso True) (rl_preferredBatch st) (rl_errCh st) r) (\<lambda>(errCh, r).
              Option.bind (if en_hasFallback en then flushBatch (en_gso en) (writer False) (gso False) (rl_fallbackBatch st) errCh r
                           else Some (errCh, r)) (\<lambda>(errCh, r).
              Some (True, st\<lparr>rl_rt := r, rl_errCh := errCh, rl_preferredBatch := [],
                     rl_fallbackBatch := (if en_hasFallback en then [] else rl_fallbackBatch st),
                     rl_lastActivity := (if active then now else rl_lastActivity st)\<rparr>)))))"

subsection \<open>The response direction\<close>

text \<open>
  \<open>prepareUDPResponse\<close> writes the header in front of the payload, into the buffer that holds it.
\<close>

definition response_header :: "addr_port \<Rightarrow> byte list" where
  "response_header remote =
     (if Is4 (ap_addr remote) then [0, 0, 0, AddrIPv4] @ As4 (ap_addr remote) @ be_bytes 2 (ap_port remote)
      else [0, 0, 0, AddrIPv6] @ As16 (ap_addr remote) @ be_bytes 2 (ap_port remote))"

definition prepareUDPResponse :: "byte list \<Rightarrow> byte list \<Rightarrow> udp_addr \<Rightarrow> byte list" where
  "prepareUDPResponse buffer payload remoteAddr =
     (if length buffer \<ge> UdpHeaderMaxLen + length payload then
        (let remote = UDPAddr_AddrPort remoteAddr;
             remote = AddrPortFrom (Unmap (ap_addr remote)) (ap_port remote);
             headerLength = (if Is4 (ap_addr remote) then 3 + 1 + 4 + 2 else 3 + 1 + 16 + 2);
             start = UdpHeaderMaxLen - headerLength;
             buffer = take start buffer @ response_header remote @ drop UdpHeaderMaxLen buffer
         in take (UdpHeaderMaxLen + length payload - start) (drop start buffer))
      else BuildUdpPacket 0 (SocketAddress (UDPAddr_AddrPort remoteAddr)) payload)"

definition maxUDPResponseHeaderLen :: nat where
  "maxUDPResponseHeaderLen = 3 + 1 + 16 + 2"

text \<open>
  State of a responder. The buffer of a packet read has the header room in front of the data;
  its content is whatever the pool's buffer held.
\<close>

record responder =
  re_rt :: udpRuntime
  re_errCh :: "go_error list"
  re_lastActivity :: int

definition pump_packet :: "(buf_id \<Rightarrow> byte list) \<Rightarrow> addr_port \<Rightarrow> udpReadPacket \<Rightarrow> udpRuntime \<Rightarrow> (udpWritePacket option \<times> udpRuntime) option" where
  "pump_packet room clientAddr p r =
     (if rp_truncated p then
        map_option (\<lambda>r. (None, r)) (releaseBuffer (rp_buffer p) (rp_batchSlot p)
          (upd_metrics (\<lambda>m. m\<lparr>truncatedDrops := truncatedDrops m + 1\<rparr>) r))
      else if ap_port clientAddr = 0 then
        map_option (\<lambda>r. (None, r)) (releaseBuffer (rp_buffer p) (rp_batchSlot p) r)
      else
        (let buffer = room (rp_buffer p) @ rp_data p;
             payload = take (rp_n p) (drop UdpHeaderMaxLen buffer);
             response = prepareUDPResponse buffer payload (UDPAddrFromAddrPort (rp_addr p))
         in Some (Some \<lparr>wp_buffer = response, wp_owner = rp_buffer p, wp_addr = clientAddr, wp_batchSlot = rp_batchSlot p\<rparr>, r)))"

fun pump_packets :: "(buf_id \<Rightarrow> byte list) \<Rightarrow> addr_port \<Rightarrow> udpReadPacket list \<Rightarrow> udpRuntime \<Rightarrow> ((udpWritePacket \<times> nat) list \<times> udpRuntime) option" where
  "pump_packets room clientAddr [] r = Some ([], r)"
| "pump_packets room clientAddr (p # ps) r = Option.bind (pump_packet room clientAddr p r) (\<lambda>(w, r).
     map_option (\<lambda>(ws, r). ((case w of None \<Rightarrow> [] | Some w \<Rightarrow> [(w, rp_n p)]) @ ws, r)) (pump_packets room clientAddr ps r))"

definition pumpOnce ::
    "(buf_id \<Rightarrow> byte list) \<Rightarrow> addr \<Rightarrow> u32 \<Rightarrow> (udpWritePacket list \<Rightarrow> nat \<times> go_error option) \<Rightarrow> bool \<Rightarrow> int \<Rightarrow> udpReadPacket list res
      \<Rightarrow> responder \<Rightarrow> (bool \<times> responder) option" where
  "pumpOnce room clientIP clientPort writer ctxErr now read s = (case read of
      Inl e \<Rightarrow>
        if \<not> ctxErr \<and> e \<noteq> NetErrClosed
        then Some (False, s\<lparr>re_rt := upd_metrics (\<lambda>m. m\<lparr>metric_errors := metric_errors m + 1\<rparr>) (re_rt s),
                            re_errCh := reportUDPError (re_errCh s) e\<rparr>)
        else Some (False, s)
    | Inr packets \<Rightarrow>
       Option.bind (pump_packets room (AddrPortFrom clientIP (ucast clientPort)) packets (re_rt s)) (\<lambda>(writes, r).
         let res = writer (map fst writes); written = fst res;
             outPs = min written (length writes);
             outBs = sum_list (map snd (take written writes))
         in Option.bind (release_writes (map fst writes) r) (\<lambda>r.
           let r = (if outPs > 0
                    then upd_metrics (\<lambda>m. m\<lparr>outPackets := outPackets m + of_nat outPs, outBytes := outBytes m + of_nat outBs\<rparr>) r
                    else r);
               (errCh, r) = write_result res (length writes) (re_errCh s) r
           in Some (True, \<lparr>re_rt = r, re_errCh = errCh,
                 re_lastActivity = (if written > 0 then now else re_lastActivity s)\<rparr>))))"

section \<open>Buffers and slots\<close>

text \<open>The buffers and the batch slots that the jobs in the queues hold, and those of read and write packets.\<close>

definition queued :: "udpRuntime \<Rightarrow> buf_id multiset" where
  "queued r = sum_list (map (\<lambda>sh. mset (map (ip_buffer \<circ> sj_packet) (jobs_of sh))) (rt_shards r))"

definition wslots :: "udpWritePacket list \<Rightarrow> nat" where
  "wslots ws = sum_list (map (\<lambda>w. if wp_batchSlot w then 1 else 0) ws)"

definition rslots :: "udpReadPacket list \<Rightarrow> nat" where
  "rslots ps = sum_list (map (\<lambda>p. if rp_batchSlot p then 1 else 0) ps)"

text \<open>The packets the counters account for.\<close>

definition acct :: "udpMetrics \<Rightarrow> u64" where
  "acct m = inPackets m + fragmentDrops m + unauthorizedDrops m + malformedDrops m + truncatedDrops m"

definition keeps_rest :: "udpRuntime \<Rightarrow> udpRuntime \<Rightarrow> bool" where
  "keeps_rest r r' \<longleftrightarrow> rt_config r' = rt_config r \<and> slots_used r' = slots_used r \<and> rt_puts r' = rt_puts r"

lemma startDispatcher_empty:
  assumes "1 \<le> g" "cfg_ok (rt_config r)" "rt_shards r = []"
  shows "rt_shards (startDispatcher g r) \<noteq> [] \<and> keeps_rest r (startDispatcher g r) \<and>
    queued (startDispatcher g r) = queued r \<and> shard_total slots_of (startDispatcher g r) = shard_total slots_of r \<and>
    rt_metrics (startDispatcher g r) = rt_metrics r"
proof -
  note st = startDispatcher_shards [OF assms(1), of r]
  have "jobs_of sh = []" if "sh \<in> set (rt_shards (startDispatcher g r))" for sh
    using st(4) [OF _ _ that] assms(2) by (simp add: jobs_of_def cfg_ok_def)
  then have "queued (startDispatcher g r) = {#}" "shard_total slots_of (startDispatcher g r) = 0"
    by (simp_all add: queued_def shard_total_def slots_of_def sum_list_0 cong: map_cong)
  moreover have "rt_shards (startDispatcher g r) \<noteq> []"
    using st(2,3) assms(2) by (metis cfg_ok_def length_greater_0_conv)
  ultimately show ?thesis using assms(3)
    by (simp add: queued_def shard_total_def keeps_rest_def startDispatcher_def Let_def slots_used_def)
qed

lemma dispatch_effect:
  assumes "1 \<le> g" "cfg_ok (rt_config r)" "dispatch g err job r = (ok, r')"
  shows "keeps_rest r r' \<and>
    queued r' = queued r + (if ok then {#ip_buffer (sj_packet job)#} else {#}) \<and>
    shard_total slots_of r' = shard_total slots_of r + (if ok then slot (sj_packet job) else 0) \<and>
    acct (rt_metrics r') = acct (rt_metrics r)"
proof (cases err)
  case True
  then show ?thesis using assms(3) by (auto simp: dispatch_def keeps_rest_def)
next
  case False
  define r1 where "r1 = (if rt_shards r = [] then startDispatcher g r else r)"
  have r1: "rt_shards r1 \<noteq> []" "keeps_rest r r1" "queued r1 = queued r" "shard_total slots_of r1 = shard_total slots_of r"
    "rt_metrics r1 = rt_metrics r"
    using startDispatcher_empty [OF assms(1,2)] by (auto simp: r1_def keeps_rest_def)
  let ?i = "shard_of r1 (sj_associationID job)"
  let ?sh = "rt_shards r1 ! ?i"
  let ?sh' = "?sh\<lparr>sh_queue := sh_queue ?sh @ [job]\<rparr>"
  have i: "?i < length (rt_shards r1)" using r1(1) by (simp add: shard_of_def)
  have q: "sum_list (map (\<lambda>sh. mset (map (ip_buffer \<circ> sj_packet) (jobs_of sh))) ((rt_shards r1)[?i := ?sh'])) =
      queued r1 + {#ip_buffer (sj_packet job)#}"
    using sum_list_map_update [OF i, of "\<lambda>sh. mset (map (ip_buffer \<circ> sj_packet) (jobs_of sh))" ?sh']
    by (simp add: queued_def jobs_of_def)
  have t: "sum_list (map slots_of ((rt_shards r1)[?i := ?sh'])) = shard_total slots_of r1 + slot (sj_packet job)"
    using sum_list_map_update [OF i, of slots_of ?sh'] by (simp add: shard_total_def slots_of_def jobs_of_def)
  have "dispatch g err job r =
    (if length (sh_queue ?sh) < sh_cap ?sh
     then (True, r1\<lparr>rt_shards := (rt_shards r1)[?i := ?sh'], rt_metrics := (rt_metrics r1)\<lparr>queueDepth := queueDepth (rt_metrics r1) + 1\<rparr>\<rparr>)
     else (False, r1\<lparr>rt_metrics := (rt_metrics r1)\<lparr>queueDrops := queueDrops (rt_metrics r1) + 1\<rparr>\<rparr>))"
    using False by (simp add: dispatch_def r1_def Let_def)
  then show ?thesis using assms(3) r1 q t
    by (auto simp: keeps_rest_def queued_def [of r'] shard_total_def [of _ r'] acct_def slots_used_def
        split: if_splits) (auto simp: queued_def shard_total_def)
qed

definition bal :: "relay \<Rightarrow> buf_id multiset" where
  "bal st = mset (rt_puts (rl_rt st)) + queued (rl_rt st) + mset (map wp_owner (rl_preferredBatch st @ rl_fallbackBatch st))"

definition held :: "relay \<Rightarrow> nat" where
  "held st = shard_total slots_of (rl_rt st) + wslots (rl_preferredBatch st @ rl_fallbackBatch st)"

definition seen :: "relay \<Rightarrow> u64" where
  "seen st = acct (rt_metrics (rl_rt st)) + rl_batchInPackets st"

text \<open>What handling one packet, with buffer \<open>b\<close> and maybe a slot, does.\<close>

definition handled :: "relay \<Rightarrow> buf_id \<Rightarrow> bool \<Rightarrow> relay \<Rightarrow> bool" where
  "handled st b bslot st' \<longleftrightarrow> bal st' = bal st + {#b#} \<and>
     slots_used (rl_rt st') + held st + (if bslot then 1 else 0) = slots_used (rl_rt st) + held st' \<and>
     rt_config (rl_rt st') = rt_config (rl_rt st) \<and> seen st' = seen st + 1"

lemma release_handled:
  assumes "releaseBuffer b bslot r = Some r'"
  shows "mset (rt_puts r') = mset (rt_puts r) + {#b#}" "queued r' = queued r" "shard_total slots_of r' = shard_total slots_of r"
    "rt_config r' = rt_config r" "acct (rt_metrics r') = acct (rt_metrics r)"
    "slots_used r = slots_used r' + (if bslot then 1 else 0)"
  using releaseBuffer_effect [OF assms] by (simp_all add: queued_def shard_total_def same_assoc_def)

lemma upd_metrics_simps [simp]:
  "rt_puts (upd_metrics f r) = rt_puts r" "queued (upd_metrics f r) = queued r" "shard_total g (upd_metrics f r) = shard_total g r"
  "rt_config (upd_metrics f r) = rt_config r" "slots_used (upd_metrics f r) = slots_used r"
  "rt_metrics (upd_metrics f r) = f (rt_metrics r)" "rt_shards (upd_metrics f r) = rt_shards r"
  "rt_batchSlots (upd_metrics f r) = rt_batchSlots r"
  by (simp_all add: upd_metrics_def queued_def shard_total_def slots_used_def)

lemma drop_packet_handled:
  assumes "\<And>m. acct (f m) = acct m + 1" "(if bslot then 1 else 0) \<le> slots_used (rl_rt st)"
  shows "\<exists>st'. drop_packet f b bslot st = Some (False, st') \<and> handled st b bslot st'"
proof -
  obtain r' where r': "releaseBuffer b bslot (upd_metrics f (rl_rt st)) = Some r'"
    using releaseBuffer_enabled [of bslot "upd_metrics f (rl_rt st)" b] assms(2) by auto
  note e = release_handled [OF r']
  show ?thesis using r' e assms(1)
    by (auto simp: drop_packet_def handled_def bal_def held_def seen_def)
qed

lemma queue_write_handled:
  "handled st (ip_buffer pkt) (ip_batchSlot pkt)
     (queue_write en target pkt (st\<lparr>rl_srcPort := sp, rl_batchInPackets := rl_batchInPackets st + 1, rl_batchInBytes := n\<rparr>))"
  by (simp add: queue_write_def Let_def handled_def bal_def held_def seen_def wslots_def)

lemma processInbound_handled:
  assumes "1 \<le> en_gomaxprocs en" "cfg_ok (rt_config (rl_rt st))" "slot pkt \<le> slots_used (rl_rt st)"
  shows "\<exists>a st'. processInbound en lookup err pkt st = Some (a, st') \<and> handled st (ip_buffer pkt) (ip_batchSlot pkt) st'"
proof -
  have sl: "(if ip_batchSlot pkt then 1 else 0) \<le> slots_used (rl_rt st)" using assms(3) by (simp add: slot_def)
  let ?t = "cachedTargetForFamily lookup (aDomain (ip_dst pkt)) (aPort (ip_dst pkt)) (en_preferredV4 en) (en_hasFallback en) (en_fallbackV4 en)"
  consider (frag) "ip_frag pkt \<noteq> 0" | (auth) "ip_frag pkt = 0" "\<not> isAuthorized (ip_src pkt) (en_srcIP en)"
    | (direct) "ip_frag pkt = 0" "isAuthorized (ip_src pkt) (en_srcIP en)" "aSocket (ip_dst pkt) \<noteq> None \<or> ?t \<noteq> None"
    | (job) "ip_frag pkt = 0" "isAuthorized (ip_src pkt) (en_srcIP en)" "aSocket (ip_dst pkt) = None" "?t = None" by blast
  then show ?thesis
  proof cases
    case frag
    then show ?thesis using drop_packet_handled [OF _ sl, where f = "\<lambda>m. m\<lparr>fragmentDrops := fragmentDrops m + 1\<rparr>" and b = "ip_buffer pkt"]
      by (auto simp: processInbound_def acct_def)
  next
    case auth
    then show ?thesis using drop_packet_handled [OF _ sl, where f = "\<lambda>m. m\<lparr>unauthorizedDrops := unauthorizedDrops m + 1\<rparr>" and b = "ip_buffer pkt"]
      by (auto simp: processInbound_def acct_def)
  next
    case direct
    then show ?thesis using queue_write_handled [of st pkt]
      by (auto simp: processInbound_def Let_def split: option.splits)
  next
    case job
    let ?st = "st\<lparr>rl_srcPort := ucast (ap_port (ip_src pkt)), rl_batchInPackets := rl_batchInPackets st + 1,
        rl_batchInBytes := rl_batchInBytes st + of_nat (length (ip_payload pkt))\<rparr>"
    let ?job = "\<lparr>sj_associationID = en_associationID en, sj_packet = pkt, sj_target = FromHost (aDomain (ip_dst pkt)) (aPort (ip_dst pkt))\<rparr>"
    obtain ok r where d: "dispatch (en_gomaxprocs en) err ?job (rl_rt st) = (ok, r)"
      by (cases "dispatch (en_gomaxprocs en) err ?job (rl_rt st)")
    note e = dispatch_effect [OF assms(1,2) d]
    show ?thesis
    proof (cases ok)
      case True
      then have "processInbound en lookup err pkt st = Some (True, ?st\<lparr>rl_rt := r\<rparr>)"
        using job d by (simp add: processInbound_def Let_def)
      moreover have "handled st (ip_buffer pkt) (ip_batchSlot pkt) (?st\<lparr>rl_rt := r\<rparr>)"
        using e True by (simp add: handled_def bal_def held_def seen_def keeps_rest_def slot_def)
      ultimately show ?thesis by blast
    next
      case False
      have "slot pkt \<le> slots_used r" using e assms(3) by (simp add: keeps_rest_def)
      then obtain r' where r': "releaseBuffer (ip_buffer pkt) (ip_batchSlot pkt) r = Some r'"
        using releaseBuffer_enabled [of "ip_batchSlot pkt" r "ip_buffer pkt"] by (auto simp: slot_def)
      then have "processInbound en lookup err pkt st = Some (True, ?st\<lparr>rl_rt := r'\<rparr>)"
        using job d False by (simp add: processInbound_def Let_def releaseInboundPacket_def)
      moreover have "handled st (ip_buffer pkt) (ip_batchSlot pkt) (?st\<lparr>rl_rt := r'\<rparr>)"
        using e False release_handled [OF r'] by (simp add: handled_def bal_def held_def seen_def keeps_rest_def)
      ultimately show ?thesis by blast
    qed
  qed
qed

lemma inbound_packet_handled:
  assumes "1 \<le> en_gomaxprocs en" "cfg_ok (rt_config (rl_rt st))" "(if rp_batchSlot p then 1 else 0) \<le> slots_used (rl_rt st)"
  shows "\<exists>a st'. inbound_packet en lookup err p st = Some (a, st') \<and> handled st (rp_buffer p) (rp_batchSlot p) st'"
proof (cases "rp_truncated p")
  case True
  then show ?thesis
    using drop_packet_handled [OF _ assms(3), where f = "\<lambda>m. m\<lparr>truncatedDrops := truncatedDrops m + 1\<rparr>" and b = "rp_buffer p"]
    by (auto simp: inbound_packet_def acct_def)
next
  case False
  show ?thesis
  proof (cases "ParseUdpHeader (take (rp_n p) (rp_data p))")
    case (Inl e)
    then show ?thesis using False
      drop_packet_handled [OF _ assms(3), where f = "\<lambda>m. m\<lparr>malformedDrops := malformedDrops m + 1\<rparr>" and b = "rp_buffer p"]
      by (auto simp: inbound_packet_def acct_def)
  next
    case (Inr h)
    obtain hdr hlen where h: "h = (hdr, hlen)" by (cases h)
    let ?pkt = "\<lparr>ip_payload = drop hlen (take (rp_n p) (rp_data p)), ip_buffer = rp_buffer p, ip_frag = uFrag hdr,
               ip_dst = uAddress hdr, ip_src = rp_addr p, ip_batchSlot = rp_batchSlot p\<rparr>"
    from processInbound_handled [OF assms(1,2), of ?pkt lookup "err (rp_buffer p)"] assms(3) Inr h False show ?thesis
      by (simp add: inbound_packet_def slot_def)
  qed
qed

lemma inbound_packets_handled:
  assumes "1 \<le> en_gomaxprocs en" "cfg_ok (rt_config (rl_rt st))" "slots_used (rl_rt st) = c + held st + rslots ps"
  shows "\<exists>a st'. inbound_packets en lookup err ps active st = Some (a, st') \<and>
    bal st' = bal st + mset (map rp_buffer ps) \<and> slots_used (rl_rt st') = c + held st' \<and>
    rt_config (rl_rt st') = rt_config (rl_rt st) \<and> seen st' = seen st + of_nat (length ps)"
  using assms
proof (induction ps arbitrary: active st)
  case (Cons p ps)
  have "(if rp_batchSlot p then 1 else 0) \<le> slots_used (rl_rt st)" using Cons.prems(3) by (simp add: rslots_def)
  from inbound_packet_handled [OF Cons.prems(1,2) this] obtain a st1 where
    s: "inbound_packet en lookup err p st = Some (a, st1)" and h: "handled st (rp_buffer p) (rp_batchSlot p) st1" by blast
  have "slots_used (rl_rt st1) = c + held st1 + rslots ps"
    using h Cons.prems(3) by (simp add: handled_def rslots_def split: if_splits)
  with Cons.IH [OF Cons.prems(1), of st1 "active \<or> a"] Cons.prems(2) h s show ?case
    by (auto simp: handled_def)
qed (simp add: rslots_def)

lemma release_writes_effect:
  assumes "wslots ws \<le> slots_used r"
  shows "\<exists>r'. release_writes ws r = Some r' \<and> mset (rt_puts r') = mset (rt_puts r) + mset (map wp_owner ws) \<and>
    slots_used r = slots_used r' + wslots ws \<and> queued r' = queued r \<and> shard_total slots_of r' = shard_total slots_of r \<and>
    rt_config r' = rt_config r \<and> acct (rt_metrics r') = acct (rt_metrics r)"
  using assms
proof (induction ws arbitrary: r)
  case (Cons w ws)
  obtain r1 where r1: "releaseBuffer (wp_owner w) (wp_batchSlot w) r = Some r1"
    using releaseBuffer_enabled [of "wp_batchSlot w" r "wp_owner w"] Cons.prems by (auto simp: wslots_def)
  note e = release_handled [OF r1]
  have "wslots ws \<le> slots_used r1" using e(6) Cons.prems by (auto simp: wslots_def split: if_splits)
  from Cons.IH [OF this] r1 e show ?case by (auto simp: wslots_def)
qed (simp add: wslots_def)

lemma flushBatch_effect:
  assumes "wslots batch \<le> slots_used r"
  shows "\<exists>errCh' r'. flushBatch g writer gso batch errCh r = Some (errCh', r') \<and>
    mset (rt_puts r') = mset (rt_puts r) + mset (map wp_owner batch) \<and>
    slots_used r = slots_used r' + wslots batch \<and> queued r' = queued r \<and> shard_total slots_of r' = shard_total slots_of r \<and>
    rt_config r' = rt_config r \<and> acct (rt_metrics r') = acct (rt_metrics r)"
proof (cases "batch = []")
  case False
  obtain r1 where "release_writes batch r = Some r1" "mset (rt_puts r1) = mset (rt_puts r) + mset (map wp_owner batch)"
    "slots_used r = slots_used r1 + wslots batch" "queued r1 = queued r" "shard_total slots_of r1 = shard_total slots_of r"
    "rt_config r1 = rt_config r" "acct (rt_metrics r1) = acct (rt_metrics r)"
    using release_writes_effect [OF assms] by blast
  with False show ?thesis
    by (auto simp: flushBatch_def Let_def write_result_def acct_def split: prod.splits)
qed (simp add: flushBatch_def wslots_def)

text \<open>Both flushes of the request pump.\<close>

lemma flush_both_effect:
  assumes "wslots p + wslots f \<le> slots_used r" "\<not> hasF \<Longrightarrow> f = []"
  shows "\<exists>e r1 e' r'. flushBatch g w1 g1 p errCh r = Some (e, r1) \<and>
    (if hasF then flushBatch g w2 g2 f e r1 else Some (e, r1)) = Some (e', r') \<and>
    mset (rt_puts r') = mset (rt_puts r) + mset (map wp_owner (p @ f)) \<and>
    slots_used r = slots_used r' + wslots (p @ f) \<and> queued r' = queued r \<and> shard_total slots_of r' = shard_total slots_of r \<and>
    acct (rt_metrics r') = acct (rt_metrics r)"
proof -
  from flushBatch_effect [of p r g w1 g1 errCh] assms(1) obtain e r1 where
    1: "flushBatch g w1 g1 p errCh r = Some (e, r1)" "mset (rt_puts r1) = mset (rt_puts r) + mset (map wp_owner p)"
    "slots_used r = slots_used r1 + wslots p" "queued r1 = queued r" "shard_total slots_of r1 = shard_total slots_of r"
    "acct (rt_metrics r1) = acct (rt_metrics r)" by auto
  from flushBatch_effect [of f r1 g w2 g2 e] assms(1) 1(3) obtain e' r' where
    2: "flushBatch g w2 g2 f e r1 = Some (e', r')" "mset (rt_puts r') = mset (rt_puts r1) + mset (map wp_owner f)"
    "slots_used r1 = slots_used r' + wslots f" "queued r' = queued r1" "shard_total slots_of r' = shard_total slots_of r1"
    "acct (rt_metrics r') = acct (rt_metrics r1)" by auto
  show ?thesis
  proof (cases hasF)
    case True
    then show ?thesis using 1 2 by (auto simp: wslots_def)
  next
    case False
    then show ?thesis using 1 assms(2) by (auto simp: wslots_def)
  qed
qed

text \<open>Without a fallback socket nothing is queued for it.\<close>

lemma processInbound_fallback:
  "\<not> en_hasFallback en \<Longrightarrow> processInbound en lookup err pkt st = Some (a, st') \<Longrightarrow> rl_fallbackBatch st' = rl_fallbackBatch st"
  by (auto simp: processInbound_def drop_packet_def queue_write_def Let_def
      split: if_splits option.splits prod.splits bool.splits)

lemma inbound_packet_fallback:
  "\<not> en_hasFallback en \<Longrightarrow> inbound_packet en lookup err p st = Some (a, st') \<Longrightarrow> rl_fallbackBatch st' = rl_fallbackBatch st"
  by (auto simp: inbound_packet_def drop_packet_def dest: processInbound_fallback
      split: if_splits option.splits prod.splits sum.splits)

lemma inbound_packets_fallback:
  "\<not> en_hasFallback en \<Longrightarrow> inbound_packets en lookup err ps active st = Some (a, st') \<Longrightarrow>
     rl_fallbackBatch st' = rl_fallbackBatch st"
  by (induction ps arbitrary: active st) (auto dest: inbound_packet_fallback split: option.splits)

section \<open>Properties\<close>


definition sample_relay :: relay where
  "sample_relay = \<lparr>rl_rt = (newUDPRuntime sample_cfg 5)\<lparr>rt_batchSlots := Some \<lparr>ch_cap = 2, ch_len = 1\<rparr>\<rparr>, rl_preferredBatch = [],
     rl_fallbackBatch = [], rl_srcPort = 0, rl_batchInPackets = 0, rl_batchInBytes = 0, rl_errCh = [], rl_lastActivity = 0\<rparr>"

definition sample_env :: relay_env where
  "sample_env = \<lparr>en_associationID = 1, en_srcIP = V4 7, en_preferredV4 = True, en_hasFallback = False, en_fallbackV4 = False,
     en_gso = False, en_gomaxprocs = 1\<rparr>"

definition sample_read :: "nat \<Rightarrow> bool \<Rightarrow> udpReadPacket" where
  "sample_read b bslot = \<lparr>rp_buffer = b, rp_data = [0, 0, 0, 1, 1, 2, 3, 4, 0, 53, 42], rp_n = 11, rp_addr = AddrPortFrom (V4 7) 9,
     rp_truncated = False, rp_batchSlot = bslot\<rparr>"


lemma mapped_inject:
  assumes "drop_bit 32 w = (0xffff :: u128)" "drop_bit 32 v = (0xffff :: u128)" "ucast w = (ucast v :: u32)"
  shows "w = v"
proof (rule bit_word_eqI)
  fix n
  assume "n < LENGTH(128)"
  show "bit w n = bit v n"
  proof (cases "n < 32")
    case True
    then show ?thesis using arg_cong [OF assms(3), of "\<lambda>x. bit x n"] by (simp add: bit_simps)
  next
    case False
    then have "bit w n = bit (drop_bit 32 w) (n - 32)" "bit v n = bit (drop_bit 32 v) (n - 32)"
      by (simp_all add: bit_drop_bit_eq)
    then show ?thesis using assms by simp
  qed
qed

text \<open>
  On addresses without a zone, a source is authorized exactly when it and the expected address are the
  same up to the IPv4-mapped form.
\<close>

theorem isAuthorized_iff_Unmap:
  assumes "Zone (ap_addr src) = []" "Zone expected = []"
  shows "isAuthorized src expected \<longleftrightarrow> Unmap (ap_addr src) = Unmap expected"
  using assms by (cases "ap_addr src"; cases expected)
    (auto simp: isAuthorized_def Unmap_def Let_def Is4In6_def dest: mapped_inject split: if_splits)

theorem isAuthorized_iff_Unmap_witness:
  "isAuthorized (AddrPortFrom (V6 0xffff01020304 []) 9) (V4 0x01020304) \<longleftrightarrow>
     Unmap (ap_addr (AddrPortFrom (V6 0xffff01020304 []) 9)) = Unmap (V4 0x01020304)"
  by (rule isAuthorized_iff_Unmap) simp_all

lemma processInbound_writes:
  assumes "processInbound en lookup err pkt st = Some (a, st')"
  shows "w \<in> set (rl_preferredBatch st' @ rl_fallbackBatch st') \<Longrightarrow> w \<in> set (rl_preferredBatch st @ rl_fallbackBatch st) \<or>
      ip_frag pkt = 0 \<and> isAuthorized (ip_src pkt) (en_srcIP en) \<and> wp_owner w = ip_buffer pkt \<and> wp_buffer w = ip_payload pkt"
    and "w \<in> set (rl_fallbackBatch st') \<Longrightarrow> w \<in> set (rl_fallbackBatch st) \<or> en_fallbackV4 en = Is4 (ap_addr (wp_addr w))"
  using assms
  by (auto simp: processInbound_def drop_packet_def queue_write_def Let_def
      split: if_splits option.splits prod.splits bool.splits)

definition from_packet :: "relay_env \<Rightarrow> udpReadPacket \<Rightarrow> udpWritePacket \<Rightarrow> bool" where
  "from_packet en p w \<longleftrightarrow> (\<exists>hdr hlen. \<not> rp_truncated p \<and> ParseUdpHeader (take (rp_n p) (rp_data p)) = Inr (hdr, hlen) \<and>
     uFrag hdr = 0 \<and> isAuthorized (rp_addr p) (en_srcIP en) \<and> wp_owner w = rp_buffer p \<and>
     wp_buffer w = drop hlen (take (rp_n p) (rp_data p)))"

lemma inbound_packet_writes:
  assumes "inbound_packet en lookup err p st = Some (a, st')"
  shows "w \<in> set (rl_preferredBatch st' @ rl_fallbackBatch st') \<Longrightarrow>
      w \<in> set (rl_preferredBatch st @ rl_fallbackBatch st) \<or> from_packet en p w"
    and "w \<in> set (rl_fallbackBatch st') \<Longrightarrow> w \<in> set (rl_fallbackBatch st) \<or> en_fallbackV4 en = Is4 (ap_addr (wp_addr w))"
proof -
  have *: "(rl_preferredBatch st' = rl_preferredBatch st \<and> rl_fallbackBatch st' = rl_fallbackBatch st) \<or>
    (\<exists>hdr hlen. \<not> rp_truncated p \<and> ParseUdpHeader (take (rp_n p) (rp_data p)) = Inr (hdr, hlen) \<and>
      processInbound en lookup (err (rp_buffer p))
        \<lparr>ip_payload = drop hlen (take (rp_n p) (rp_data p)), ip_buffer = rp_buffer p, ip_frag = uFrag hdr,
         ip_dst = uAddress hdr, ip_src = rp_addr p, ip_batchSlot = rp_batchSlot p\<rparr> st = Some (a, st'))"
    using assms by (auto simp: inbound_packet_def drop_packet_def split: if_splits sum.splits)
  show "w \<in> set (rl_preferredBatch st' @ rl_fallbackBatch st') \<Longrightarrow>
      w \<in> set (rl_preferredBatch st @ rl_fallbackBatch st) \<or> from_packet en p w"
    using * by (auto simp: from_packet_def dest!: processInbound_writes(1) [where w = w])
  show "w \<in> set (rl_fallbackBatch st') \<Longrightarrow> w \<in> set (rl_fallbackBatch st) \<or> en_fallbackV4 en = Is4 (ap_addr (wp_addr w))"
    using * by (auto dest: processInbound_writes(2))
qed

lemma inbound_packets_writes:
  assumes "inbound_packets en lookup err packets active st = Some (a, st')"
  shows "(w \<in> set (rl_preferredBatch st' @ rl_fallbackBatch st') \<longrightarrow>
      w \<in> set (rl_preferredBatch st @ rl_fallbackBatch st) \<or> (\<exists>p \<in> set packets. from_packet en p w)) \<and>
    (w \<in> set (rl_fallbackBatch st') \<longrightarrow> w \<in> set (rl_fallbackBatch st) \<or> en_fallbackV4 en = Is4 (ap_addr (wp_addr w)))"
  using assms
proof (induction packets arbitrary: active st)
  case (Cons p ps)
  then obtain b st1 where p: "inbound_packet en lookup err p st = Some (b, st1)"
    and r: "inbound_packets en lookup err ps (active \<or> b) st1 = Some (a, st')" by (auto split: option.splits)
  from Cons.IH [OF r] inbound_packet_writes [OF p, of w] show ?case by auto
qed simp



text \<open>
  The in-place response equals the packet built from scratch: for a payload that sits behind the
  header room of its buffer, \<open>prepareUDPResponse\<close> returns the relay packet that carries the unmapped remote
  address and the payload.
\<close>

theorem prepareUDPResponse_eq_Build:
  assumes "UdpHeaderMaxLen + n \<le> length buffer"
  shows "prepareUDPResponse buffer (take n (drop UdpHeaderMaxLen buffer)) u =
    BuildUdpPacket 0 (SocketAddress (AddrPortFrom (Unmap (ap_addr (UDPAddr_AddrPort u))) (ap_port (UDPAddr_AddrPort u))))
      (take n (drop UdpHeaderMaxLen buffer))"
proof -
  let ?ap = "AddrPortFrom (Unmap (ap_addr (UDPAddr_AddrPort u))) (ap_port (UDPAddr_AddrPort u))"
  let ?h = "if Is4 (ap_addr ?ap) then 10 else 22 :: nat"
  have h: "length (response_header ?ap) = ?h" by (simp add: response_header_def)
  have le: "?h \<le> UdpHeaderMaxLen" by (simp add: UdpHeaderMaxLen_def MaxSerializedLen_def)
  have n: "length (take n (drop UdpHeaderMaxLen buffer)) = n" using assms by simp
  have "prepareUDPResponse buffer (take n (drop UdpHeaderMaxLen buffer)) u =
      take (UdpHeaderMaxLen + n - (UdpHeaderMaxLen - ?h))
        (drop (UdpHeaderMaxLen - ?h) (take (UdpHeaderMaxLen - ?h) buffer @ response_header ?ap @ drop UdpHeaderMaxLen buffer))"
    unfolding prepareUDPResponse_def n using assms by (simp add: Let_def)
  also have "\<dots> = take (?h + n) (response_header ?ap @ drop UdpHeaderMaxLen buffer)"
    using le assms by (simp add: add.commute)
  also have "\<dots> = response_header ?ap @ take n (drop UdpHeaderMaxLen buffer)" using h by simp
  finally show ?thesis by (simp add: response_header_def BuildUdpPacket_def SocketAddress_def)
qed

theorem prepareUDPResponse_eq_Build_witness:
  "prepareUDPResponse (replicate 262 9 @ [1, 2, 3]) (take 2 (drop UdpHeaderMaxLen (replicate 262 9 @ [1, 2, 3])))
      (UDPAddrFromAddrPort (AddrPortFrom (V4 0x01020304) 53)) =
    BuildUdpPacket 0 (SocketAddress (AddrPortFrom (Unmap (ap_addr (UDPAddr_AddrPort (UDPAddrFromAddrPort (AddrPortFrom (V4 0x01020304) 53)))))
        (ap_port (UDPAddr_AddrPort (UDPAddrFromAddrPort (AddrPortFrom (V4 0x01020304) 53))))))
      (take 2 (drop UdpHeaderMaxLen (replicate 262 9 @ [1, 2, 3])))"
  by (rule prepareUDPResponse_eq_Build) (simp add: UdpHeaderMaxLen_def MaxSerializedLen_def)

lemma pump_packets_effect:
  assumes "rslots ps + c \<le> slots_used r"
  shows "\<exists>ws r'. pump_packets room ca ps r = Some (ws, r') \<and>
    mset (rt_puts r') + mset (map (wp_owner \<circ> fst) ws) = mset (rt_puts r) + mset (map rp_buffer ps) \<and>
    slots_used r' + rslots ps = slots_used r + wslots (map fst ws) \<and> queued r' = queued r \<and>
    (\<forall>w \<in> set ws. wp_addr (fst w) = ca)"
  using assms
proof (induction ps arbitrary: r)
  case (Cons p ps)
  have sl: "(if rp_batchSlot p then 1 else 0) \<le> slots_used r" using Cons.prems by (simp add: rslots_def split: if_splits)
  have rel: "\<exists>r1. releaseBuffer (rp_buffer p) (rp_batchSlot p) r0 = Some r1 \<and> mset (rt_puts r1) = mset (rt_puts r) + {#rp_buffer p#} \<and>
      slots_used r = slots_used r1 + (if rp_batchSlot p then 1 else 0) \<and> queued r1 = queued r"
    if e: "slots_used r0 = slots_used r" "rt_puts r0 = rt_puts r" "queued r0 = queued r" for r0
  proof -
    obtain r1 where r1: "releaseBuffer (rp_buffer p) (rp_batchSlot p) r0 = Some r1"
      using releaseBuffer_enabled [of "rp_batchSlot p" r0 "rp_buffer p"] sl e(1) by auto
    show ?thesis using r1 release_handled [OF r1] e by simp
  qed
  show ?case
  proof (cases "rp_truncated p \<or> ap_port ca = 0")
    case True
    obtain r0 where "slots_used r0 = slots_used r" "rt_puts r0 = rt_puts r" "queued r0 = queued r"
      "pump_packet room ca p r = map_option (\<lambda>r. (None, r)) (releaseBuffer (rp_buffer p) (rp_batchSlot p) r0)"
    proof (cases "rp_truncated p")
      case True
      then show ?thesis using that [of "upd_metrics (\<lambda>m. m\<lparr>truncatedDrops := truncatedDrops m + 1\<rparr>) r"]
        by (simp add: pump_packet_def)
    next
      case False
      then show ?thesis using that [of r] \<open>rp_truncated p \<or> ap_port ca = 0\<close> by (simp add: pump_packet_def)
    qed
    then obtain r1 where r1: "pump_packet room ca p r = Some (None, r1)" "mset (rt_puts r1) = mset (rt_puts r) + {#rp_buffer p#}"
      "slots_used r = slots_used r1 + (if rp_batchSlot p then 1 else 0)" "queued r1 = queued r"
      using rel [of r0] by auto
    with Cons.IH [of r1] Cons.prems show ?thesis by (auto simp: rslots_def split: if_splits)
  next
    case False
    then obtain w where w: "pump_packet room ca p r = Some (Some w, r)" "wp_owner w = rp_buffer p" "wp_batchSlot w = rp_batchSlot p"
      "wp_addr w = ca" by (auto simp: pump_packet_def Let_def)
    have "rslots ps + c \<le> slots_used r" using Cons.prems by (simp add: rslots_def)
    with Cons.IH [OF this] w show ?thesis by (auto simp: rslots_def wslots_def)
  qed
qed (simp add: rslots_def wslots_def)

text \<open>
  One call of the response pump puts every buffer it read back into the pool, exactly once, gives back
  all the batch slots of the read, and writes only to the client's address; it never blocks on a slot.
\<close>

theorem pumpOnce_conserves:
  assumes "rslots packets \<le> slots_used (re_rt s)"
  shows "\<exists>s' ws. pumpOnce room clientIP clientPort writer ctxErr now (Inr packets) s = Some (True, s') \<and>
    mset (rt_puts (re_rt s')) = mset (rt_puts (re_rt s)) + mset (map rp_buffer packets) \<and>
    slots_used (re_rt s') + rslots packets = slots_used (re_rt s) \<and>
    pump_packets room (AddrPortFrom clientIP (ucast clientPort)) packets (re_rt s) = Some ws \<and>
    list_all (\<lambda>w. wp_addr (fst w) = AddrPortFrom clientIP (ucast clientPort)) (fst ws)"
proof -
  let ?ca = "AddrPortFrom clientIP (ucast clientPort)"
  from pump_packets_effect [of packets 0 "re_rt s" room ?ca] assms obtain ws r where
    p: "pump_packets room ?ca packets (re_rt s) = Some (ws, r)"
    "mset (rt_puts r) + mset (map (wp_owner \<circ> fst) ws) = mset (rt_puts (re_rt s)) + mset (map rp_buffer packets)"
    "slots_used r + rslots packets = slots_used (re_rt s) + wslots (map fst ws)" "\<forall>w \<in> set ws. wp_addr (fst w) = ?ca" by auto
  have "wslots (map fst ws) \<le> slots_used r" using p(3) assms by linarith
  from release_writes_effect [OF this] obtain r1 where
    q: "release_writes (map fst ws) r = Some r1" "mset (rt_puts r1) = mset (rt_puts r) + mset (map (wp_owner \<circ> fst) ws)"
    "slots_used r = slots_used r1 + wslots (map fst ws)" by auto
  show ?thesis using p q
    by (auto simp: pumpOnce_def Let_def write_result_def list_all_iff split: prod.splits if_splits)
qed

theorem pumpOnce_conserves_witness:
  "\<exists>s' ws. pumpOnce (\<lambda>_. replicate 262 0) (V4 7) 9 (\<lambda>ws. (length ws, None)) False 5 (Inr [sample_read 3 False])
      \<lparr>re_rt = newUDPRuntime sample_cfg 5, re_errCh = [], re_lastActivity = 0\<rparr> = Some (True, s') \<and>
    mset (rt_puts (re_rt s')) = {#3#} \<and>
    pump_packets (\<lambda>_. replicate 262 0) (AddrPortFrom (V4 7) (ucast (9 :: u32))) [sample_read 3 False] (newUDPRuntime sample_cfg 5) = Some ws \<and>
    list_all (\<lambda>w. wp_addr (fst w) = AddrPortFrom (V4 7) (ucast (9 :: u32))) (fst ws)"
proof -
  have "rslots [sample_read 3 False] \<le> slots_used (re_rt \<lparr>re_rt = newUDPRuntime sample_cfg 5, re_errCh = [], re_lastActivity = 0\<rparr>)"
    by (simp add: rslots_def sample_read_def)
  moreover have "rp_buffer (sample_read 3 False) = 3" "rt_puts (newUDPRuntime sample_cfg 5) = []"
    by (simp_all add: sample_read_def newUDPRuntime_def Let_def)
  ultimately show ?thesis
    using pumpOnce_conserves [of "[sample_read 3 False]" "\<lparr>re_rt = newUDPRuntime sample_cfg 5, re_errCh = [], re_lastActivity = 0\<rparr>"
        "\<lambda>_. replicate 262 0" "V4 7" 9 "\<lambda>ws. (length ws, None)" False 5]
    by (auto simp del: pump_packets.simps)
qed

end
