(* ===== verification/Session.thy ===== *)
theory Session
  imports Handshake ServerBase UdpRelay
begin

text \<open>
  Model of the SOCKS5 session of \<open>internal/server/socks/server.go\<close>: \<open>handle\<close> and the handlers of CONNECT, BIND
  and UDP ASSOCIATE. A handler is a function of what the network answers; its result is its error, what
  it wrote to the client, and the list of its other effects in order.
\<close>

section \<open>Definitions\<close>

text \<open>
  Effects on connections, listeners and sockets. \<open>Splice bs\<close> is the bidirectional copy, started when the bytes
  \<open>bs\<close> of the client's stream have not been read yet.
\<close>

datatype resource = Client | Outbound | BindListener | InboundUDP | PreferredUDP | FallbackUDP | AssociationSlot

datatype effect =
    Opened resource
  | Closed resource
  | ClosedWrite resource
  | ToOutbound "byte list"
  | Splice "byte list"

type_synonym outcome = "go_error option \<times> byte list \<times> effect list"

definition reply :: "writer \<Rightarrow> Reply \<Rightarrow> Address \<Rightarrow> byte list \<Rightarrow> go_error option \<times> byte list" where
  "reply w r a out = Response_MarshalTo w (NewResponse r a) out"

text \<open>
  Forwarding of the bytes that the buffered reader has pulled ahead: \<open>pulled\<close> is what \<open>br.Buffered()\<close> can be,
  at most what the client has sent behind the request; \<open>copyN\<close> is the result of \<open>io.CopyN\<close>: \<open>None\<close>, or the number
  of bytes written and the error.
\<close>

definition drain_ahead :: "nat \<Rightarrow> (byte list \<Rightarrow> (nat \<times> go_error) option) \<Rightarrow> byte list \<Rightarrow> go_error option \<times> effect list \<times> byte list" where
  "drain_ahead pulled copyN rest =
     (let n = min pulled (length rest) in
      if n > 0 then
        (case copyN (take n rest) of
           Some (k, e) \<Rightarrow> (Some e, [ToOutbound (take k (take n rest))], drop n rest)
         | None \<Rightarrow> (None, [ToOutbound (take n rest)], drop n rest))
      else (None, [], rest))"

definition handleConnect ::
    "writer \<Rightarrow> (TargetAddr \<Rightarrow> unit res) \<Rightarrow> nat \<Rightarrow> (byte list \<Rightarrow> (nat \<times> go_error) option) \<Rightarrow> Address \<Rightarrow> byte list \<Rightarrow> byte list \<Rightarrow> outcome" where
  "handleConnect w connect pulled copyN address rest out =
     (case connect (case aSocket address of Some ap \<Rightarrow> FromAddr ap | None \<Rightarrow> FromHost (aDomain address) (aPort address)) of
        Inl dialErr \<Rightarrow> (Some dialErr, snd (reply w ReplyHostUnreachable Unspecified out), [ClosedWrite Client, Closed Client])
      | Inr _ \<Rightarrow>
         (case reply w ReplySucceeded Unspecified out of
            (Some e, out) \<Rightarrow> (Some e, out, [Opened Outbound, Closed Outbound, Closed Client])
          | (None, out) \<Rightarrow>
             (case drain_ahead pulled copyN rest of
                (Some e, es, rest) \<Rightarrow> (Some e, out, [Opened Outbound] @ es @ [Closed Outbound, Closed Client])
              | (None, es, rest) \<Rightarrow>
                  (None, out, [Opened Outbound] @ es @ [Splice rest, ClosedWrite Outbound, Closed Outbound, ClosedWrite Client, Closed Client]))))"

text \<open>
  BIND: \<open>socketAddr\<close> is \<open>connector.SocketAddr\<close> of the default function's result, \<open>listen\<close> the result of \<open>net.ListenTCP\<close>
  with the listener's address. The wait for the peer ends with a connection, an error, or the end of the
  context; in the last case the pending accept may still have produced a connection.
\<close>

datatype bind_wait = Accepted net_addr | AcceptFailed go_error | BindCtxDone bool

definition bind_default :: "net_addr \<Rightarrow> addr res" where
  "bind_default clientLocal =
     (let ap = AddrPortOf clientLocal in if IsValid (ap_addr ap) then Inr (ap_addr ap) else Inr IPv4Unspecified)"

definition handleBind ::
    "writer \<Rightarrow> (addr res \<Rightarrow> addr_port res) \<Rightarrow> (addr \<Rightarrow> net_addr res) \<Rightarrow> bind_wait \<Rightarrow> nat \<Rightarrow> (byte list \<Rightarrow> (nat \<times> go_error) option)
      \<Rightarrow> net_addr \<Rightarrow> byte list \<Rightarrow> byte list \<Rightarrow> outcome" where
  "handleBind w socketAddr listen wait pulled copyN clientLocal rest out =
     (case socketAddr (bind_default clientLocal) of
        Inl e \<Rightarrow> (Some e, snd (reply w ReplyGeneralFailure Unspecified out), [Closed Client])
      | Inr listenIP \<Rightarrow>
       (case listen (ap_addr listenIP) of
          Inl e \<Rightarrow> (Some e, snd (reply w ReplyGeneralFailure Unspecified out), [Closed Client])
        | Inr lnAddr \<Rightarrow>
         (case reply w ReplySucceeded (SocketAddress (AddrPortOf lnAddr)) out of
            (Some e, out) \<Rightarrow> (Some e, out, [Opened BindListener, Closed Client, Closed BindListener])
          | (None, out) \<Rightarrow>
           (case wait of
              BindCtxDone late \<Rightarrow>
                (Some CtxErr, out, [Opened BindListener, Closed BindListener] @ (if late then [Opened Outbound, Closed Outbound] else [])
                   @ [Closed Client, Closed BindListener])
            | AcceptFailed e \<Rightarrow>
                (Some e, snd (reply w ReplyGeneralFailure Unspecified out), [Opened BindListener, Closed Client, Closed BindListener])
            | Accepted remote \<Rightarrow>
               (case reply w ReplySucceeded (SocketAddress (AddrPortOf remote)) out of
                  (Some e, out) \<Rightarrow> (Some e, out, [Opened BindListener, Opened Outbound, Closed Client, Closed Outbound, Closed BindListener])
                | (None, out) \<Rightarrow>
                   (case drain_ahead pulled copyN rest of
                      (Some e, es, rest) \<Rightarrow>
                        (Some e, out, [Opened BindListener, Opened Outbound] @ es @ [Closed Client, Closed Outbound, Closed BindListener])
                    | (None, es, rest) \<Rightarrow>
                        (None, out, [Opened BindListener, Opened Outbound] @ es @
                          [Splice rest, ClosedWrite Client, ClosedWrite Outbound, Closed Client, Closed Outbound, Closed BindListener])))))))"

text \<open>
  UDP ASSOCIATE. \<open>began\<close> is whether \<open>beginAssociation\<close> opened an association, \<open>listen\<close> the result of \<open>net.ListenUDP\<close>,
  \<open>sockets\<close> the result of \<open>CreateSocketDualStack\<close> (with or without a fallback), \<open>ended\<close> the result of the control loop.
\<close>

definition udp_local :: "net_addr \<Rightarrow> addr" where
  "udp_local clientLocal = (let ap = AddrPortOf clientLocal in if IsValid (ap_addr ap) then ap_addr ap else IPv4Unspecified)"

definition handleUDP ::
    "writer \<Rightarrow> bool \<Rightarrow> (addr \<Rightarrow> net_addr res) \<Rightarrow> bool res \<Rightarrow> go_error option \<Rightarrow> net_addr \<Rightarrow> byte list \<Rightarrow> outcome" where
  "handleUDP w began listen sockets ended clientLocal out =
     (if \<not> began then (Some AssociationLimit, snd (reply w ReplyConnectionNotAllowed Unspecified out), [])
      else case listen (udp_local clientLocal) of
          Inl e \<Rightarrow> (Some e, snd (reply w ReplyGeneralFailure Unspecified out), [Opened AssociationSlot, Closed Client, Closed AssociationSlot])
        | Inr lnAddr \<Rightarrow>
         (case reply w ReplySucceeded (SocketAddress (AddrPortOf lnAddr)) out of
            (Some e, out) \<Rightarrow> (Some e, out, [Opened AssociationSlot, Opened InboundUDP, Closed InboundUDP, Closed Client, Closed AssociationSlot])
          | (None, out) \<Rightarrow>
           (case sockets of
              Inl e \<Rightarrow> (Some e, out, [Opened AssociationSlot, Opened InboundUDP, Closed InboundUDP, Closed Client, Closed AssociationSlot])
            | Inr hasFallback \<Rightarrow>
                (ended, out, [Opened AssociationSlot, Opened InboundUDP, Opened PreferredUDP] @ (if hasFallback then [Opened FallbackUDP] else [])
                   @ [Closed Client, Closed InboundUDP, Closed PreferredUDP] @ (if hasFallback then [Closed FallbackUDP] else [])
                   @ [Closed AssociationSlot]))))"

text \<open>
  The control loop of an association. An iteration sees the parent context before and after the read, what
  the read of the control connection returned, and the clock and the last activity after it. The result
  is \<open>None\<close> while the loop goes on.
\<close>

datatype ctl_read = CtlData | CtlTimeout | CtlError

record ctl_iter =
  it_err1 :: bool
  it_read :: ctl_read
  it_err2 :: bool
  it_now :: int
  it_last :: int

fun control_loop :: "int \<Rightarrow> ctl_iter list \<Rightarrow> go_error option option" where
  "control_loop idle [] = None"
| "control_loop idle (it # its) =
     (if it_err1 it then Some (Some CtxErr)
      else case it_read it of
          CtlData \<Rightarrow> control_loop idle its
        | rd \<Rightarrow>
            if it_err2 it then Some (Some CtxErr)
            else if idle > 0 \<and> rd = CtlTimeout then
              (if it_now it - it_last it \<ge> idle then Some None else control_loop idle its)
            else Some None)"

text \<open>
  \<open>handle\<close> with the deferred close of \<open>Accept\<close>. The record gives what the environment answers.
\<close>

record sess_env =
  se_now :: u64
  se_writer :: writer
  se_connect :: "Extension \<Rightarrow> TargetAddr \<Rightarrow> unit res"
  se_pulled :: nat
  se_copyN :: "byte list \<Rightarrow> (nat \<times> go_error) option"
  se_local :: net_addr
  se_socketAddr :: "Extension \<Rightarrow> addr res \<Rightarrow> addr_port res"
  se_listenTCP :: "addr \<Rightarrow> net_addr res"
  se_bindWait :: bind_wait
  se_began :: bool
  se_listenUDP :: "addr \<Rightarrow> net_addr res"
  se_sockets :: "Extension \<Rightarrow> bool res"
  se_ended :: "go_error option"

definition handle :: "sess_env \<Rightarrow> AuthAdaptor \<Rightarrow> byte list \<Rightarrow> outcome" where
  "handle en auth inp = (case Authenticate (se_now en) (se_writer en) auth inp [] of
      (stream, Inl e, out) \<Rightarrow>
        if e = NoAcceptableMethods then (None, out, [])
        else if stream then (None, out, [Closed Client])
        else (Some e, out, [])
    | (_, Inr (extension, inp), out) \<Rightarrow>
       (case ReadRequest inp of
          Inl e \<Rightarrow> (Some e, out, [Closed Client])
        | Inr (req, rest) \<Rightarrow>
           (case rCommand req of
              CmdUDPAssociate \<Rightarrow>
                handleUDP (se_writer en) (se_began en) (se_listenUDP en) (se_sockets en extension) (se_ended en) (se_local en) out
            | CmdConnect \<Rightarrow>
                handleConnect (se_writer en) (se_connect en extension) (se_pulled en) (se_copyN en) (rAddress req) rest out
            | CmdBind \<Rightarrow>
                handleBind (se_writer en) (se_socketAddr en extension) (se_listenTCP en) (se_bindWait en) (se_pulled en) (se_copyN en)
                  (se_local en) rest out)))"

definition Accept :: "sess_env \<Rightarrow> AuthAdaptor \<Rightarrow> byte list \<Rightarrow> outcome" where
  "Accept en auth inp = (case handle en auth inp of (e, out, es) \<Rightarrow> (e, out, es @ [Closed Client]))"

definition NewAcceptor_auth :: "AuthMode \<Rightarrow> AuthAdaptor" where
  "NewAcceptor_auth a = (if HasAuth a then PasswordConfig (am_Username a) (am_Password a) else NoAuthConfig)"

section \<open>Lemmas\<close>

text \<open>The bytes of the client's stream that reach the target.\<close>

fun forwarded :: "effect list \<Rightarrow> byte list" where
  "forwarded [] = []"
| "forwarded (ToOutbound bs # es) = bs @ forwarded es"
| "forwarded (Splice bs # es) = bs @ forwarded es"
| "forwarded (_ # es) = forwarded es"

lemma forwarded_append [simp]: "forwarded (xs @ ys) = forwarded xs @ forwarded ys"
  by (induction xs rule: forwarded.induct) auto

lemma drain_ahead_ok:
  assumes "\<And>bs. copyN bs = None"
  shows "\<exists>es rest'. drain_ahead pulled copyN rest = (None, es, rest') \<and> forwarded es @ rest' = rest"
  using assms by (auto simp: drain_ahead_def Let_def)

lemma drain_ahead_effects: "drain_ahead pulled copyN rest = (e, es, rest') \<Longrightarrow> Opened x \<notin> set es \<and> Closed x \<notin> set es"
  by (auto simp: drain_ahead_def Let_def split: if_splits option.splits)

text \<open>Each resource that was opened was closed afterwards.\<close>

fun all_closed :: "effect list \<Rightarrow> bool" where
  "all_closed [] = True"
| "all_closed (Opened x # es) = (Closed x \<in> set es \<and> all_closed es)"
| "all_closed (_ # es) = all_closed es"

lemma all_closed_no_open: "(\<And>x. Opened x \<notin> set es) \<Longrightarrow> all_closed (es @ fs) = all_closed fs"
  by (induction es rule: all_closed.induct) auto

lemma handleConnect_closed: "all_closed (snd (snd (handleConnect w connect pulled copyN address rest out)))"
proof (cases "drain_ahead pulled copyN rest")
  case (fields e es rest')
  have "all_closed (es @ [Closed Outbound, Closed Client])" "all_closed (es @ [Splice rest', ClosedWrite Outbound, Closed Outbound, ClosedWrite Client, Closed Client])"
    using drain_ahead_effects [OF fields] by (simp_all add: all_closed_no_open)
  with fields show ?thesis by (auto simp: handleConnect_def split: sum.splits prod.splits option.splits)
qed

lemma handleBind_closed: "all_closed (snd (snd (handleBind w socketAddr listen wait pulled copyN clientLocal rest out)))"
proof (cases "drain_ahead pulled copyN rest")
  case (fields e es rest')
  have "all_closed (es @ [Closed Client, Closed Outbound, Closed BindListener])"
    "all_closed (es @ [Splice rest', ClosedWrite Client, ClosedWrite Outbound, Closed Client, Closed Outbound, Closed BindListener])"
    using drain_ahead_effects [OF fields] by (simp_all add: all_closed_no_open)
  with fields show ?thesis by (auto simp: handleBind_def split: sum.splits prod.splits option.splits bind_wait.splits)
qed

lemma handleUDP_closed: "all_closed (snd (snd (handleUDP w began listen sockets ended clientLocal out)))"
  by (auto simp: handleUDP_def split: sum.splits prod.splits option.splits)

lemma handle_closed: "all_closed (snd (snd (handle en auth inp)))"
  by (auto simp: handle_def handleConnect_closed handleBind_closed handleUDP_closed
      split: prod.splits sum.splits Command.splits)

lemma all_closed_snoc: "all_closed es \<Longrightarrow> all_closed (es @ [Closed x])"
  by (induction es rule: all_closed.induct) auto

lemma reply_no_fail: "AppendTo a [] = Inr bs \<Longrightarrow> reply no_fail r a out = (None, out @ [Version5, Reply_Byte r, 0] @ bs)"
  using AppendTo_prefix [of a "[Version5, Reply_Byte r, 0]"]
  by (simp add: reply_def Response_MarshalTo_def NewResponse_def)

lemma reply_Unspecified: "reply no_fail r Unspecified out = (None, out @ [5, Reply_Byte r, 0, 1, 0, 0, 0, 0, 0, 0])"
proof -
  have "AppendTo Unspecified [] = Inr [1, 0, 0, 0, 0, 0, 0]" by code_simp
  from reply_no_fail [OF this] show ?thesis by (simp add: Version5_def)
qed

lemma control_loop_idle:
  "control_loop idle its = Some None \<Longrightarrow>
     \<exists>it \<in> set its. it_read it \<noteq> CtlData \<and> \<not> it_err1 it \<and> \<not> it_err2 it \<and>
       (idle > 0 \<and> it_read it = CtlTimeout \<longrightarrow> it_now it - it_last it \<ge> idle)"
  by (induction its) (auto split: if_splits ctl_read.splits)

section \<open>Properties\<close>

text \<open>
  C4. A session leaks nothing: on every path of \<open>handle\<close>, whatever the client sends, the writer does and the
  network answers, every outbound connection, listener, UDP socket and association slot that was opened
  is closed afterwards, and the client's connection is closed last.
\<close>

theorem session_closes_everything:
  "all_closed (snd (snd (Accept en auth inp))) \<and> last (snd (snd (Accept en auth inp))) = Closed Client"
  using handle_closed [of en auth inp] by (auto simp: Accept_def all_closed_snoc split: prod.splits)


definition sample_session :: sess_env where
  "sample_session = \<lparr>se_now = 0, se_writer = no_fail, se_connect = (\<lambda>_ _. Inr ()), se_pulled = 2, se_copyN = (\<lambda>_. None), se_local = NilAddr,
     se_socketAddr = (\<lambda>_ _. Inl EOF), se_listenTCP = (\<lambda>_. Inl EOF), se_bindWait = AcceptFailed EOF, se_began = False,
     se_listenUDP = (\<lambda>_. Inl EOF), se_sockets = (\<lambda>_. Inl EOF), se_ended = None\<rparr>"


text \<open>
  The reply \<open>command not supported\<close> is never sent: a request with an unknown command is rejected by
  \<open>ReadRequest\<close> already, so the connection is closed without an answer.
\<close>

theorem unknown_command_no_reply:
  assumes "Authenticate (se_now en) (se_writer en) auth inp [] = (st, Inr (extension, [5, c, r] @ rest), out)" "c \<notin> {1, 2, 3}"
  shows "handle en auth inp = (Some (UnsupportedCommand c), out, [Closed Client])"
proof -
  have "ReadRequest ([5, c, r] @ rest) = Inl (UnsupportedCommand c)"
    using assms(2) ReadRequest_eq [of c r rest] by (simp add: ParseCommand_def Version5_def)
  with assms(1) show ?thesis by (simp add: handle_def)
qed

theorem unknown_command_no_reply_witness:
  "handle sample_session NoAuthConfig ([5, 1, 0] @ [5, 9, 0] @ [1]) = (Some (UnsupportedCommand 9), [5, 0], [Closed Client])"
proof -
  have "Authenticate (se_now sample_session) (se_writer sample_session) NoAuthConfig ([5, 1, 0] @ [5, 9, 0] @ [1]) [] =
      (True, Inr (None_ext, [5, 9, 0] @ [1]), [5, 0])" by code_simp
  from unknown_command_no_reply [OF this] show ?thesis by simp
qed

end
