(* ===== verification/HttpAuth.thy ===== *)
theory HttpAuth
  imports Ext Config GoStrings
begin

text \<open>
  Model of \<open>internal/server/http/auth.go\<close> and of the header and target handling of
  \<open>internal/server/http/server.go\<close>: Basic authentication, removal of hop-by-hop headers, \<open>splitHostPort\<close>. Of the Go
  library the parts used are modelled: \<open>http.Header\<close>, \<open>strings.TrimSpace\<close>, \<open>base64.StdEncoding\<close> and
  \<open>net.SplitHostPort\<close>.
\<close>

section \<open>Definitions\<close>

subsection \<open>Headers\<close>

text \<open>\<open>textproto.CanonicalMIMEHeaderKey\<close>: a key with a byte that is no token character is kept as it is.\<close>

type_synonym header = "gostring \<Rightarrow> gostring list option"

definition validHeaderFieldByte :: "byte \<Rightarrow> bool" where
  "validHeaderFieldByte b \<longleftrightarrow> 48 \<le> b \<and> b \<le> 57 \<or> 65 \<le> b \<and> b \<le> 90 \<or> 97 \<le> b \<and> b \<le> 122 \<or> b \<in> set (bytes_of ''!#$%&*+-.^_`|~'') \<or> b = 39"

fun canonical_case :: "bool \<Rightarrow> gostring \<Rightarrow> gostring" where
  "canonical_case upper [] = []"
| "canonical_case upper (b # s) =
     (if upper \<and> 97 \<le> b \<and> b \<le> 122 then b - 32
      else if \<not> upper \<and> 65 \<le> b \<and> b \<le> 90 then b + 32 else b) # canonical_case (b = 45) s"

definition CanonicalHeaderKey :: "gostring \<Rightarrow> gostring" where
  "CanonicalHeaderKey k = (if list_all validHeaderFieldByte k then canonical_case True k else k)"

definition header_Get :: "header \<Rightarrow> gostring \<Rightarrow> gostring" where
  "header_Get h k = (case h (CanonicalHeaderKey k) of Some (v # _) \<Rightarrow> v | _ \<Rightarrow> [])"

definition header_Del :: "header \<Rightarrow> gostring \<Rightarrow> header" where
  "header_Del h k = h(CanonicalHeaderKey k := None)"

definition hopHeaders :: "gostring list" where
  "hopHeaders = map bytes_of [''Connection'', ''Proxy-Connection'', ''Keep-Alive'', ''Proxy-Authenticate'',
     ''Proxy-Authorization'', ''Te'', ''Trailer'', ''Transfer-Encoding'', ''Upgrade'']"

definition removeHopHeaders :: "header \<Rightarrow> header" where
  "removeHopHeaders h =
     (let conn = header_Get h (bytes_of ''Connection'');
          connectionTokens = (if conn \<noteq> [] then split_on 44 conn else []);
          h = foldl header_Del h hopHeaders
      in foldl (\<lambda>h tok. header_Del h (TrimSpace tok)) h connectionTokens)"

subsection \<open>Authentication\<close>

text \<open>\<open>base64.StdEncoding.DecodeString\<close>: line breaks are skipped, padding is required.\<close>

definition base64_value :: "byte \<Rightarrow> nat option" where
  "base64_value b =
     (if 65 \<le> b \<and> b \<le> 90 then Some (unat b - 65)
      else if 97 \<le> b \<and> b \<le> 122 then Some (unat b - 71)
      else if 48 \<le> b \<and> b \<le> 57 then Some (unat b + 4)
      else if b = 43 then Some 62 else if b = 47 then Some 63 else None)"

definition octet1 :: "nat \<Rightarrow> nat \<Rightarrow> byte" where "octet1 x y = of_nat (x * 4 + y div 16)"
definition octet2 :: "nat \<Rightarrow> nat \<Rightarrow> byte" where "octet2 y z = of_nat (y mod 16 * 16 + z div 4)"
definition octet3 :: "nat \<Rightarrow> nat \<Rightarrow> byte" where "octet3 z w = of_nat (z mod 4 * 64 + w)"

fun base64_groups :: "byte list \<Rightarrow> byte list option" where
  "base64_groups [] = Some []"
| "base64_groups (a # b # c # d # rest) =
     (case (base64_value a, base64_value b) of
        (Some x, Some y) \<Rightarrow>
          if c = 61 then (if d = 61 \<and> rest = [] then Some [octet1 x y] else None)
          else (case base64_value c of None \<Rightarrow> None
            | Some z \<Rightarrow>
               if d = 61 then (if rest = [] then Some [octet1 x y, octet2 y z] else None)
               else (case base64_value d of None \<Rightarrow> None
                 | Some w \<Rightarrow> map_option (\<lambda>bs. [octet1 x y, octet2 y z, octet3 z w] @ bs)
                     (base64_groups rest)))
      | _ \<Rightarrow> None)"
| "base64_groups _ = None"

definition DecodeString :: "gostring \<Rightarrow> byte list option" where
  "DecodeString s = base64_groups (filter (\<lambda>b. b \<noteq> 10 \<and> b \<noteq> 13) s)"

datatype authErr = ErrProxyAuthRequired | ErrForbidden

datatype Authenticator = NoAuth | PasswordAuth gostring gostring

definition authenticatePassword :: "u64 \<Rightarrow> gostring \<Rightarrow> gostring \<Rightarrow> header \<Rightarrow> authErr + Extension" where
  "authenticatePassword now username password hdr =
     (let proxyAuth = header_Get hdr (bytes_of ''Proxy-Authorization'') in
      if proxyAuth = [] then Inl ErrProxyAuthRequired
      else if \<not> HasPrefix proxyAuth (bytes_of ''Basic '') then Inl ErrProxyAuthRequired
      else case DecodeString (TrimPrefix proxyAuth (bytes_of ''Basic '')) of
          None \<Rightarrow> Inl ErrProxyAuthRequired
        | Some authStr \<Rightarrow>
           (case cut_last 58 authStr of
              None \<Rightarrow> Inl ErrProxyAuthRequired
            | Some (authUsername, authPasswd) \<Rightarrow>
                if HasPrefix authUsername username \<and> authPasswd = password
                then Inr (TryFrom now username authUsername) else Inl ErrForbidden))"

definition http_Authenticate :: "u64 \<Rightarrow> Authenticator \<Rightarrow> header \<Rightarrow> authErr + Extension" where
  "http_Authenticate now a hdr = (case a of
      PasswordAuth u p \<Rightarrow> authenticatePassword now u p hdr
    | NoAuth \<Rightarrow> Inr None_ext)"

definition NewHandler_auth :: "AuthMode \<Rightarrow> Authenticator" where
  "NewHandler_auth a = (if HasAuth a then PasswordAuth (am_Username a) (am_Password a) else NoAuth)"

subsection \<open>Targets\<close>

text \<open>\<open>net.SplitHostPort\<close>; the errors only matter as errors.\<close>

definition net_SplitHostPort :: "gostring \<Rightarrow> (gostring \<times> gostring) option" where
  "net_SplitHostPort hp = (case cut_last 58 hp of
      None \<Rightarrow> None
    | Some (before, port) \<Rightarrow>
        if hd hp = 91 then
          (let host = takeWhile (\<lambda>b. b \<noteq> 93) (tl hp); after = drop (Suc (length host)) (tl hp) in
           if 93 \<notin> set hp then None
           else if after \<noteq> 58 # port then None
           else if 91 \<in> set (tl hp) \<or> 93 \<in> set after then None
           else Some (host, port))
        else if 58 \<in> set before then None
        else if 91 \<in> set hp \<or> 93 \<in> set hp then None
        else Some (before, port))"

definition parsePort :: "gostring \<Rightarrow> u16 res" where
  "parsePort s = (case ParseUint 16 s of None \<Rightarrow> Inl (Message ''invalid port'') | Some p \<Rightarrow> Inr (of_nat p))"

definition splitHostPort :: "gostring \<Rightarrow> (gostring \<times> u16) res" where
  "splitHostPort target =
     (if \<not> Contains target (bytes_of '':'') then Inl (Message ''missing port'')
      else case net_SplitHostPort target of
          None \<Rightarrow> Inl (Message ''address error'')
        | Some (host, portStr) \<Rightarrow> (case parsePort portStr of Inl e \<Rightarrow> Inl e | Inr port \<Rightarrow> Inr (host, port)))"

section \<open>Lemmas\<close>

subsection \<open>Headers\<close>

lemma foldl_header_Del: "foldl header_Del h ks k = (if k \<in> CanonicalHeaderKey ` set ks then None else h k)"
  by (induction ks arbitrary: h) (auto simp: header_Del_def)

lemma foldl_header_Del_trim:
  "foldl (\<lambda>h tok. header_Del h (f tok)) h toks k = (if k \<in> (\<lambda>t. CanonicalHeaderKey (f t)) ` set toks then None else h k)"
  by (induction toks arbitrary: h) (auto simp: header_Del_def)

lemma hopHeaders_canonical: "map CanonicalHeaderKey hopHeaders = hopHeaders"
  by code_simp

lemma hopHeaders_image: "CanonicalHeaderKey ` set hopHeaders = set hopHeaders"
  using arg_cong [OF hopHeaders_canonical, of set] by simp

definition connection_tokens :: "header \<Rightarrow> gostring set" where
  "connection_tokens h = (\<lambda>t. CanonicalHeaderKey (TrimSpace t)) ` set (split_on 44 (header_Get h (bytes_of ''Connection'')))"

lemma removeHopHeaders_apply:
  "removeHopHeaders h k =
     (if k \<in> set hopHeaders \<or> header_Get h (bytes_of ''Connection'') \<noteq> [] \<and> k \<in> connection_tokens h then None else h k)"
  by (auto simp: removeHopHeaders_def Let_def foldl_header_Del_trim foldl_header_Del hopHeaders_image connection_tokens_def)

subsection \<open>Base64\<close>

text \<open>\<open>base64.StdEncoding.EncodeToString\<close>, which a client uses.\<close>

definition base64_char :: "nat \<Rightarrow> byte" where
  "base64_char v =
     (if v < 26 then of_nat (v + 65) else if v < 52 then of_nat (v + 71) else if v < 62 then of_nat (v - 4)
      else if v = 62 then 43 else 47)"

definition sextet1 :: "byte \<Rightarrow> nat" where "sextet1 a = unat a div 4"
definition sextet2 :: "byte \<Rightarrow> byte \<Rightarrow> nat" where "sextet2 a b = unat a mod 4 * 16 + unat b div 16"
definition sextet3 :: "byte \<Rightarrow> byte \<Rightarrow> nat" where "sextet3 b c = unat b mod 16 * 4 + unat c div 64"
definition sextet4 :: "byte \<Rightarrow> nat" where "sextet4 c = unat c mod 64"

fun base64_encode :: "byte list \<Rightarrow> byte list" where
  "base64_encode [] = []"
| "base64_encode [a] = [base64_char (sextet1 a), base64_char (sextet2 a 0), 61, 61]"
| "base64_encode [a, b] = [base64_char (sextet1 a), base64_char (sextet2 a b), base64_char (sextet3 b 0), 61]"
| "base64_encode (a # b # c # rest) =
     [base64_char (sextet1 a), base64_char (sextet2 a b), base64_char (sextet3 b c), base64_char (sextet4 c)] @ base64_encode rest"

lemma base64_table:
  "list_all (\<lambda>v. base64_value (base64_char v) = Some v \<and> base64_char v \<noteq> 61 \<and> base64_char v \<noteq> 10 \<and> base64_char v \<noteq> 13) [0..<64]"
  by code_simp

lemma base64_char_ok:
  assumes "v < 64"
  shows "base64_value (base64_char v) = Some v" "base64_char v \<noteq> 61" "base64_char v \<noteq> 10" "base64_char v \<noteq> 13"
  using base64_table assms by (auto simp: list_all_iff)

lemma unat_byte: "unat (a :: byte) < 256"
  using unsigned_less [of a, where ?'a = nat] by simp

lemma byte_parts: "unat (a :: byte) div 4 < 64" "unat a div 16 < 16" "unat a div 64 < 4"
  using unat_byte [of a] by (simp_all add: less_mult_imp_div_less)

lemma sextet_less: "sextet1 a < 64" "sextet2 a b < 64" "sextet3 b c < 64" "sextet4 c < 64"
proof -
  have "unat a mod 4 < 4" "unat b mod 16 < 16" "unat c mod 64 < 64" by simp_all
  with byte_parts [of a] byte_parts [of b] byte_parts [of c]
  show "sextet1 a < 64" "sextet2 a b < 64" "sextet3 b c < 64" "sextet4 c < 64"
    unfolding sextet1_def sextet2_def sextet3_def sextet4_def by linarith+
qed

lemma join_digits: "q < n \<Longrightarrow> (m * n + q) div n = (m :: nat)" "q < n \<Longrightarrow> (m * n + q) mod n = q"
  by simp_all

lemma octet_sextet: "octet1 (sextet1 a) (sextet2 a b) = a" "octet2 (sextet2 a b) (sextet3 b c) = b" "octet3 (sextet3 b c) (sextet4 c) = c"
proof -
  note q = join_digits [OF byte_parts(2) [of b]] join_digits [OF byte_parts(3) [of c]]
  show "octet1 (sextet1 a) (sextet2 a b) = a" "octet2 (sextet2 a b) (sextet3 b c) = b" "octet3 (sextet3 b c) (sextet4 c) = c"
    unfolding octet1_def octet2_def octet3_def sextet1_def sextet2_def sextet3_def sextet4_def q div_mult_mod_eq by simp_all
qed

lemma base64_encode_no_newline: "filter (\<lambda>b. b \<noteq> 10 \<and> b \<noteq> 13) (base64_encode bs) = base64_encode bs"
  by (induction bs rule: base64_encode.induct) (simp_all add: base64_char_ok sextet_less)

lemma base64_groups_encode: "base64_groups (base64_encode bs) = Some bs"
  by (induction bs rule: base64_encode.induct) (simp_all add: base64_char_ok sextet_less octet_sextet)

lemma DecodeString_encode: "DecodeString (base64_encode bs) = Some bs"
  by (simp add: DecodeString_def base64_encode_no_newline base64_groups_encode)

subsection \<open>Credentials\<close>

lemma cut_last_None: "cut_last c s = None \<longleftrightarrow> c \<notin> set s"
proof (induction s)
  case (Cons b s)
  then show ?case by (cases "cut_last c s") auto
qed simp

lemma cut_last_SomeI: "c \<notin> set y \<Longrightarrow> cut_last c (x @ c # y) = Some (x, y)"
  using cut_last_None [of c y] by (induction x) simp_all

lemma cut_last_SomeD: "cut_last c s = Some (x, y) \<Longrightarrow> s = x @ c # y \<and> c \<notin> set y"
proof (induction s arbitrary: x)
  case (Cons b s)
  show ?case
  proof (cases "cut_last c s")
    case None
    with Cons.prems cut_last_None [of c s] show ?thesis by (simp split: if_splits)
  next
    case (Some xy)
    with Cons.prems Cons.IH [of "fst xy"] show ?thesis by (cases xy) simp
  qed
qed simp

lemma cut_last_Some: "cut_last c s = Some (x, y) \<longleftrightarrow> s = x @ c # y \<and> c \<notin> set y"
  using cut_last_SomeI cut_last_SomeD by blast

lemma authenticatePassword_iff:
  "authenticatePassword now u p hdr = Inr e \<longleftrightarrow>
     (\<exists>b au. header_Get hdr (bytes_of ''Proxy-Authorization'') = bytes_of ''Basic '' @ b \<and> DecodeString b = Some (au @ 58 # p) \<and>
        58 \<notin> set p \<and> HasPrefix au u \<and> e = TryFrom now u au)"
proof
  assume *: "authenticatePassword now u p hdr = Inr e"
  then obtain b where b: "header_Get hdr (bytes_of ''Proxy-Authorization'') = bytes_of ''Basic '' @ b"
    by (auto simp: authenticatePassword_def Let_def HasPrefix_iff split: if_splits)
  obtain au where "DecodeString b = Some (au @ 58 # p)" "58 \<notin> set p" "HasPrefix au u" "e = TryFrom now u au"
    using * unfolding authenticatePassword_def b
    by (auto simp: Let_def cut_last_Some split: if_splits option.splits)
  with b show "\<exists>b au. header_Get hdr (bytes_of ''Proxy-Authorization'') = bytes_of ''Basic '' @ b \<and> DecodeString b = Some (au @ 58 # p) \<and>
        58 \<notin> set p \<and> HasPrefix au u \<and> e = TryFrom now u au" by blast
next
  assume "\<exists>b au. header_Get hdr (bytes_of ''Proxy-Authorization'') = bytes_of ''Basic '' @ b \<and> DecodeString b = Some (au @ 58 # p) \<and>
        58 \<notin> set p \<and> HasPrefix au u \<and> e = TryFrom now u au"
  then obtain b au where b: "header_Get hdr (bytes_of ''Proxy-Authorization'') = bytes_of ''Basic '' @ b"
    and d: "DecodeString b = Some (au @ 58 # p)" "58 \<notin> set p" "HasPrefix au u" "e = TryFrom now u au" by blast
  from d(2) have "cut_last 58 (au @ 58 # p) = Some (au, p)" by (simp add: cut_last_Some)
  moreover have "bytes_of ''Basic '' @ b \<noteq> []" by (simp add: bytes_of_def)
  ultimately show "authenticatePassword now u p hdr = Inr e"
    unfolding authenticatePassword_def b using d by (simp add: Let_def)
qed

subsection \<open>Targets\<close>

lemma ParseUint_digits: "ParseUint n s = Some v \<Longrightarrow> list_all is_digit s"
  by (simp add: ParseUint_def split: if_splits)

lemma digits_no_sep: "list_all is_digit s \<Longrightarrow> 58 \<notin> set s \<and> 91 \<notin> set s \<and> 93 \<notin> set s"
  by (auto simp: list_all_iff is_digit_def)

lemma net_SplitHostPort_plain:
  assumes "58 \<notin> set host" "91 \<notin> set host" "93 \<notin> set host" "list_all is_digit port"
  shows "net_SplitHostPort (host @ 58 # port) = Some (host, port)"
proof -
  have "hd (host @ 58 # port) \<noteq> 91" using assms(2) by (cases host) auto
  with assms digits_no_sep [OF assms(4)] cut_last_SomeI [of 58 port host] show ?thesis
    by (simp add: net_SplitHostPort_def)
qed

lemma net_SplitHostPort_brackets:
  assumes "91 \<notin> set host" "93 \<notin> set host" "list_all is_digit port"
  shows "net_SplitHostPort (91 # host @ 93 # 58 # port) = Some (host, port)"
proof -
  have tw: "takeWhile (\<lambda>b. b \<noteq> 93) (host @ 93 # 58 # port) = host" using assms(2) by (induction host) auto
  have "cut_last 58 (91 # host @ 93 # 58 # port) = Some (91 # host @ [93], port)"
    using cut_last_SomeI [of 58 port "91 # host @ [93]"] digits_no_sep [OF assms(3)] by simp
  with assms digits_no_sep [OF assms(3)] show ?thesis by (simp add: net_SplitHostPort_def tw)
qed

lemma Contains_byte: "Contains s [c] \<longleftrightarrow> c \<in> set s"
  by (induction s) (auto simp: HasPrefix_def)

section \<open>Properties\<close>

text \<open>
  C12. Basic authentication is sound and complete: with a configured user name and password, a request is
  accepted exactly when its first \<open>Proxy-Authorization\<close> value is \<open>Basic\<close> with the Base64 of a user name that
  starts with the configured one, a colon and the configured password, which must not contain a colon;
  the extension is the one of that user name.
\<close>

theorem http_auth_iff:
  "http_Authenticate now (PasswordAuth u p) hdr = Inr e \<longleftrightarrow>
     (\<exists>b au. header_Get hdr (bytes_of ''Proxy-Authorization'') = bytes_of ''Basic '' @ b \<and> DecodeString b = Some (au @ 58 # p) \<and>
        58 \<notin> set p \<and> HasPrefix au u \<and> e = TryFrom now u au)"
  by (simp add: http_Authenticate_def authenticatePassword_iff)

text \<open>
  A client that encodes its credentials in the standard way is let in with the extension of its user
  name: decoding inverts the Base64 encoding for every byte string.
\<close>

theorem http_auth_roundtrip:
  assumes "header_Get hdr (bytes_of ''Proxy-Authorization'') = bytes_of ''Basic '' @ base64_encode (u @ sfx @ 58 # p)" "58 \<notin> set p"
  shows "http_Authenticate now (PasswordAuth u p) hdr = Inr (TryFrom now u (u @ sfx))"
proof -
  have "DecodeString (base64_encode (u @ sfx @ 58 # p)) = Some ((u @ sfx) @ 58 # p)" by (simp add: DecodeString_encode)
  moreover have "HasPrefix (u @ sfx) u" by simp
  ultimately show ?thesis using assms unfolding http_Authenticate_def by (auto simp: authenticatePassword_iff)
qed

definition sample_header :: header where
  "sample_header = [bytes_of ''Proxy-Authorization'' \<mapsto> [bytes_of ''Basic dTpw'']]"

theorem http_auth_roundtrip_witness:
  "http_Authenticate 0 (PasswordAuth [117] [112]) sample_header = Inr (TryFrom 0 [117] [117])"
proof -
  have "header_Get sample_header (bytes_of ''Proxy-Authorization'') = bytes_of ''Basic '' @ base64_encode ([117] @ [] @ 58 # [112])"
    by code_simp
  from http_auth_roundtrip [OF this, of 0] show ?thesis by simp
qed

text \<open>
  A configured password that contains a colon can never be used over HTTP: the credentials are split
  at the last colon, so every request is refused.
\<close>

theorem http_password_with_colon:
  assumes "u \<noteq> []" "58 \<in> set p"
  shows "\<exists>err. http_Authenticate now (NewHandler_auth \<lparr>am_Username = u, am_Password = p\<rparr>) hdr = Inl err"
proof -
  have "HasAuth \<lparr>am_Username = u, am_Password = p\<rparr>" using assms by (auto simp: HasAuth_def)
  then show ?thesis
    using authenticatePassword_iff [of now u p hdr] assms
    by (cases "authenticatePassword now u p hdr") (auto simp: NewHandler_auth_def http_Authenticate_def)
qed

theorem http_password_with_colon_witness:
  "\<exists>err. http_Authenticate 0 (NewHandler_auth \<lparr>am_Username = [117], am_Password = bytes_of ''a:b''\<rparr>)
     [bytes_of ''Proxy-Authorization'' \<mapsto> [bytes_of ''Basic '' @ base64_encode (bytes_of ''u:a:b'')]] = Inl err"
  by (rule http_password_with_colon) (simp_all add: bytes_of_def)

text \<open>
  Hop-by-hop headers are not forwarded: \<open>removeHopHeaders\<close> removes exactly the listed headers and those the
  first \<open>Connection\<close> value names, in any case and with white space around, and keeps every other header with all its
  values.
\<close>

theorem hop_headers_removed:
  "removeHopHeaders h k =
     (if k \<in> set hopHeaders \<or>
         header_Get h (bytes_of ''Connection'') \<noteq> [] \<and>
         k \<in> (\<lambda>t. CanonicalHeaderKey (TrimSpace t)) ` set (split_on 44 (header_Get h (bytes_of ''Connection'')))
      then None else h k)"
  by (simp add: removeHopHeaders_apply connection_tokens_def)

text \<open>
  Only the first \<open>Connection\<close> value is looked at: a header that a second \<open>Connection\<close> line names as hop-by-hop is
  forwarded.
\<close>

theorem second_connection_line_ignored:
  "removeHopHeaders [bytes_of ''Connection'' \<mapsto> [bytes_of ''close'', bytes_of ''X-Hop''], bytes_of ''X-Hop'' \<mapsto> [v]] (bytes_of ''X-Hop'') = Some [v]"
proof -
  let ?h = "[bytes_of ''Connection'' \<mapsto> [bytes_of ''close'', bytes_of ''X-Hop''], bytes_of ''X-Hop'' \<mapsto> [v]]"
  have ne: "bytes_of ''Connection'' \<noteq> bytes_of ''X-Hop''" "CanonicalHeaderKey (bytes_of ''Connection'') = bytes_of ''Connection''"
    "bytes_of ''X-Hop'' \<notin> set hopHeaders" "split_on 44 (bytes_of ''close'') = [bytes_of ''close'']"
    "CanonicalHeaderKey (TrimSpace (bytes_of ''close'')) \<noteq> bytes_of ''X-Hop''"
    by code_simp+
  then have "header_Get ?h (bytes_of ''Connection'') = bytes_of ''close''" by (simp add: header_Get_def)
  with ne show ?thesis by (simp add: removeHopHeaders_apply connection_tokens_def)
qed

text \<open>
  The target of a CONNECT request is split back into host and port: a host name or IPv4 address before
  a colon, or any bracketed host, and a decimal port below 65536.
\<close>

theorem splitHostPort_target:
  assumes "ParseUint 16 port = Some n" "91 \<notin> set host" "93 \<notin> set host"
  shows "splitHostPort (91 # host @ 93 # 58 # port) = Inr (host, of_nat n) \<and>
    (58 \<notin> set host \<longrightarrow> splitHostPort (host @ 58 # port) = Inr (host, of_nat n))"
  using net_SplitHostPort_brackets [OF assms(2,3) ParseUint_digits [OF assms(1)]]
    net_SplitHostPort_plain [OF _ assms(2,3) ParseUint_digits [OF assms(1)]] assms(1)
  by (simp add: splitHostPort_def parsePort_def Contains_byte bytes_of_def)

theorem splitHostPort_target_witness:
  "splitHostPort (91 # bytes_of ''2001:db8::1'' @ 93 # 58 # bytes_of ''443'') = Inr (bytes_of ''2001:db8::1'', 443)"
proof -
  have "ParseUint 16 (bytes_of ''443'') = Some 443" by (simp add: ParseUint_def bytes_of_def is_digit_def digits_value_def)
  from splitHostPort_target [OF this, of "bytes_of ''2001:db8::1''"] show ?thesis by (simp add: bytes_of_def)
qed

end
