(* ===== verification/TransportPool.thy ===== *)
theory TransportPool
  imports HttpAuth Dial "HOL-Library.Multiset" "HOL-Library.AList"
begin

text \<open>
  Model of the pool of HTTP transports of \<open>internal/server/http/server.go\<close>: one transport for each extension, so
  that idle connections are only reused for the same source address, at most 128 of them, the least
  recently used one evicted first.
\<close>

section \<open>Definitions\<close>

text \<open>A transport is a pointer, here a number, with the extension its dials use.\<close>

record transport =
  tr_id :: nat
  tr_ext :: Extension
  tr_MaxIdleConns :: nat
  tr_MaxIdleConnsPerHost :: nat

record transportEntry =
  te_transport :: transport
  te_lastUsed :: u64

record transportPool =
  tp_entries :: "(Extension \<times> transportEntry) list"
  tp_clock :: u64
  tp_default :: transport
  tp_next :: nat
  tp_idleClosed :: "transport list"

definition maxTransportEntries :: nat where
  "maxTransportEntries = 128"

definition newTransport :: "nat \<Rightarrow> Extension \<Rightarrow> transport" where
  "newTransport n e = \<lparr>tr_id = n, tr_ext = e,
     tr_MaxIdleConns = (if ext_type e = ExtNone then 1024 else 16),
     tr_MaxIdleConnsPerHost = (if ext_type e = ExtNone then 128 else 8)\<rparr>"

definition newTransportPool :: transportPool where
  "newTransportPool = \<lparr>tp_entries = [], tp_clock = 0, tp_default = newTransport 0 None_ext, tp_next = 1, tp_idleClosed = []\<rparr>"

text \<open>\<open>iter\<close> is the order in which the loop visits the entries of the Go map.\<close>

definition oldest_entry :: "(Extension \<times> transportEntry) list \<Rightarrow> (Extension \<times> transportEntry) option" where
  "oldest_entry = foldl (\<lambda>old c. case old of
      None \<Rightarrow> Some c
    | Some o' \<Rightarrow> if te_lastUsed (snd c) < te_lastUsed (snd o') then Some c else Some o') None"

definition evict_oldest ::
    "((Extension \<times> transportEntry) list \<Rightarrow> (Extension \<times> transportEntry) list) \<Rightarrow> transportPool \<Rightarrow> transportPool" where
  "evict_oldest iter p =
     (if maxTransportEntries \<le> length (tp_entries p)
      then (case oldest_entry (iter (tp_entries p)) of
          None \<Rightarrow> p
        | Some (e, en) \<Rightarrow> p\<lparr>tp_entries := filter (\<lambda>x. fst x \<noteq> e) (tp_entries p), tp_idleClosed := te_transport en # tp_idleClosed p\<rparr>)
      else p)"

definition pool_Get ::
    "((Extension \<times> transportEntry) list \<Rightarrow> (Extension \<times> transportEntry) list) \<Rightarrow> transportPool \<Rightarrow> Extension \<Rightarrow> transport \<times> transportPool" where
  "pool_Get iter p e =
     (if ext_type e = ExtNone then (tp_default p, p)
      else let p = p\<lparr>tp_clock := tp_clock p + 1\<rparr> in
        case map_of (tp_entries p) e of
          Some en \<Rightarrow> (te_transport en, p\<lparr>tp_entries := AList.update e (en\<lparr>te_lastUsed := tp_clock p\<rparr>) (tp_entries p)\<rparr>)
        | None \<Rightarrow>
           (let p = evict_oldest iter p; t = newTransport (tp_next p) e in
            (t, p\<lparr>tp_entries := (e, \<lparr>te_transport = t, te_lastUsed = tp_clock p\<rparr>) # tp_entries p, tp_next := Suc (tp_next p)\<rparr>)))"

definition transport_dialContext :: "(Extension \<Rightarrow> TargetAddr \<Rightarrow> 'c res) \<Rightarrow> Extension \<Rightarrow> gostring \<Rightarrow> 'c res" where
  "transport_dialContext connect e address = (case net_SplitHostPort address of
      None \<Rightarrow> Inl (Message ''address error'')
    | Some (host, portString) \<Rightarrow>
       (case ParseUint 16 portString of
          None \<Rightarrow> Inl (Message ''invalid target port'')
        | Some port \<Rightarrow> if port = 0 then Inl (Message ''invalid target port'') else connect e (FromHost host (of_nat port))))"

definition pool_CloseIdleConnections :: "transportPool \<Rightarrow> transport list" where
  "pool_CloseIdleConnections p = tp_default p # map (te_transport \<circ> snd) (tp_entries p)"

text \<open>A sequence of requests with the extensions \<open>es\<close>: the transports they get, and the pool afterwards.\<close>

fun pool_Gets ::
    "((Extension \<times> transportEntry) list \<Rightarrow> (Extension \<times> transportEntry) list) \<Rightarrow> transportPool \<Rightarrow> Extension list \<Rightarrow> transport list \<times> transportPool" where
  "pool_Gets iter p [] = ([], p)"
| "pool_Gets iter p (e # es) =
     (let (t, p) = pool_Get iter p e; (ts, p) = pool_Gets iter p es in (t # ts, p))"

section \<open>The abstract cache\<close>

text \<open>
  The specification: a list of extensions, the most recently used one first. \<open>recent\<close> is the whole history,
  of which the pool keeps the first 128.
\<close>

definition lru_use :: "nat \<Rightarrow> 'a \<Rightarrow> 'a list \<Rightarrow> 'a list" where
  "lru_use n e ks = (if e \<in> set ks then e # remove1 e ks else e # (if n \<le> length ks then butlast ks else ks))"

fun recent :: "'a list \<Rightarrow> 'a list" where
  "recent [] = []"
| "recent (e # es) = e # removeAll e (recent es)"

lemma recent_distinct [simp]: "distinct (recent es)" "set (recent es) = set es"
  by (induction es) (auto simp: distinct_removeAll)

lemma remove1_take:
  assumes "distinct ks" "e \<in> set (take (Suc n) ks)"
  shows "remove1 e (take (Suc n) ks) = take n (removeAll e ks)"
  using assms
proof (induction ks arbitrary: n)
  case (Cons k ks)
  show ?case
  proof (cases "k = e")
    case True
    with Cons.prems show ?thesis by simp
  next
    case False
    with Cons.prems obtain m where "n = Suc m" by (cases n) auto
    with Cons.IH [of m] Cons.prems False show ?thesis by simp
  qed
qed simp

lemma take_removeAll_less: "e \<notin> set (take (Suc n) ks) \<Longrightarrow> take n (removeAll e ks) = take n ks"
proof (induction ks arbitrary: n)
  case (Cons k ks)
  then show ?case by (cases n) auto
qed simp

lemma lru_use_recent:
  assumes "0 < n"
  shows "lru_use n e (take n (recent es)) = take n (recent (e # es))"
proof -
  obtain m where m: "n = Suc m" using assms by (cases n) auto
  show ?thesis
  proof (cases "e \<in> set (take n (recent es))")
    case True
    with m remove1_take [of "recent es" e m] show ?thesis by (simp add: lru_use_def)
  next
    case False
    have "(if n \<le> length (take n (recent es)) then butlast (take n (recent es)) else take n (recent es)) = take m (recent es)"
      using m by (auto simp: butlast_take)
    with False m take_removeAll_less [of e m "recent es"] show ?thesis by (simp add: lru_use_def butlast_take)
  qed
qed

section \<open>Refinement\<close>

text \<open>
  The entries of the pool, ordered by their last use, are the abstract list; the clock has not wrapped.
  Every entry's transport was made for its extension.
\<close>

definition used_by :: "Extension \<times> transportEntry \<Rightarrow> u64" where
  "used_by x = te_lastUsed (snd x)"

definition entry_ok :: "transportPool \<Rightarrow> Extension \<times> transportEntry \<Rightarrow> bool" where
  "entry_ok p x \<longleftrightarrow> used_by x \<le> tp_clock p \<and> tr_ext (te_transport (snd x)) = fst x \<and> ext_type (fst x) \<noteq> ExtNone"

definition pool_list :: "transportPool \<Rightarrow> (Extension \<times> transportEntry) list \<Rightarrow> bool" where
  "pool_list p xs \<longleftrightarrow> mset (tp_entries p) = mset xs \<and> distinct (map fst xs) \<and> length xs \<le> maxTransportEntries \<and>
     sorted_wrt (\<lambda>a b. used_by b < used_by a) xs \<and> (\<forall>x \<in> set xs. entry_ok p x) \<and> tr_ext (tp_default p) = None_ext"

lemma oldest_fold:
  assumes "x \<in> insert o' (set l)" "\<forall>y \<in> insert o' (set l). y \<noteq> x \<longrightarrow> used_by x < used_by y"
  shows "foldl (\<lambda>old c. case old of None \<Rightarrow> Some c
      | Some o' \<Rightarrow> if te_lastUsed (snd c) < te_lastUsed (snd o') then Some c else Some o') (Some o') l = Some x"
  using assms
proof (induction l arbitrary: o')
  case (Cons c l)
  let ?o = "if te_lastUsed (snd c) < te_lastUsed (snd o') then c else o'"
  have "x \<in> insert ?o (set l)"
    using Cons.prems by (auto simp: used_by_def dest: less_asym)
  with Cons.IH [of ?o] Cons.prems(2) show ?case by (auto split: if_splits)
qed simp

lemma oldest_entry_last:
  assumes "set l = set (xs @ [x])" "\<forall>y \<in> set xs. used_by x < used_by y"
  shows "oldest_entry l = Some x"
proof -
  obtain c l' where l: "l = c # l'" using assms(1) by (cases l) auto
  have "x \<in> insert c (set l') \<and> (\<forall>y \<in> insert c (set l'). y \<noteq> x \<longrightarrow> used_by x < used_by y)"
    using assms l by auto
  with oldest_fold [of x c l'] show ?thesis by (simp add: oldest_entry_def l)
qed

lemma mset_AList_update:
  assumes "distinct (map fst al)" "map_of al e = Some en"
  shows "mset (AList.update e v al) + {#(e, en)#} = mset al + {#(e, v)#}"
  using assms by (induction al) (auto simp: dom_map_of_conv_image_fst)

lemma pool_list_map_of:
  assumes "pool_list p xs"
  shows "map_of (tp_entries p) = map_of xs" "distinct (map fst (tp_entries p))"
proof -
  have m: "mset (tp_entries p) = mset xs" "distinct (map fst xs)" using assms by (simp_all add: pool_list_def)
  have "mset (map fst (tp_entries p)) = mset (map fst xs)" using m(1) by simp
  with m(2) show d: "distinct (map fst (tp_entries p))" by (metis mset_eq_imp_distinct_iff)
  from m(1) have "set (tp_entries p) = set xs" by (rule mset_eq_setD)
  with d m(2) show "map_of (tp_entries p) = map_of xs" by (metis map_of_inject_set)
qed

lemma clock_tick:
  assumes "unat (c :: u64) < 2 ^ 64 - 1" "x \<le> c"
  shows "x < c + 1"
proof -
  have "unat (c + 1) = Suc (unat c)" using assms(1) by (simp add: unat_word_ariths)
  with assms(2) show ?thesis by (simp add: word_le_nat_alt word_less_nat_alt)
qed

text \<open>A hit moves the entry to the front.\<close>

lemma pool_Get_hit:
  assumes "pool_list p (xs @ (e, en) # ys)" "unat (tp_clock p) < 2 ^ 64 - 1" "ext_type e \<noteq> ExtNone"
  shows "\<exists>en'. fst (pool_Get iter p e) = te_transport en \<and> tr_ext (te_transport en) = e \<and> te_transport en' = te_transport en \<and>
    pool_list (snd (pool_Get iter p e)) ((e, en') # xs @ ys) \<and> tp_clock (snd (pool_Get iter p e)) = tp_clock p + 1"
proof -
  let ?c = "tp_clock p + 1" let ?en = "en\<lparr>te_lastUsed := ?c\<rparr>"
  have mo: "map_of (tp_entries p) e = Some en"
    using pool_list_map_of(1) [OF assms(1)] assms(1) by (auto simp: pool_list_def map_add_Some_iff map_of_eq_None_iff)
  have ms: "mset (AList.update e ?en (tp_entries p)) + {#(e, en)#} = mset (tp_entries p) + {#(e, ?en)#}"
    by (rule mset_AList_update [OF pool_list_map_of(2) [OF assms(1)] mo])
  have less: "used_by x < ?c" if "x \<in> set (xs @ ys)" for x
    using clock_tick [OF assms(2)] assms(1) that by (auto simp: pool_list_def entry_ok_def)
  show ?thesis
    using assms mo ms less by (auto simp: pool_Get_def pool_list_def entry_ok_def used_by_def sorted_wrt_append intro: less_imp_le)
qed

lemma sorted_wrt_last:
  assumes "sorted_wrt R (xs @ [x])"
  shows "\<forall>y \<in> set xs. R y x"
  using assms by (simp add: sorted_wrt_append)

text \<open>A miss evicts the last entry of a full pool and adds a new one in front.\<close>

lemma evict_oldest_list:
  assumes "pool_list p xs" "\<forall>l. set (iter l) = set l"
  shows "pool_list (evict_oldest iter p) (if maxTransportEntries \<le> length xs then butlast xs else xs) \<and>
    tp_clock (evict_oldest iter p) = tp_clock p \<and> tp_next (evict_oldest iter p) = tp_next p"
proof (cases "maxTransportEntries \<le> length xs")
  case True
  then obtain ys y where xs: "xs = ys @ [y]" by (cases xs rule: rev_cases) (auto simp: maxTransportEntries_def)
  have ms: "mset (tp_entries p) = mset xs" and d: "distinct (map fst xs)" using assms(1) by (simp_all add: pool_list_def)
  have "set (iter (tp_entries p)) = set (ys @ [y])" using assms(2) mset_eq_setD [OF ms] xs by simp
  then have o: "oldest_entry (iter (tp_entries p)) = Some y"
    using sorted_wrt_last [of _ ys y] assms(1) xs by (intro oldest_entry_last) (auto simp: pool_list_def)
  have "mset (filter (\<lambda>x. fst x \<noteq> fst y) (tp_entries p)) = mset (filter (\<lambda>x. fst x \<noteq> fst y) xs)" using ms by simp
  also have "\<forall>x \<in> set ys. fst x \<noteq> fst y" using d xs by (auto dest: keysI)
  then have "filter (\<lambda>x. fst x \<noteq> fst y) xs = ys" using xs by simp
  finally have "mset (filter (\<lambda>x. fst x \<noteq> fst y) (tp_entries p)) = mset ys" .
  moreover have "length (tp_entries p) = length xs" using mset_eq_length [OF ms] .
  ultimately show ?thesis using True o assms(1) xs
    by (cases y) (auto simp: evict_oldest_def pool_list_def entry_ok_def sorted_wrt_append)
next
  case False
  moreover have "length (tp_entries p) = length xs" using assms(1) by (auto simp: pool_list_def dest: mset_eq_length)
  ultimately show ?thesis using assms(1) by (simp add: evict_oldest_def)
qed

lemma pool_Get_miss:
  assumes "pool_list p xs" "e \<notin> fst ` set xs" "unat (tp_clock p) < 2 ^ 64 - 1" "ext_type e \<noteq> ExtNone" "\<forall>l. set (iter l) = set l"
  shows "\<exists>en. tr_ext (fst (pool_Get iter p e)) = e \<and>
    pool_list (snd (pool_Get iter p e)) ((e, en) # (if maxTransportEntries \<le> length xs then butlast xs else xs)) \<and>
    tp_clock (snd (pool_Get iter p e)) = tp_clock p + 1"
proof -
  let ?p = "p\<lparr>tp_clock := tp_clock p + 1\<rparr>" let ?xs = "if maxTransportEntries \<le> length xs then butlast xs else xs"
  let ?q = "evict_oldest iter ?p"
  have less: "used_by x < tp_clock p + 1" if "x \<in> set xs" for x
    using clock_tick [OF assms(3)] assms(1) that by (simp add: pool_list_def entry_ok_def)
  then have "pool_list ?p xs" using assms(1) by (auto simp: pool_list_def entry_ok_def intro: less_imp_le)
  from evict_oldest_list [OF this assms(5)] have q: "pool_list ?q ?xs" "tp_clock ?q = tp_clock p + 1" by auto
  have mo: "map_of (tp_entries p) e = None"
    using pool_list_map_of(1) [OF assms(1)] assms(2) by (simp add: map_of_eq_None_iff)
  have sub: "set ?xs \<subseteq> set xs" by (auto dest: in_set_butlastD)
  then have notin: "e \<notin> fst ` set ?xs" using assms(2) by blast
  have len: "length ?xs < maxTransportEntries" using assms(1) by (auto simp: pool_list_def maxTransportEntries_def)
  let ?en = "\<lparr>te_transport = newTransport (tp_next ?q) e, te_lastUsed = tp_clock p + 1\<rparr>"
  have get: "pool_Get iter p e = (newTransport (tp_next ?q) e, ?q\<lparr>tp_entries := (e, ?en) # tp_entries ?q, tp_next := Suc (tp_next ?q)\<rparr>)"
    using assms(4) mo q(2) by (simp add: pool_Get_def Let_def)
  have "pool_list (?q\<lparr>tp_entries := (e, ?en) # tp_entries ?q, tp_next := Suc (tp_next ?q)\<rparr>) ((e, ?en) # ?xs)"
    using q len sub notin assms(4) less unfolding pool_list_def
    by (auto simp: entry_ok_def used_by_def newTransport_def split del: if_split)
  then show ?thesis unfolding get by (auto simp: newTransport_def q(2))
qed

definition pool_rel :: "transportPool \<Rightarrow> Extension list \<Rightarrow> bool" where
  "pool_rel p ks \<longleftrightarrow> (\<exists>xs. pool_list p xs \<and> map fst xs = ks)"

lemma pool_Get_refines:
  assumes "pool_rel p ks" "unat (tp_clock p) < 2 ^ 64 - 1" "ext_type e \<noteq> ExtNone" "\<forall>l. set (iter l) = set l"
    "pool_Get iter p e = (t, p')"
  shows "tr_ext t = e \<and> pool_rel p' (lru_use maxTransportEntries e ks) \<and> tp_clock p' = tp_clock p + 1"
proof -
  obtain xs where xs: "pool_list p xs" "map fst xs = ks" using assms(1) by (auto simp: pool_rel_def)
  show ?thesis
  proof (cases "e \<in> set ks")
    case True
    then obtain en where "(e, en) \<in> set xs" using xs(2) by (auto simp: keys_def simp del: keys_fold)
    then obtain as bs where s: "xs = as @ (e, en) # bs" by (meson split_list)
    with xs have "remove1 e ks = map fst (as @ bs)" by (auto simp: pool_list_def remove1_append dest: keysI)
    with True pool_Get_hit [of p as e en bs iter] xs s assms show ?thesis
      by (auto simp: pool_rel_def lru_use_def intro!: exI)
  next
    case False
    with xs have "e \<notin> fst ` set xs" by auto
    from pool_Get_miss [OF xs(1) this assms(2-4)] xs(2) False assms(5) show ?thesis
      by (auto simp: pool_rel_def lru_use_def map_butlast intro!: exI)
  qed
qed

lemma pool_Gets_refines:
  assumes "pool_rel p (take maxTransportEntries (recent h))" "unat (tp_clock p) + length es < 2 ^ 64" "\<forall>l. set (iter l) = set l"
    "tr_ext (tp_default p) = None_ext" "pool_Gets iter p es = (ts, p')"
  shows "map tr_ext ts = map (\<lambda>e. if ext_type e = ExtNone then None_ext else e) es \<and>
    pool_rel p' (take maxTransportEntries (recent (rev (filter (\<lambda>e. ext_type e \<noteq> ExtNone) es) @ h)))"
  using assms
proof (induction es arbitrary: p h ts)
  case (Cons e es)
  obtain t q where g: "pool_Get iter p e = (t, q)" by fastforce
  obtain us where us: "pool_Gets iter q es = (us, p')" "ts = t # us"
    using Cons.prems(5) g by (auto split: prod.splits)
  show ?case
  proof (cases "ext_type e = ExtNone")
    case True
    with g have "t = tp_default p" "q = p" by (auto simp: pool_Get_def)
    with Cons.IH [of p h us] Cons.prems us True show ?thesis by simp
  next
    case False
    have c: "unat (tp_clock p) < 2 ^ 64 - 1" using Cons.prems(2) by simp
    from pool_Get_refines [OF Cons.prems(1) c False Cons.prems(3) g]
    have t: "tr_ext t = e" and q: "pool_rel q (take maxTransportEntries (recent (e # h)))" "tp_clock q = tp_clock p + 1"
      using lru_use_recent [of maxTransportEntries e h] by (auto simp: maxTransportEntries_def)
    have "unat (tp_clock q) + length es < 2 ^ 64" using Cons.prems(2) c q(2) by (simp add: unat_word_ariths)
    moreover have "tr_ext (tp_default q) = None_ext" using q(1) by (auto simp: pool_rel_def pool_list_def)
    ultimately show ?thesis using Cons.IH [of q "e # h" us] q(1) Cons.prems(3) us t False by simp
  qed
qed simp

lemma newTransportPool_rel: "pool_rel newTransportPool (take maxTransportEntries (recent []))"
  by (simp add: pool_rel_def pool_list_def newTransportPool_def newTransport_def)

section \<open>Properties\<close>

text \<open>
  C16. The pool of transports is a least-recently-used cache: for fewer than \<open>2^64\<close> requests, in any order of
  extensions and whatever order the map is iterated in, every request gets a transport that dials with
  its own extension, so that connections with different source addresses are never mixed, and the pool
  holds exactly the 128 most recently requested extensions.
\<close>

theorem transport_pool_lru:
  assumes "\<forall>l. set (iter l) = set l" "length es < 2 ^ 64" "pool_Gets iter newTransportPool es = (ts, p)"
  shows "map tr_ext ts = map (\<lambda>e. if ext_type e = ExtNone then None_ext else e) es \<and>
    set (map fst (tp_entries p)) = set (take 128 (recent (rev (filter (\<lambda>e. ext_type e \<noteq> ExtNone) es)))) \<and>
    length (tp_entries p) \<le> 128"
proof -
  have "tr_ext (tp_default newTransportPool) = None_ext" "unat (tp_clock newTransportPool) + length es < 2 ^ 64"
    using assms(2) by (simp_all add: newTransportPool_def newTransport_def)
  from pool_Gets_refines [OF newTransportPool_rel this(2) assms(1) this(1) assms(3)]
  have ts: "map tr_ext ts = map (\<lambda>e. if ext_type e = ExtNone then None_ext else e) es"
    and rel: "pool_rel p (take 128 (recent (rev (filter (\<lambda>e. ext_type e \<noteq> ExtNone) es))))"
    by (simp_all add: maxTransportEntries_def)
  then obtain xs where xs: "pool_list p xs" "map fst xs = take 128 (recent (rev (filter (\<lambda>e. ext_type e \<noteq> ExtNone) es)))"
    by (auto simp: pool_rel_def)
  have "mset (map fst (tp_entries p)) = mset (map fst xs)" "length (tp_entries p) = length xs"
    using xs(1) mset_eq_length [of "tp_entries p" xs] by (simp_all add: pool_list_def)
  then have "set (map fst (tp_entries p)) = set (map fst xs)" by (metis mset_eq_setD)
  with ts xs \<open>length (tp_entries p) = length xs\<close> show ?thesis by (simp add: pool_list_def maxTransportEntries_def)
qed

theorem transport_pool_lru_witness:
  "let e1 = \<lparr>ext_type = ExtSession, ext_value = 1\<rparr>; e2 = \<lparr>ext_type = ExtRange, ext_value = 2\<rparr>; (ts, p) = pool_Gets rev newTransportPool [e1, None_ext, e2, e1]
   in map tr_ext ts = [e1, None_ext, e2, e1] \<and> set (map fst (tp_entries p)) = {e1, e2}"
proof -
  let ?e1 = "\<lparr>ext_type = ExtSession, ext_value = 1\<rparr>" and ?e2 = "\<lparr>ext_type = ExtRange, ext_value = 2\<rparr>"
  obtain ts p where g: "pool_Gets rev newTransportPool [?e1, None_ext, ?e2, ?e1] = (ts, p)" by fastforce
  have "\<forall>l. set (rev l) = set l" "length [?e1, None_ext, ?e2, ?e1] < 2 ^ 64" by simp_all
  from transport_pool_lru [OF this g] show ?thesis unfolding Let_def g by (auto simp: None_ext_def)
qed

end
