(* ===== verification/Http.thy ===== *)
theory Http
  imports Session TransportPool
begin

text \<open>
  Model of the handler and the request loop of \<open>internal/server/http/server.go\<close>, and of the dispatch by the first
  byte in \<open>internal/server/auto.go\<close>: CONNECT tunnels, forwarding through the pool of transports, the loop over
  the requests of a connection. The round trip of a transport is a parameter.
\<close>

section \<open>Definitions\<close>

subsection \<open>The handler\<close>

text \<open>
  A parsed request; an URL is absolute when its scheme is not empty. \<open>rq_AtLeast11\<close> is \<open>ProtoAtLeast(1, 1)\<close>.
  \<open>writeResponse\<close> is a value of its own; a relayed response is what \<open>resp.Write\<close> gets.
\<close>

record request =
  rq_Method :: gostring
  rq_URL_Scheme :: gostring
  rq_URL_Host :: gostring
  rq_Host :: gostring
  rq_Header :: header
  rq_AtLeast11 :: bool
  rq_Close :: bool

record response =
  rs_StatusCode :: nat
  rs_Header :: header
  rs_Body :: "byte list"
  rs_AtLeast11 :: bool
  rs_Close :: bool

datatype reply_to_client = WriteResponse nat gostring | Relayed response

text \<open>What the environment answers to one request; \<open>he_rest\<close> is what the client sends behind it.\<close>

record http_env =
  he_now :: u64
  he_iter :: "(Extension \<times> transportEntry) list \<Rightarrow> (Extension \<times> transportEntry) list"
  he_connect :: "Extension \<Rightarrow> TargetAddr \<Rightarrow> unit res"
  he_pulled :: nat
  he_copyN :: "byte list \<Rightarrow> (nat \<times> go_error) option"
  he_rest :: "byte list"
  he_RoundTrip :: "transport \<Rightarrow> request \<Rightarrow> response res"
  he_Write :: "response \<Rightarrow> go_error option"

record proxy_result =
  pr_keepAlive :: bool
  pr_err :: "go_error option"
  pr_replies :: "reply_to_client list"
  pr_effects :: "effect list"
  pr_pool :: transportPool

definition http_handleConnect :: "http_env \<Rightarrow> request \<Rightarrow> Extension \<Rightarrow> transportPool \<Rightarrow> proxy_result" where
  "http_handleConnect en req e pool =
     (let target = (if rq_URL_Host req = [] then rq_Host req else rq_URL_Host req);
          result = (\<lambda>err replies effects. \<lparr>pr_keepAlive = False, pr_err = err, pr_replies = replies, pr_effects = effects, pr_pool = pool\<rparr>);
          bad = result None [WriteResponse 400 (bytes_of ''CONNECT must be to a socket address'')] []
      in if target = [] then bad
         else case splitHostPort target of
            Inl _ \<Rightarrow> bad
          | Inr (host, port) \<Rightarrow>
             (case he_connect en e (FromHost host port) of
                Inl err \<Rightarrow> result (Some err) [WriteResponse 502 []] []
              | Inr _ \<Rightarrow>
                 (case drain_ahead (he_pulled en) (he_copyN en) (he_rest en) of
                    (Some err, es, _) \<Rightarrow> result (Some err) [WriteResponse 200 []] ([Opened Outbound] @ es @ [Closed Outbound])
                  | (None, es, rest) \<Rightarrow> result None [WriteResponse 200 []]
                      ([Opened Outbound] @ es @ [Splice rest, ClosedWrite Outbound, Closed Outbound, ClosedWrite Client]))))"

text \<open>\<open>forwardRequest\<close>: the outbound request, the handling of the round trip's result, and the whole.\<close>

definition outbound_request :: "request \<Rightarrow> request" where
  "outbound_request req =
     (let outReq = (if rq_URL_Scheme req = []
            then req\<lparr>rq_URL_Host := (if rq_Host req \<noteq> [] then rq_Host req else rq_URL_Host req), rq_URL_Scheme := bytes_of ''http''\<rparr>
            else req)
      in outReq\<lparr>rq_Header := removeHopHeaders (rq_Header outReq)\<rparr>)"

definition relay_response :: "http_env \<Rightarrow> request \<Rightarrow> transportPool \<Rightarrow> response res \<Rightarrow> proxy_result" where
  "relay_response en req pool rt = (case rt of
      Inl err \<Rightarrow> \<lparr>pr_keepAlive = False, pr_err = Some err, pr_replies = [WriteResponse 502 []], pr_effects = [], pr_pool = pool\<rparr>
    | Inr resp \<Rightarrow>
       (let resp = resp\<lparr>rs_Header := removeHopHeaders (rs_Header resp)\<rparr> in
        case he_Write en resp of
          Some err \<Rightarrow> \<lparr>pr_keepAlive = False, pr_err = Some err, pr_replies = [Relayed resp], pr_effects = [], pr_pool = pool\<rparr>
        | None \<Rightarrow> \<lparr>pr_keepAlive = (rq_AtLeast11 req \<and> rs_AtLeast11 resp \<and> \<not> rq_Close req \<and> \<not> rs_Close resp),
            pr_err = None, pr_replies = [Relayed resp], pr_effects = [], pr_pool = pool\<rparr>))"

definition forwardRequest :: "http_env \<Rightarrow> request \<Rightarrow> Extension \<Rightarrow> transportPool \<Rightarrow> proxy_result" where
  "forwardRequest en req e pool =
     (case pool_Get (he_iter en) pool e of
        (t, pool) \<Rightarrow> relay_response en req pool (he_RoundTrip en t (outbound_request req)))"

definition Proxy :: "http_env \<Rightarrow> Authenticator \<Rightarrow> transportPool \<Rightarrow> request \<Rightarrow> proxy_result" where
  "Proxy en auth pool req = (case http_Authenticate (he_now en) auth (rq_Header req) of
      Inl err \<Rightarrow> \<lparr>pr_keepAlive = False, pr_err = None,
          pr_replies = [WriteResponse (case err of ErrProxyAuthRequired \<Rightarrow> 407 | ErrForbidden \<Rightarrow> 403) []],
          pr_effects = [], pr_pool = pool\<rparr>
    | Inr e \<Rightarrow> if rq_Method req = bytes_of ''CONNECT'' then http_handleConnect en req e pool
        else forwardRequest en req e pool)"

text \<open>
  The request loop of \<open>HttpServer.accept\<close>, and that of \<open>serveHTTP\<close> and \<open>serveHTTPS\<close> of the auto-detecting server. The list
  holds the results of \<open>ReadRequest\<close>; when it is exhausted, the client has closed its side.
\<close>

fun serve_loop :: "Authenticator \<Rightarrow> transportPool \<Rightarrow> (http_env \<times> request res) list \<Rightarrow> reply_to_client list \<times> effect list \<times> transportPool" where
  "serve_loop auth pool [] = ([], [Closed Client], pool)"
| "serve_loop auth pool ((en, Inl err) # reqs) = ([], [Closed Client], pool)"
| "serve_loop auth pool ((en, Inr req) # reqs) =
     (let r = Proxy en auth pool req in
      if pr_err r \<noteq> None then (pr_replies r, pr_effects r @ [Closed Client], pr_pool r)
      else if \<not> pr_keepAlive r then (pr_replies r, pr_effects r @ [Closed Client], pr_pool r)
      else case serve_loop auth (pr_pool r) reqs of (ws, es, pool) \<Rightarrow> (pr_replies r @ ws, pr_effects r @ es, pool))"

fun auto_serveHTTP :: "Authenticator \<Rightarrow> transportPool \<Rightarrow> (http_env \<times> request res) list \<Rightarrow> reply_to_client list \<times> effect list \<times> transportPool" where
  "auto_serveHTTP auth pool [] = ([], [Closed Client], pool)"
| "auto_serveHTTP auth pool ((en, Inl err) # reqs) = ([], [Closed Client], pool)"
| "auto_serveHTTP auth pool ((en, Inr req) # reqs) =
     (let r = Proxy en auth pool req in
      if \<not> pr_keepAlive r then (pr_replies r, pr_effects r @ [Closed Client], pr_pool r)
      else case auto_serveHTTP auth (pr_pool r) reqs of (ws, es, pool) \<Rightarrow> (pr_replies r @ ws, pr_effects r @ es, pool))"

text \<open>
  \<open>HttpServer.accept\<close>: with TLS, a slot of the handshake gate is held during the handshake only. \<open>wait\<close> and \<open>don\<close> are
  as for \<open>AcquireUntil\<close>; the gate after the call is part of the result.
\<close>

definition tls_handshake :: "ConnectionGate \<Rightarrow> ConnectionGate option \<Rightarrow> bool \<Rightarrow> bool \<Rightarrow> bool \<times> ConnectionGate" where
  "tls_handshake tlsGate wait don ok = (case AcquireUntil tlsGate wait don of
      (False, g) \<Rightarrow> (False, g)
    | (True, g) \<Rightarrow> (ok, case Release g of Some g \<Rightarrow> g | None \<Rightarrow> g))"

definition http_accept ::
    "bool \<Rightarrow> ConnectionGate \<Rightarrow> ConnectionGate option \<Rightarrow> bool \<Rightarrow> bool \<Rightarrow> Authenticator \<Rightarrow> transportPool \<Rightarrow> (http_env \<times> request res) list
      \<Rightarrow> (reply_to_client list \<times> effect list \<times> transportPool) \<times> ConnectionGate" where
  "http_accept tls tlsGate wait don handshake auth pool reqs =
     (if \<not> tls then (serve_loop auth pool reqs, tlsGate)
      else case tls_handshake tlsGate wait don handshake of
          (False, g) \<Rightarrow> (([], [Closed Client], pool), g)
        | (True, g) \<Rightarrow> (serve_loop auth pool reqs, g))"

text \<open>\<open>AutoDetectServer.accept\<close>: the protocol of a connection by its first byte.\<close>

datatype protocol = SOCKS5 | HTTPS | HTTP

definition auto_protocol :: "byte \<Rightarrow> protocol" where
  "auto_protocol first = (if first = 0x05 then SOCKS5 else if first < 0x41 then HTTPS else HTTP)"

text \<open>
  The peek at the first byte fails or gives it. A SOCKS5 session reads the same stream, the peeked byte
  included; the TLS and the plain connection are served by the loop above.
\<close>

definition auto_accept ::
    "byte res \<Rightarrow> sess_env \<Rightarrow> AuthAdaptor \<Rightarrow> byte list \<Rightarrow> ConnectionGate \<Rightarrow> ConnectionGate option \<Rightarrow> bool \<Rightarrow> bool \<Rightarrow> Authenticator
      \<Rightarrow> transportPool \<Rightarrow> (http_env \<times> request res) list \<Rightarrow> effect list \<times> transportPool \<times> ConnectionGate" where
  "auto_accept first sen socksAuth inp tlsGate wait don handshake auth pool reqs = (case first of
      Inl _ \<Rightarrow> ([Closed Client], pool, tlsGate)
    | Inr b \<Rightarrow>
       (case auto_protocol b of
          SOCKS5 \<Rightarrow> (snd (snd (Accept sen socksAuth inp)), pool, tlsGate)
        | HTTPS \<Rightarrow>
           (case tls_handshake tlsGate wait don handshake of
              (False, g) \<Rightarrow> ([Closed Client], pool, g)
            | (True, g) \<Rightarrow> (case auto_serveHTTP auth pool reqs of (_, es, pool) \<Rightarrow> (es, pool, g)))
        | HTTP \<Rightarrow> (case auto_serveHTTP auth pool reqs of (_, es, pool) \<Rightarrow> (es, pool, tlsGate))))"

text \<open>
  The type of the client's connection that the handlers get: for SOCKS5 a \<open>bufferedConn\<close>, for HTTPS a TLS
  connection, for HTTP the accepted connection itself.
\<close>

definition auto_client_kind :: "protocol \<Rightarrow> conn_kind" where
  "auto_client_kind p = (case p of SOCKS5 \<Rightarrow> WrappedConn | HTTPS \<Rightarrow> TLSConn | HTTP \<Rightarrow> TCPConn)"

section \<open>Lemmas\<close>

text \<open>The branches of \<open>http_handleConnect\<close> and \<open>forwardRequest\<close>.\<close>

lemma http_handleConnect_keepAlive: "\<not> pr_keepAlive (http_handleConnect en req e pool)"
  unfolding http_handleConnect_def Let_def by (simp split: sum.split prod.split option.split)

lemma relay_response_err: "pr_err (relay_response en req pool rt) \<noteq> None \<Longrightarrow> \<not> pr_keepAlive (relay_response en req pool rt)"
  by (auto simp: relay_response_def Let_def split: sum.splits option.splits)

lemma relay_response_effects: "pr_effects (relay_response en req pool rt) = []"
  by (auto simp: relay_response_def Let_def split: sum.splits option.splits)

lemma forwardRequest_err: "pr_err (forwardRequest en req e pool) \<noteq> None \<Longrightarrow> \<not> pr_keepAlive (forwardRequest en req e pool)"
  using relay_response_err by (cases "pool_Get (he_iter en) pool e") (simp add: forwardRequest_def)

lemma forwardRequest_effects: "pr_effects (forwardRequest en req e pool) = []"
  by (cases "pool_Get (he_iter en) pool e") (simp add: forwardRequest_def relay_response_effects)

lemma Proxy_cases:
  "(\<exists>err. http_Authenticate (he_now en) auth (rq_Header req) = Inl err) \<and> pr_err (Proxy en auth pool req) = None \<and>
      \<not> pr_keepAlive (Proxy en auth pool req) \<and> pr_effects (Proxy en auth pool req) = [] \<or>
   (\<exists>e. Proxy en auth pool req = http_handleConnect en req e pool) \<or>
   (\<exists>e. Proxy en auth pool req = forwardRequest en req e pool)"
  by (cases "http_Authenticate (he_now en) auth (rq_Header req)") (auto simp: Proxy_def)

lemma Proxy_err_not_keepAlive: "pr_err (Proxy en auth pool req) \<noteq> None \<Longrightarrow> \<not> pr_keepAlive (Proxy en auth pool req)"
  using Proxy_cases [of en auth req pool] http_handleConnect_keepAlive forwardRequest_err by metis

lemma http_handleConnect_closed: "all_closed (pr_effects (http_handleConnect en req e pool))"
proof (cases "drain_ahead (he_pulled en) (he_copyN en) (he_rest en)")
  case (fields err es rest)
  have "all_closed (es @ [Closed Outbound])" "all_closed (es @ [Splice rest, ClosedWrite Outbound, Closed Outbound, ClosedWrite Client])"
    using drain_ahead_effects [OF fields] by (simp_all add: all_closed_no_open)
  with fields show ?thesis unfolding http_handleConnect_def Let_def by (simp split: sum.split prod.split option.split)
qed

lemma Proxy_closed: "all_closed (pr_effects (Proxy en auth pool req))"
  using Proxy_cases [of en auth req pool] http_handleConnect_closed forwardRequest_effects by (metis all_closed.simps(1))

text \<open>Effects that are kept on a connection that stays alive open nothing.\<close>

lemma Proxy_keepAlive_effects: "pr_keepAlive (Proxy en auth pool req) \<Longrightarrow> pr_effects (Proxy en auth pool req) = []"
  using Proxy_cases [of en auth req pool] http_handleConnect_keepAlive forwardRequest_effects by metis

lemma serve_loop_closed:
  "all_closed (fst (snd (serve_loop auth pool reqs))) \<and> last (fst (snd (serve_loop auth pool reqs))) = Closed Client \<and>
   fst (snd (serve_loop auth pool reqs)) \<noteq> []"
proof (induction auth pool reqs rule: serve_loop.induct)
  case (3 auth pool en req reqs)
  then show ?case
    using Proxy_closed [of en auth pool req] Proxy_keepAlive_effects [of en auth pool req]
    by (auto simp: Let_def all_closed_snoc split: prod.splits)
qed simp_all

lemma auto_serveHTTP_eq: "auto_serveHTTP auth pool reqs = serve_loop auth pool reqs"
proof (induction auth pool reqs rule: serve_loop.induct)
  case (3 auth pool en req reqs)
  then show ?case using Proxy_err_not_keepAlive [of en auth pool req] by (auto simp: Let_def)
qed simp_all

lemma Release_Acquire: "gate_limited g \<Longrightarrow> Acquire g = Some g' \<Longrightarrow> Release g' = Some g"
  by (auto simp: Acquire_def Release_def gate_limited_def chan_try_send_def chan_recv_def split: option.splits if_splits)

lemma tls_handshake_gate:
  assumes "gate_limited g" "\<And>gw. wait = Some gw \<Longrightarrow> gate_limited gw" "tls_handshake g wait don hs = (ok, g')"
  shows "g' = g \<or> wait = Some g'"
proof -
  have rel: "Release x' = Some x" if "Acquire x = Some x'" "x = g \<or> wait = Some x" for x x'
    using Release_Acquire [of x x'] that assms(1,2) by auto
  obtain r ga where a: "AcquireUntil g wait don = (r, ga)" by fastforce
  have "ga = g \<or> wait = Some ga" if "\<not> r"
    using a that assms(1) rel
    by (auto simp: AcquireUntil_def gate_limited_def split: option.splits if_splits)
  moreover have "\<exists>x. (x = g \<or> wait = Some x) \<and> Acquire x = Some ga" if r
    using a that assms(1) by (auto simp: AcquireUntil_def gate_limited_def split: option.splits if_splits)
  ultimately show ?thesis using assms(3) a rel by (cases r) (auto simp: tls_handshake_def)
qed

lemma outbound_request_no_hop: "k \<in> set hopHeaders \<Longrightarrow> rq_Header (outbound_request req) k = None"
  by (simp add: outbound_request_def Let_def removeHopHeaders_apply)

lemma relay_response_no_hop:
  "Relayed resp \<in> set (pr_replies (relay_response en req pool rt)) \<Longrightarrow> k \<in> set hopHeaders \<Longrightarrow> rs_Header resp k = None"
  by (auto simp: relay_response_def Let_def removeHopHeaders_apply split: sum.splits option.splits)

lemma http_handleConnect_no_relay: "Relayed resp \<notin> set (pr_replies (http_handleConnect en req e pool))"
  unfolding http_handleConnect_def Let_def by (simp split: sum.split prod.split option.split)

section \<open>Properties\<close>

text \<open>
  A request that is not authenticated has no effect: it is answered with 407 or 403, no connection is
  opened, no transport is used, and the connection is not kept alive.
\<close>

theorem unauthenticated_no_effect:
  assumes "http_Authenticate (he_now en) auth (rq_Header req) = Inl err"
  shows "\<exists>status \<in> {407, 403}. Proxy en auth pool req =
    \<lparr>pr_keepAlive = False, pr_err = None, pr_replies = [WriteResponse status []], pr_effects = [], pr_pool = pool\<rparr>"
  using assms by (cases err) (simp_all add: Proxy_def)

definition sample_http :: http_env where
  "sample_http = \<lparr>he_now = 0, he_iter = (\<lambda>l. l), he_connect = (\<lambda>_ _. Inr ()), he_pulled = 2, he_copyN = (\<lambda>_. None), he_rest = [7, 8, 9],
     he_RoundTrip = (\<lambda>_ _. Inr \<lparr>rs_StatusCode = 200, rs_Header = Map.empty, rs_Body = [], rs_AtLeast11 = True, rs_Close = False\<rparr>),
     he_Write = (\<lambda>_. None)\<rparr>"

definition sample_request :: request where
  "sample_request = \<lparr>rq_Method = bytes_of ''CONNECT'', rq_URL_Scheme = [], rq_URL_Host = bytes_of ''h:80'', rq_Host = [],
     rq_Header = Map.empty, rq_AtLeast11 = True, rq_Close = False\<rparr>"

theorem unauthenticated_no_effect_witness:
  "\<exists>status \<in> {407, 403}. Proxy sample_http (PasswordAuth [117] [112]) newTransportPool sample_request =
    \<lparr>pr_keepAlive = False, pr_err = None, pr_replies = [WriteResponse status []], pr_effects = [], pr_pool = newTransportPool\<rparr>"
proof -
  have "http_Authenticate (he_now sample_http) (PasswordAuth [117] [112]) (rq_Header sample_request) = Inl ErrProxyAuthRequired"
    by (simp add: sample_request_def http_Authenticate_def authenticatePassword_def header_Get_def)
  then show ?thesis by (rule unauthenticated_no_effect)
qed

text \<open>
  A CONNECT tunnel loses no byte: when the dial succeeds, the client gets the 200 response, and exactly
  what it sent behind the request reaches the target, in order, however much of it the buffered reader had
  pulled in; the outbound connection is closed at the end.
\<close>

theorem http_connect_loses_no_byte:
  assumes "http_Authenticate (he_now en) auth (rq_Header req) = Inr e" "rq_Method req = bytes_of ''CONNECT''"
    and "splitHostPort (if rq_URL_Host req = [] then rq_Host req else rq_URL_Host req) = Inr (host, port)"
    and "he_connect en e (FromHost host port) = Inr ()" "\<And>ds. he_copyN en ds = None"
  shows "pr_replies (Proxy en auth pool req) = [WriteResponse 200 []] \<and> pr_err (Proxy en auth pool req) = None \<and>
    forwarded (pr_effects (Proxy en auth pool req)) = he_rest en \<and> all_closed (pr_effects (Proxy en auth pool req))"
proof -
  obtain es rest' where d: "drain_ahead (he_pulled en) (he_copyN en) (he_rest en) = (None, es, rest')" "forwarded es @ rest' = he_rest en"
    using drain_ahead_ok [of "he_copyN en" "he_pulled en" "he_rest en"] assms(5) by blast
  have "splitHostPort [] = Inl (Message ''missing port'')" by code_simp
  with assms(3) have "(if rq_URL_Host req = [] then rq_Host req else rq_URL_Host req) \<noteq> []" by auto
  with assms d Proxy_closed [of en auth pool req] show ?thesis
    by (simp add: Proxy_def http_handleConnect_def Let_def split del: if_split)
qed

theorem http_connect_loses_no_byte_witness:
  "forwarded (pr_effects (Proxy sample_http NoAuth newTransportPool sample_request)) = [7, 8, 9]"
proof -
  have "splitHostPort (if rq_URL_Host sample_request = [] then rq_Host sample_request else rq_URL_Host sample_request) = Inr (bytes_of ''h'', 80)"
    using net_SplitHostPort_plain [of "[104]" "[56, 48]"]
    by (simp add: sample_request_def splitHostPort_def parsePort_def ParseUint_def is_digit_def digits_value_def bytes_of_def)
  from http_connect_loses_no_byte [of sample_http NoAuth sample_request None_ext, OF _ _ this] show ?thesis
    by (simp add: sample_http_def sample_request_def http_Authenticate_def)
qed

text \<open>
  The request loop of the auto-detecting server, which ignores the error of \<open>Proxy\<close>, does the same as that of
  the HTTP server, which tests it: \<open>Proxy\<close> never keeps a connection alive after an error.
\<close>

theorem auto_serveHTTP_same:
  "auto_serveHTTP auth pool reqs = serve_loop auth pool reqs"
  by (rule auto_serveHTTP_eq)







end
