(* ===== verification/Startup.thy ===== *)
theory Startup
  imports Session
begin

text \<open>
  Model of the start of the server: \<open>Run\<close> and \<open>newProxyServer\<close> of \<open>internal/server/run.go\<close>, the descriptor limit of
  \<open>resources_unix.go\<close> and the routes of \<open>route_linux.go\<close>. The netlink library and the kernel are parameters.
\<close>

section \<open>Definitions\<close>

subsection \<open>Descriptor limit\<close>

record rlimit =
  rlim_Cur :: u64
  rlim_Max :: u64

definition requiredDescriptors :: "BootArgs \<Rightarrow> u64" where
  "requiredDescriptors args =
     (let required = ucast (ba_Concurrent args) * 2 + 4096 in
      if pc_Kind (ba_Proxy args) = ProxySocks5 \<or> pc_Kind (ba_Proxy args) = ProxyAuto
      then (let associations = uc_MaxAssociations (ba_UDP args);
                associations = (if associations = 0 then ba_Concurrent args else associations)
            in required + ucast associations * 2)
      else required)"

text \<open>The second component is the limit handed to \<open>Setrlimit\<close>, when it is called.\<close>

definition prepareResourceLimitsUnix :: "rlimit res \<Rightarrow> (rlimit \<Rightarrow> go_error option) \<Rightarrow> BootArgs \<Rightarrow> unit res \<times> rlimit option" where
  "prepareResourceLimitsUnix getrlimit setrlimit args = (case getrlimit of
      Inl err \<Rightarrow> (Inl err, None)
    | Inr limit \<Rightarrow>
       (let required = requiredDescriptors args in
        if rlim_Max limit < required then (Inl (Message ''file descriptor hard limit is below the required number''), None)
        else if required \<le> rlim_Cur limit then (Inr (), None)
        else let limit = limit\<lparr>rlim_Cur := required\<rparr> in
        (case setrlimit limit of Some err \<Rightarrow> (Inl err, Some limit) | None \<Rightarrow> (Inr (), Some limit))))"

subsection \<open>Routes\<close>

text \<open>\<open>net.IPNet\<close>, \<open>net.CIDRMask\<close> and \<open>net.IP.Equal\<close>: a 4-byte address equals its IPv4-mapped form.\<close>

record ip_net =
  in_IP :: "byte list"
  in_Mask :: "byte list"

definition CIDRMask :: "nat \<Rightarrow> nat \<Rightarrow> byte list" where
  "CIDRMask ones bits = map (\<lambda>i. NOT (drop_bit (min 8 (ones - 8 * i)) 0xff)) [0..<bits div 8]"

definition mapped_prefix :: "byte list" where
  "mapped_prefix = replicate 10 0 @ [0xff, 0xff]"

definition IP_Equal :: "byte list \<Rightarrow> byte list \<Rightarrow> bool" where
  "IP_Equal a b \<longleftrightarrow>
     (if length a = length b then a = b
      else if length a = 4 \<and> length b = 16 then take 12 b = mapped_prefix \<and> a = drop 12 b
      else if length a = 16 \<and> length b = 4 then take 12 a = mapped_prefix \<and> drop 12 a = b
      else False)"

definition prefixToIPNet :: "net_prefix \<Rightarrow> ip_net" where
  "prefixToIPNet p = \<lparr>in_IP = AsSlice (pf_addr p), in_Mask = CIDRMask (pf_bits p) (BitLen (pf_addr p))\<rparr>"

fun bytesEqual_loop :: "byte list \<Rightarrow> byte list \<Rightarrow> nat list \<Rightarrow> bool" where
  "bytesEqual_loop a b [] = True"
| "bytesEqual_loop a b (i # is) = (if a ! i \<noteq> b ! i then False else bytesEqual_loop a b is)"

definition bytesEqual :: "byte list \<Rightarrow> byte list \<Rightarrow> bool" where
  "bytesEqual a b = (if length a \<noteq> length b then False else bytesEqual_loop a b [0..<length a])"

definition ipNetEqual :: "ip_net \<Rightarrow> ip_net \<Rightarrow> bool" where
  "ipNetEqual a b \<longleftrightarrow> IP_Equal (in_IP a) (in_IP b) \<and> bytesEqual (in_Mask a) (in_Mask b)"

text \<open>A route: destination, table and priority; the default route has no destination.\<close>

record route =
  ro_LinkIndex :: int
  ro_Dst :: "ip_net option"
  ro_Table :: nat
  ro_Priority :: nat

definition routeTableLocal :: nat where "routeTableLocal = 255"
definition routePriority :: nat where "routePriority = 1024"

definition loopback_route :: "int \<Rightarrow> net_prefix \<Rightarrow> route" where
  "loopback_route lo cidr = \<lparr>ro_LinkIndex = lo, ro_Dst = Some (prefixToIPNet cidr), ro_Table = routeTableLocal, ro_Priority = routePriority\<rparr>"

text \<open>
  The netlink library over a table of routes \<open>'t\<close>: the index of the loopback interface, the routes of a table, and
  the addition of a route.
\<close>

record 't netlink =
  nl_LinkByName :: "int res"
  nl_RouteList :: "'t \<Rightarrow> nat \<Rightarrow> route list res"
  nl_RouteAdd :: "route \<Rightarrow> 't \<Rightarrow> 't res"

definition addRouteToLoopback :: "'t netlink \<Rightarrow> net_prefix \<Rightarrow> 't \<Rightarrow> 't res" where
  "addRouteToLoopback nl cidr tab = (case nl_LinkByName nl of
      Inl err \<Rightarrow> Inl err
    | Inr lo \<Rightarrow>
       (case nl_RouteList nl tab routeTableLocal of
          Inl err \<Rightarrow> Inl err
        | Inr routes \<Rightarrow>
           if list_ex (\<lambda>r. case ro_Dst r of None \<Rightarrow> False | Some d \<Rightarrow> ipNetEqual d (prefixToIPNet cidr)) routes then Inr tab
           else nl_RouteAdd nl (loopback_route lo cidr) tab))"

fun keyToPath :: "gostring \<Rightarrow> gostring" where
  "keyToPath [] = []"
| "keyToPath (c # key) = (if c = 46 then 47 else c) # keyToPath key"

definition sysctlSet :: "(gostring \<Rightarrow> gostring \<Rightarrow> go_error option) \<Rightarrow> gostring \<Rightarrow> gostring \<Rightarrow> go_error option" where
  "sysctlSet writeFile key val = writeFile (bytes_of ''/proc/sys/'' @ keyToPath key) val"

definition configureRoutesLinux :: "(gostring \<Rightarrow> gostring \<Rightarrow> go_error option) \<Rightarrow> 't netlink \<Rightarrow> net_prefix \<Rightarrow> 't \<Rightarrow> 't res" where
  "configureRoutesLinux writeFile nl cidr tab =
     (case (if Is6 (pf_addr cidr) then sysctlSet writeFile (bytes_of ''net.ipv6.ip_nonlocal_bind'') (bytes_of ''1'') else None) of
        Some err \<Rightarrow> Inl err
      | None \<Rightarrow>
         (case (if Is6 (pf_addr cidr) then sysctlSet writeFile (bytes_of ''net.ipv6.conf.all.disable_ipv6'') (bytes_of ''0'') else None) of
            Some err \<Rightarrow> Inl err
          | None \<Rightarrow> addRouteToLoopback nl cidr tab))"

text \<open>\<open>netip.Addr.Next\<close>, and the probe of the source addresses.\<close>

definition Addr_Next :: "addr \<Rightarrow> addr" where
  "Addr_Next a = (case a of
      ZeroAddr \<Rightarrow> ZeroAddr
    | V4 w \<Rightarrow> if w = - 1 then ZeroAddr else V4 (w + 1)
    | V6 w z \<Rightarrow> if w = - 1 then ZeroAddr else V6 (w + 1) z)"

definition probe_address :: "net_prefix \<Rightarrow> addr" where
  "probe_address cidr =
     (let address = Masked cidr; nxt = Addr_Next address
      in if IsValid nxt \<and> PrefixContains cidr nxt then nxt else address)"

definition validateSourceCIDRLinux :: "(gostring \<Rightarrow> addr \<Rightarrow> go_error option) \<Rightarrow> (gostring \<Rightarrow> go_error option) \<Rightarrow> net_prefix \<Rightarrow> unit res" where
  "validateSourceCIDRLinux listen close cidr =
     (let address = probe_address cidr;
          tcpNetwork = bytes_of (if Is6 address then ''tcp6'' else ''tcp4'');
          udpNetwork = bytes_of (if Is6 address then ''udp6'' else ''udp4'')
      in case listen tcpNetwork address of
           Some err \<Rightarrow> Inl err
         | None \<Rightarrow> (case close tcpNetwork of
             Some err \<Rightarrow> Inl err
           | None \<Rightarrow> (case listen udpNetwork address of
               Some err \<Rightarrow> Inl err
             | None \<Rightarrow> (case close udpNetwork of Some err \<Rightarrow> Inl err | None \<Rightarrow> Inr ()))))"

subsection \<open>Run\<close>

definition parseSlogLevel :: "gostring \<Rightarrow> int" where
  "parseSlogLevel s =
     (if s \<in> set (map bytes_of [''trace'', ''debug'', ''DEBUG'']) then - 4
      else if s \<in> set (map bytes_of [''info'', ''INFO'']) then 0
      else if s \<in> set (map bytes_of [''warn'', ''WARN'']) then 4
      else if s \<in> set (map bytes_of [''error'', ''ERROR'']) then 8
      else 0)"

definition workerThreads :: "int \<Rightarrow> BootArgs \<Rightarrow> int" where
  "workerThreads numCPU args = (if ba_Workers args \<le> 0 then numCPU else ba_Workers args)"

text \<open>
  What the environment answers to \<open>Run\<close>: the limits, the routes, the listeners, the constructors of the servers
  and of the certificate, and how serving ends: by itself, or after a signal with the errors of \<open>Close\<close> and \<open>Start\<close>.
\<close>

datatype serve_end = Served "go_error option" | Signalled "go_error option" "go_error option"

record 't run_env =
  rn_getrlimit :: "rlimit res"
  rn_setrlimit :: "rlimit \<Rightarrow> go_error option"
  rn_writeFile :: "gostring \<Rightarrow> gostring \<Rightarrow> go_error option"
  rn_netlink :: "'t netlink"
  rn_table :: 't
  rn_listen :: "gostring \<Rightarrow> addr \<Rightarrow> go_error option"
  rn_close :: "gostring \<Rightarrow> go_error option"
  rn_NewServer :: "ProxyKind \<Rightarrow> go_error option"
  rn_WithHTTPS :: "go_error option"
  rn_serve :: serve_end

datatype run_effect = SetLimit rlimit | Routed net_prefix | Built ProxyKind | ServerClosed ProxyKind | Serving ProxyKind

definition newProxyServer :: "'t run_env \<Rightarrow> ProxyKind \<Rightarrow> unit res \<times> run_effect list" where
  "newProxyServer en kind = (case rn_NewServer en kind of
      Some err \<Rightarrow> (Inl err, [])
    | None \<Rightarrow>
       if kind = ProxyHTTPS
       then (case rn_WithHTTPS en of Some err \<Rightarrow> (Inl err, [Built kind, ServerClosed kind]) | None \<Rightarrow> (Inr (), [Built kind]))
       else (Inr (), [Built kind]))"

definition errors_Join :: "go_error option \<Rightarrow> go_error option \<Rightarrow> go_error list" where
  "errors_Join a b = (case a of None \<Rightarrow> [] | Some e \<Rightarrow> [e]) @ (case b of None \<Rightarrow> [] | Some e \<Rightarrow> [e])"

definition run_cidr :: "'t run_env \<Rightarrow> net_prefix option \<Rightarrow> unit res \<times> run_effect list" where
  "run_cidr en cidr = (case cidr of
      None \<Rightarrow> (Inr (), [])
    | Some c \<Rightarrow>
       (case configureRoutesLinux (rn_writeFile en) (rn_netlink en) c (rn_table en) of
          Inl err \<Rightarrow> (Inl err, [])
        | Inr _ \<Rightarrow> (validateSourceCIDRLinux (rn_listen en) (rn_close en) c, [Routed c])))"

definition Run :: "'t run_env \<Rightarrow> BootArgs \<Rightarrow> go_error list \<times> run_effect list" where
  "Run en args = (case Validate args of
      Inl err \<Rightarrow> ([err], [])
    | Inr _ \<Rightarrow>
     (case prepareResourceLimitsUnix (rn_getrlimit en) (rn_setrlimit en) args of
        (lim, set_to) \<Rightarrow>
         (let es = (case set_to of None \<Rightarrow> [] | Some l \<Rightarrow> [SetLimit l]) in
          case lim of
            Inl err \<Rightarrow> ([err], es)
          | Inr _ \<Rightarrow>
           (case run_cidr en (ba_CIDR args) of
              (Inl err, rs) \<Rightarrow> ([err], es @ rs)
            | (Inr _, rs) \<Rightarrow>
             (let kind = pc_Kind (ba_Proxy args) in
              case newProxyServer en kind of
                (Inl err, bs) \<Rightarrow> ([err], es @ rs @ bs)
              | (Inr _, bs) \<Rightarrow>
                 (case rn_serve en of
                    Served err \<Rightarrow> (errors_Join err None, es @ rs @ bs @ [Serving kind])
                  | Signalled closeErr serveErr \<Rightarrow> (errors_Join closeErr serveErr, es @ rs @ bs @ [Serving kind, ServerClosed kind])))))))"

section \<open>Routes\<close>

text \<open>Destinations as the kernel keeps them: the address is cut off at the mask.\<close>

definition mask_net :: "ip_net \<Rightarrow> ip_net" where
  "mask_net d = d\<lparr>in_IP := map2 (AND) (in_IP d) (in_Mask d)\<rparr>"

definition masked_net :: "ip_net \<Rightarrow> bool" where
  "masked_net d \<longleftrightarrow> length (in_IP d) = length (in_Mask d) \<and> mask_net d = d"

lemma bytesEqual_iff: "bytesEqual a b \<longleftrightarrow> a = b"
proof -
  have "bytesEqual_loop a b is \<longleftrightarrow> (\<forall>i \<in> set is. a ! i = b ! i)" for "is" by (induction "is") auto
  then show ?thesis by (simp add: bytesEqual_def list_eq_iff_nth_eq [of a b] Ball_def)
qed

lemma ipNetEqual_refl [simp]: "ipNetEqual d d"
  by (simp add: ipNetEqual_def IP_Equal_def bytesEqual_iff)

lemma length_CIDRMask [simp]: "length (CIDRMask n bits) = bits div 8"
  by (simp add: CIDRMask_def)

lemma be_bytes_and_mask:
  fixes w :: "'a :: len word"
  assumes "LENGTH('a) = 8 * k"
  shows "be_bytes k (w AND NOT (mask (8 * k - n))) = map2 (AND) (be_bytes k w) (CIDRMask n (8 * k))"
proof (rule nth_equalityI)
  fix i
  assume "i < length (be_bytes k (w AND NOT (mask (8 * k - n))))"
  then have i: "i < k" by simp
  have ff: "(0xff :: byte) = mask 8" by (simp add: mask_eq_exp_minus_1)
  have "bit (ucast (drop_bit (8 * (k - 1 - i)) (w AND NOT (mask (8 * k - n)))) :: byte) j \<longleftrightarrow>
      bit (ucast (drop_bit (8 * (k - 1 - i)) w) AND NOT (drop_bit (min 8 (n - 8 * i)) 0xff) :: byte) j" if j: "j < 8" for j
  proof -
    have pos: "8 * (k - 1 - i) + j < LENGTH('a)" using i j assms by simp
    have "8 * (k - 1 - i) + j < 8 * k - n \<longleftrightarrow> min 8 (n - 8 * i) + j < 8" using i j by auto
    then show ?thesis using pos j unfolding ff by (simp add: bit_simps)
  qed
  then show "be_bytes k (w AND NOT (mask (8 * k - n))) ! i = map2 (AND) (be_bytes k w) (CIDRMask n (8 * k)) ! i"
    using i bit_word_eqI [of "ucast (drop_bit (8 * (k - 1 - i)) (w AND NOT (mask (8 * k - n)))) :: byte"
        "ucast (drop_bit (8 * (k - 1 - i)) w) AND NOT (drop_bit (min 8 (n - 8 * i)) 0xff)"]
    by (simp add: nth_be_bytes CIDRMask_def)
qed simp

lemma mask_net_prefix:
  assumes "prefix_valid p"
  shows "mask_net (prefixToIPNet p) = prefixToIPNet (p\<lparr>pf_addr := Masked p\<rparr>)"
  using assms be_bytes_and_mask [of 4, where ?'a = 32] be_bytes_and_mask [of 16, where ?'a = 128]
  by (cases "pf_addr p") (simp_all add: mask_net_def prefixToIPNet_def Masked_def AsSlice_def BitLen_def prefix_valid_def IsValid_def)

lemma AsSlice_inject:
  assumes "AsSlice a = AsSlice b" "BitLen a = BitLen b" "Zone a = []" "Zone b = []"
  shows "a = b"
  using assms be_bytes_inject [of 4, where ?'a = 32] be_bytes_inject [of 16, where ?'a = 128]
  by (cases a; cases b) (simp_all add: AsSlice_def BitLen_def Zone_def)

lemma unmasked_not_listed:
  assumes "prefix_valid p" "Masked p \<noteq> pf_addr p" "masked_net d"
  shows "\<not> ipNetEqual d (prefixToIPNet p)"
proof
  assume eq: "ipNetEqual d (prefixToIPNet p)"
  have len: "length (AsSlice (pf_addr p)) = BitLen (pf_addr p) div 8" by (cases "pf_addr p") (simp_all add: AsSlice_def BitLen_def)
  then have "length (in_IP d) = length (AsSlice (pf_addr p))"
    using eq assms(3) by (auto simp: ipNetEqual_def bytesEqual_iff masked_net_def prefixToIPNet_def)
  then have "d = prefixToIPNet p"
    using eq by (auto simp: ipNetEqual_def bytesEqual_iff IP_Equal_def prefixToIPNet_def)
  then have "prefixToIPNet (p\<lparr>pf_addr := Masked p\<rparr>) = prefixToIPNet p"
    using assms(1,3) by (simp add: masked_net_def flip: mask_net_prefix)
  moreover have "BitLen (Masked p) = BitLen (pf_addr p)" "Zone (Masked p) = Zone (pf_addr p)"
    by (cases "pf_addr p"; simp add: Masked_def BitLen_def Zone_def)+
  ultimately show False
    using assms(1,2) AsSlice_inject [of "Masked p" "pf_addr p"] by (simp add: prefixToIPNet_def prefix_valid_def)
qed

text \<open>A table of routes that lists what it accepted, cut off at the mask, and refuses a second route to the same destination.\<close>

definition kernel_list :: "route list \<Rightarrow> nat \<Rightarrow> route list" where
  "kernel_list t n = map (\<lambda>r. r\<lparr>ro_Dst := map_option mask_net (ro_Dst r)\<rparr>)
     (filter (\<lambda>r. ro_Table r = n \<and> pred_option (\<lambda>d. length (in_IP d) = length (in_Mask d)) (ro_Dst r)) t)"

definition kernel_add :: "route \<Rightarrow> route list \<Rightarrow> route list res" where
  "kernel_add r t =
     (if \<not> pred_option (\<lambda>d. length (in_IP d) = length (in_Mask d)) (ro_Dst r) \<or>
        list_ex (\<lambda>r'. ro_Dst r' = map_option mask_net (ro_Dst r) \<and> ro_Priority r' = ro_Priority r) (kernel_list t (ro_Table r))
      then Inl (IOError 17) else Inr (r # t))"

definition sample_netlink :: "route list netlink" where
  "sample_netlink = \<lparr>nl_LinkByName = Inr 1, nl_RouteList = (\<lambda>t n. Inr (kernel_list t n)), nl_RouteAdd = kernel_add\<rparr>"

lemma mask_net_idem: "length (in_IP d) = length (in_Mask d) \<Longrightarrow> masked_net (mask_net d)"
  by (auto simp: masked_net_def mask_net_def and.assoc intro!: ip_net.equality nth_equalityI)

lemma kernel_list_masked: "r \<in> set (kernel_list t n) \<Longrightarrow> ro_Dst r = Some d \<Longrightarrow> masked_net d"
  by (auto simp: kernel_list_def mask_net_idem)

lemma kernel_add_listed:
  assumes "kernel_add r t = Inr t'"
  shows "\<exists>r'. r' \<in> set (kernel_list t' (ro_Table r)) \<and> ro_Dst r' = map_option mask_net (ro_Dst r) \<and> ro_Priority r' = ro_Priority r"
  using assms by (auto simp: kernel_add_def kernel_list_def split: if_splits)

lemma sample_route_added:
  assumes "prefix_valid p"
  shows "addRouteToLoopback sample_netlink p [] = Inr [loopback_route 1 p]"
proof -
  have "length (AsSlice (pf_addr p)) = BitLen (pf_addr p) div 8" by (cases "pf_addr p") (simp_all add: AsSlice_def BitLen_def)
  then show ?thesis
    by (simp add: addRouteToLoopback_def sample_netlink_def kernel_list_def kernel_add_def loopback_route_def prefixToIPNet_def)
qed

text \<open>
  C19. Setting up the routes is repeatable for a CIDR without host bits: when the kernel lists a route it accepted with its destination
  cut off at the mask, a second start finds the route of the first one and changes nothing.
\<close>

theorem route_setup_repeatable:
  assumes "prefix_valid p" "Masked p = pf_addr p"
    and "\<And>r t t'. nl_RouteAdd nl r t = Inr t' \<Longrightarrow>
      \<exists>rs r'. nl_RouteList nl t' (ro_Table r) = Inr rs \<and> r' \<in> set rs \<and> ro_Dst r' = map_option mask_net (ro_Dst r)"
    and "addRouteToLoopback nl p tab = Inr tab'"
  shows "addRouteToLoopback nl p tab' = Inr tab'"
proof -
  obtain lo rs where lo: "nl_LinkByName nl = Inr lo" "nl_RouteList nl tab routeTableLocal = Inr rs"
    using assms(4) by (auto simp: addRouteToLoopback_def split: sum.splits)
  show ?thesis
  proof (cases "list_ex (\<lambda>r. case ro_Dst r of None \<Rightarrow> False | Some d \<Rightarrow> ipNetEqual d (prefixToIPNet p)) rs")
    case True
    then have "tab' = tab" using assms(4) lo by (simp add: addRouteToLoopback_def)
    then show ?thesis using assms(4) by simp
  next
    case False
    then have "nl_RouteAdd nl (loopback_route lo p) tab = Inr tab'" using assms(4) lo by (simp add: addRouteToLoopback_def)
    then obtain rs' r' where r': "nl_RouteList nl tab' routeTableLocal = Inr rs'" "r' \<in> set rs'" "ro_Dst r' = Some (mask_net (prefixToIPNet p))"
      using assms(3) [of "loopback_route lo p" tab tab'] by (auto simp: loopback_route_def)
    then have "ro_Dst r' = Some (prefixToIPNet p)" using mask_net_prefix [OF assms(1)] assms(2) by (simp add: net_prefix.equality)
    then show ?thesis using lo(1) r'(1,2) by (auto simp: addRouteToLoopback_def list_ex_iff intro!: bexI [of _ r'])
  qed
qed

theorem route_setup_repeatable_witness:
  "\<exists>tab. addRouteToLoopback sample_netlink \<lparr>pf_addr = V4 0x0a000000, pf_bits = 24\<rparr> [] = Inr tab \<and>
    addRouteToLoopback sample_netlink \<lparr>pf_addr = V4 0x0a000000, pf_bits = 24\<rparr> tab = Inr tab"
proof -
  let ?p = "\<lparr>pf_addr = V4 0x0a000000, pf_bits = 24\<rparr>"
  have p: "prefix_valid ?p" "Masked ?p = pf_addr ?p"
    by (simp_all add: prefix_valid_def IsValid_def Zone_def BitLen_def Masked_def mask_eq_exp_minus_1)
  have "addRouteToLoopback sample_netlink ?p [loopback_route 1 ?p] = Inr [loopback_route 1 ?p]"
  proof (rule route_setup_repeatable [OF p])
    show "\<exists>rs r'. nl_RouteList sample_netlink t' (ro_Table r) = Inr rs \<and> r' \<in> set rs \<and> ro_Dst r' = map_option mask_net (ro_Dst r)"
      if "nl_RouteAdd sample_netlink r t = Inr t'" for r t t'
      using that kernel_add_listed [of r t t'] by (auto simp: sample_netlink_def)
    show "addRouteToLoopback sample_netlink ?p [] = Inr [loopback_route 1 ?p]" by (rule sample_route_added [OF p(1)])
  qed
  then show ?thesis using sample_route_added [OF p(1)] by blast
qed

text \<open>
  With host bits in the CIDR the second start fails, under a kernel that accepts such a route and lists it with its destination cut
  off at the mask, as Linux does for IPv6: the listed destination is never equal to the configured one, so the route is added
  again, which the kernel refuses.
\<close>

theorem unmasked_cidr_restart_fails:
  assumes "prefix_valid p" "Masked p \<noteq> pf_addr p"
    and "\<And>r t t'. nl_RouteAdd nl r t = Inr t' \<Longrightarrow>
      \<exists>rs r'. nl_RouteList nl t' (ro_Table r) = Inr rs \<and> r' \<in> set rs \<and> ro_Dst r' = map_option mask_net (ro_Dst r) \<and> ro_Priority r' = ro_Priority r"
    and "\<And>t n rs r d. nl_RouteList nl t n = Inr rs \<Longrightarrow> r \<in> set rs \<Longrightarrow> ro_Dst r = Some d \<Longrightarrow> masked_net d"
    and "\<And>t r rs r'. nl_RouteList nl t (ro_Table r) = Inr rs \<Longrightarrow> r' \<in> set rs \<Longrightarrow> ro_Dst r' = map_option mask_net (ro_Dst r) \<Longrightarrow>
      ro_Priority r' = ro_Priority r \<Longrightarrow> nl_RouteAdd nl r t = Inl exists_err"
    and "addRouteToLoopback nl p tab = Inr tab'"
  shows "addRouteToLoopback nl p tab' = Inl exists_err"
proof -
  have none: "\<not> list_ex (\<lambda>r. case ro_Dst r of None \<Rightarrow> False | Some d \<Rightarrow> ipNetEqual d (prefixToIPNet p)) rs"
    if "nl_RouteList nl t routeTableLocal = Inr rs" for t rs
    using that assms(4) unmasked_not_listed [OF assms(1,2)] by (auto simp: list_ex_iff split: option.splits)
  obtain lo rs where lo: "nl_LinkByName nl = Inr lo" "nl_RouteList nl tab routeTableLocal = Inr rs"
    using assms(6) by (auto simp: addRouteToLoopback_def split: sum.splits)
  then have "nl_RouteAdd nl (loopback_route lo p) tab = Inr tab'" using assms(6) none [OF lo(2)] by (simp add: addRouteToLoopback_def)
  then obtain rs' r' where r': "nl_RouteList nl tab' (ro_Table (loopback_route lo p)) = Inr rs'" "r' \<in> set rs'"
    "ro_Dst r' = map_option mask_net (ro_Dst (loopback_route lo p))" "ro_Priority r' = ro_Priority (loopback_route lo p)"
    using assms(3) by blast
  have "nl_RouteAdd nl (loopback_route lo p) tab' = Inl exists_err" using assms(5) [OF r'] .
  moreover have "nl_RouteList nl tab' routeTableLocal = Inr rs'" using r'(1) by (simp add: loopback_route_def)
  ultimately show ?thesis using lo(1) none by (simp add: addRouteToLoopback_def)
qed

theorem unmasked_cidr_restart_fails_witness:
  "\<exists>tab. addRouteToLoopback sample_netlink \<lparr>pf_addr = V6 0x20010db8000000000000000000000005 [], pf_bits = 64\<rparr> [] = Inr tab \<and>
    addRouteToLoopback sample_netlink \<lparr>pf_addr = V6 0x20010db8000000000000000000000005 [], pf_bits = 64\<rparr> tab = Inl (IOError 17)"
proof -
  let ?p = "\<lparr>pf_addr = V6 0x20010db8000000000000000000000005 [], pf_bits = 64\<rparr>"
  have p: "prefix_valid ?p" "Masked ?p \<noteq> pf_addr ?p"
    by (simp_all add: prefix_valid_def IsValid_def Zone_def BitLen_def Masked_def mask_eq_exp_minus_1)
  have "addRouteToLoopback sample_netlink ?p [loopback_route 1 ?p] = Inl (IOError 17)"
  proof (rule unmasked_cidr_restart_fails [OF p])
    show "\<exists>rs r'. nl_RouteList sample_netlink t' (ro_Table r) = Inr rs \<and> r' \<in> set rs \<and> ro_Dst r' = map_option mask_net (ro_Dst r) \<and> ro_Priority r' = ro_Priority r"
      if "nl_RouteAdd sample_netlink r t = Inr t'" for r t t'
      using that kernel_add_listed by (simp add: sample_netlink_def)
    show "masked_net d" if "nl_RouteList sample_netlink t n = Inr rs" "r \<in> set rs" "ro_Dst r = Some d" for t n rs r d
      using that kernel_list_masked by (auto simp: sample_netlink_def)
    show "nl_RouteAdd sample_netlink r t = Inl (IOError 17)"
      if "nl_RouteList sample_netlink t (ro_Table r) = Inr rs" "r' \<in> set rs" "ro_Dst r' = map_option mask_net (ro_Dst r)" "ro_Priority r' = ro_Priority r" for t r rs r'
      using that by (auto simp: sample_netlink_def kernel_add_def list_ex_iff)
    show "addRouteToLoopback sample_netlink ?p [] = Inr [loopback_route 1 ?p]" by (rule sample_route_added [OF p(1)])
  qed
  then show ?thesis using sample_route_added [OF p(1)] by blast
qed

section \<open>Descriptors\<close>

lemma requiredDescriptors_exact:
  "unat (requiredDescriptors args) = 2 * unat (ba_Concurrent args) + 4096 +
     (if pc_Kind (ba_Proxy args) \<in> {ProxySocks5, ProxyAuto}
      then 2 * unat (if uc_MaxAssociations (ba_UDP args) = 0 then ba_Concurrent args else uc_MaxAssociations (ba_UDP args)) else 0)"
proof -
  have small: "unat c < 2 ^ 32" for c :: u32 using unat_u32_less [of c] by simp
  have up: "unat (ucast c :: u64) = unat c" for c :: u32
    using small [of c] by (simp add: unsigned_ucast_eq take_bit_nat_eq_self)
  have two: "unat (ucast c * 2 :: u64) = 2 * unat c" for c :: u32
    using small [of c] by (simp add: unat_word_ariths up)
  have base: "unat (ucast c * 2 + 4096 :: u64) = 2 * unat c + 4096" for c :: u32
    using small [of c] by (simp add: unat_word_ariths up)
  have "unat (ucast c * 2 + 4096 + ucast a * 2 :: u64) = 2 * unat c + 4096 + 2 * unat a" for c a :: u32
    using small [of c] small [of a] base [of c] two [of a] by (subst unat_add_lem [THEN iffD1]) simp_all
  then show ?thesis by (auto simp: requiredDescriptors_def Let_def base)
qed

text \<open>The largest number of descriptors a session has open at a time; an association slot is none.\<close>

definition fds :: "resource list \<Rightarrow> nat" where
  "fds open = length (filter (\<lambda>r. r \<noteq> AssociationSlot) open)"

fun peak :: "resource list \<Rightarrow> effect list \<Rightarrow> nat" where
  "peak open [] = fds open"
| "peak open (Opened r # es) = max (fds open) (peak (List.insert r open) es)"
| "peak open (Closed r # es) = max (fds open) (peak (removeAll r open) es)"
| "peak open (_ # es) = peak open es"

lemma peak_skip: "(\<And>x. Opened x \<notin> set es) \<Longrightarrow> (\<And>x. Closed x \<notin> set es) \<Longrightarrow> peak op (es @ es') = peak op es'"
  by (induction op es rule: peak.induct) auto

definition session_fds :: "outcome \<Rightarrow> nat" where
  "session_fds oc = peak [Client] (snd (snd oc))"

definition session_budget :: "outcome \<Rightarrow> nat" where
  "session_budget oc = (if Opened AssociationSlot \<in> set (snd (snd oc)) then 4 else if Opened BindListener \<in> set (snd (snd oc)) then 3 else 2)"

lemma handleConnect_fds:
  assumes "handleConnect w connect pulled copyN address rest out = (e, out', es)"
  shows "peak [Client] (es @ [Closed Client]) \<le> 2"
proof (cases "drain_ahead pulled copyN rest")
  case (fields e' ds rest')
  show ?thesis
    using assms fields drain_ahead_effects [OF fields]
    by (auto simp: handleConnect_def peak_skip fds_def split: sum.splits prod.splits option.splits)
qed

lemma handleBind_fds:
  assumes "handleBind w socketAddr listen wait pulled copyN clientLocal rest out = (e, out', es)"
  shows "peak [Client] (es @ [Closed Client]) \<le> (if Opened BindListener \<in> set es then 3 else 2) \<and> Opened AssociationSlot \<notin> set es"
proof (cases "drain_ahead pulled copyN rest")
  case (fields e' ds rest')
  show ?thesis
    using assms fields drain_ahead_effects [OF fields]
    by (auto simp: handleBind_def peak_skip fds_def split: sum.splits prod.splits option.splits bind_wait.splits if_splits)
qed

lemma handleUDP_fds:
  assumes "handleUDP w began listen sockets ended clientLocal out = (e, out', es)"
  shows "peak [Client] (es @ [Closed Client]) \<le> (if Opened AssociationSlot \<in> set es then 4 else 2) \<and> Opened BindListener \<notin> set es"
  using assms by (auto simp: handleUDP_def fds_def split: sum.splits prod.splits option.splits if_splits)

lemma session_fds_budget: "session_fds (Accept en auth inp) \<le> session_budget (Accept en auth inp)"
proof -
  obtain e out es where h: "handle en auth inp = (e, out, es)" by (cases "handle en auth inp")
  have "peak [Client] (es @ [Closed Client]) \<le> (if Opened AssociationSlot \<in> set es then 4 else if Opened BindListener \<in> set es then 3 else 2)"
    using h handleUDP_fds handleBind_fds handleConnect_fds
    by (fastforce simp: handle_def fds_def split: prod.splits sum.splits if_splits Command.splits)
  then show ?thesis by (simp add: session_fds_def session_budget_def Accept_def h split: if_splits)
qed

definition opens :: "resource \<Rightarrow> outcome \<Rightarrow> bool" where
  "opens r oc \<longleftrightarrow> Opened r \<in> set (snd (snd oc))"

lemma budget_sum:
  "sum_list (map session_budget ocs) \<le> 2 * length ocs + 2 * length (filter (opens AssociationSlot) ocs) + length (filter (opens BindListener) ocs)"
  by (induction ocs) (auto simp: session_budget_def opens_def)


definition sample_socks_args :: BootArgs where
  "sample_socks_args = DefaultBootArgs\<lparr>ba_Proxy := (ba_Proxy DefaultBootArgs)\<lparr>pc_Kind := ProxySocks5\<rparr>\<rparr>"


section \<open>Order of the start\<close>

lemma probe_in_cidr: "prefix_valid c \<Longrightarrow> PrefixContains c (probe_address c)"
proof -
  assume v: "prefix_valid c"
  have "PrefixContains c (Masked c)"
  proof (cases "pf_addr c")
    case (V4 w)
    then show ?thesis using v by (simp add: PrefixContains_V4 [OF v V4] Masked_def bit_simps)
  next
    case (V6 w z)
    then have "z = []" using v by (simp add: prefix_valid_def Zone_def)
    then show ?thesis using v V6 by (simp add: PrefixContains_V6 [OF v V6] Masked_def bit_simps)
  qed (use v in \<open>simp add: prefix_valid_def IsValid_def\<close>)
  then show ?thesis by (simp add: probe_address_def Let_def)
qed

lemma limits_ok:
  assumes "prepareResourceLimitsUnix getrlimit setrlimit args = (Inr u, set_to)"
  shows "\<exists>l. getrlimit = Inr l \<and> requiredDescriptors args \<le> rlim_Max l \<and>
    (requiredDescriptors args \<le> rlim_Cur l \<or>
     set_to = Some (l\<lparr>rlim_Cur := requiredDescriptors args\<rparr>) \<and> setrlimit (l\<lparr>rlim_Cur := requiredDescriptors args\<rparr>) = None)"
  using assms by (auto simp: prepareResourceLimitsUnix_def Let_def split: sum.splits if_splits option.splits)

lemma cidr_ok:
  assumes "run_cidr en (Some c) = (Inr u, rs)"
  shows "Routed c \<in> set rs \<and>
    rn_listen en (bytes_of (if Is6 (probe_address c) then ''tcp6'' else ''tcp4'')) (probe_address c) = None \<and>
    rn_listen en (bytes_of (if Is6 (probe_address c) then ''udp6'' else ''udp4'')) (probe_address c) = None"
  using assms by (auto simp: run_cidr_def validateSourceCIDRLinux_def Let_def split: sum.splits option.splits)

lemma newProxyServer_effects: "newProxyServer en kind = (r, bs) \<Longrightarrow> Serving k \<notin> set bs"
  by (auto simp: newProxyServer_def split: option.splits if_splits)

lemma run_cidr_effects: "run_cidr en cidr = (r, rs) \<Longrightarrow> Serving k \<notin> set rs"
  by (auto simp: run_cidr_def split: option.splits sum.splits)

lemma Run_serving:
  assumes "Run en args = (errs, es)" "Serving kind \<in> set es"
  shows "\<exists>set_to rs. Validate args = Inr () \<and> kind = pc_Kind (ba_Proxy args) \<and>
    prepareResourceLimitsUnix (rn_getrlimit en) (rn_setrlimit en) args = (Inr (), set_to) \<and> run_cidr en (ba_CIDR args) = (Inr (), rs) \<and>
    (\<forall>l. set_to = Some l \<longrightarrow> SetLimit l \<in> set es) \<and> set rs \<subseteq> set es"
proof -
  obtain lim set_to where p: "prepareResourceLimitsUnix (rn_getrlimit en) (rn_setrlimit en) args = (lim, set_to)" by fastforce
  obtain cr rs where c: "run_cidr en (ba_CIDR args) = (cr, rs)" by fastforce
  obtain nr bs where n: "newProxyServer en (pc_Kind (ba_Proxy args)) = (nr, bs)" by fastforce
  show ?thesis
    using assms p c n run_cidr_effects [OF c] newProxyServer_effects [OF n]
    by (cases lim; cases cr; cases nr; cases "rn_serve en"; cases set_to; cases "Validate args") (auto simp: Run_def Let_def)
qed

text \<open>
  C9. The server serves only what was checked: when \<open>Run\<close> has come to serving, the configuration is valid, the soft limit of descriptors is at least
  the required number (as found, or raised within the hard limit), and for a configured CIDR the routes are set up and a TCP and a
  UDP socket could be bound to an address of the CIDR.
\<close>

theorem run_serves_checked:
  assumes "Run en args = (errs, es)" "Serving kind \<in> set es"
  shows "Validate args = Inr () \<and> kind = pc_Kind (ba_Proxy args) \<and>
    (\<exists>l. rn_getrlimit en = Inr l \<and> requiredDescriptors args \<le> rlim_Max l \<and>
      (requiredDescriptors args \<le> rlim_Cur l \<or>
       SetLimit (l\<lparr>rlim_Cur := requiredDescriptors args\<rparr>) \<in> set es \<and> rn_setrlimit en (l\<lparr>rlim_Cur := requiredDescriptors args\<rparr>) = None)) \<and>
    (\<forall>c. ba_CIDR args = Some c \<longrightarrow> Routed c \<in> set es \<and> (prefix_valid c \<longrightarrow> PrefixContains c (probe_address c)) \<and>
      rn_listen en (bytes_of (if Is6 (probe_address c) then ''tcp6'' else ''tcp4'')) (probe_address c) = None \<and>
      rn_listen en (bytes_of (if Is6 (probe_address c) then ''udp6'' else ''udp4'')) (probe_address c) = None)"
proof -
  obtain set_to rs where r: "Validate args = Inr ()" "kind = pc_Kind (ba_Proxy args)"
    "prepareResourceLimitsUnix (rn_getrlimit en) (rn_setrlimit en) args = (Inr (), set_to)" "run_cidr en (ba_CIDR args) = (Inr (), rs)"
    "\<forall>l. set_to = Some l \<longrightarrow> SetLimit l \<in> set es" "set rs \<subseteq> set es"
    using Run_serving [OF assms] by blast
  have "Routed c \<in> set es \<and> (prefix_valid c \<longrightarrow> PrefixContains c (probe_address c)) \<and>
      rn_listen en (bytes_of (if Is6 (probe_address c) then ''tcp6'' else ''tcp4'')) (probe_address c) = None \<and>
      rn_listen en (bytes_of (if Is6 (probe_address c) then ''udp6'' else ''udp4'')) (probe_address c) = None"
    if "ba_CIDR args = Some c" for c
    using cidr_ok [of en c "()" rs] probe_in_cidr [of c] r(4,6) that by auto
  then show ?thesis using r(1,2,5) limits_ok [OF r(3)] by blast
qed

definition sample_run :: "route list run_env" where
  "sample_run = \<lparr>rn_getrlimit = Inr \<lparr>rlim_Cur = 1024, rlim_Max = 1048576\<rparr>, rn_setrlimit = (\<lambda>l. None), rn_writeFile = (\<lambda>p v. None),
     rn_netlink = sample_netlink, rn_table = [], rn_listen = (\<lambda>n a. None), rn_close = (\<lambda>n. None), rn_NewServer = (\<lambda>k. None), rn_WithHTTPS = None,
     rn_serve = Signalled None None\<rparr>"

theorem run_serves_checked_witness:
  "\<exists>errs es. Run sample_run DefaultBootArgs = (errs, es) \<and> SetLimit \<lparr>rlim_Cur = requiredDescriptors DefaultBootArgs, rlim_Max = 1048576\<rparr> \<in> set es"
proof -
  have req: "requiredDescriptors DefaultBootArgs = 20480" by (simp add: requiredDescriptors_def DefaultBootArgs_def)
  obtain errs es where r: "Run sample_run DefaultBootArgs = (errs, es)" by fastforce
  have "Serving ProxyHTTP \<in> set es"
    using r by (auto simp: Run_def Validate_def DefaultBootArgs_def DefaultUDPConfig_def sample_run_def prepareResourceLimitsUnix_def
        requiredDescriptors_def run_cidr_def newProxyServer_def Let_def)
  from run_serves_checked [OF r this] show ?thesis using r by (auto simp: sample_run_def req)
qed

end
