(* ===== verification/Servers.thy ===== *)
theory Servers
  imports AcceptLoop Http Startup
begin

text \<open>
  Construction and closing of the servers: \<open>NewServer\<close>, \<open>WithHTTPS\<close> and \<open>Close\<close> of \<open>internal/server/http/server.go\<close>,
  \<open>NewAutoDetectServer\<close> and \<open>Close\<close> of \<open>internal/server/auto.go\<close>, \<open>NewServer\<close> of \<open>internal/server/socks/server.go\<close>, and the TLS
  configuration of \<open>tls.go\<close> with the self-signed certificate that \<open>genca.go\<close> keeps in two files.
\<close>

section \<open>Definitions\<close>

subsection \<open>The TLS configuration\<close>

text \<open>
  The environment: what \<open>os.Stat\<close> says of the directory and \<open>os.MkdirAll\<close> returns, the pair \<open>generateSelfSigned\<close> gives, and how far
  writing a file gets before an error; \<open>tv_KeyPair\<close> is \<open>tls.X509KeyPair\<close>. The two files are \<open>cert.pem\<close> and \<open>key.pem\<close>.
\<close>

record tls_env =
  tv_dirMissing :: bool
  tv_MkdirAll :: "go_error option"
  tv_generate :: "(byte list \<times> byte list) res"
  tv_writeCert :: "(nat \<times> go_error) option"
  tv_writeKey :: "(nat \<times> go_error) option"
  tv_KeyPair :: "byte list \<Rightarrow> byte list \<Rightarrow> go_error option"
  tv_ReadFile :: "gostring \<Rightarrow> byte list res"

type_synonym cert_files = "byte list option \<times> byte list option"

definition written :: "(nat \<times> go_error) option \<Rightarrow> byte list \<Rightarrow> byte list" where
  "written w data = (case w of None \<Rightarrow> data | Some (n, _) \<Rightarrow> take n data)"

definition getSelfSignedCert :: "tls_env \<Rightarrow> cert_files \<Rightarrow> (byte list \<times> byte list) res \<times> cert_files" where
  "getSelfSignedCert en fs =
     (case (if tv_dirMissing en then tv_MkdirAll en else None) of
        Some err \<Rightarrow> (Inl err, fs)
      | None \<Rightarrow>
         (case fs of
            (Some cert, Some key) \<Rightarrow> (Inr (cert, key), fs)
          | _ \<Rightarrow>
             (case tv_generate en of
                Inl err \<Rightarrow> (Inl err, fs)
              | Inr (cert, key) \<Rightarrow>
                 (let fs = (Some (written (tv_writeCert en) cert), snd fs) in
                  case tv_writeCert en of
                    Some (_, err) \<Rightarrow> (Inl err, fs)
                  | None \<Rightarrow>
                     (let fs = (fst fs, Some (written (tv_writeKey en) key)) in
                      case tv_writeKey en of Some (_, err) \<Rightarrow> (Inl err, fs) | None \<Rightarrow> (Inr (cert, key), fs))))))"

definition NewTLSConfigFromPEM :: "tls_env \<Rightarrow> byte list \<Rightarrow> byte list \<Rightarrow> unit res" where
  "NewTLSConfigFromPEM en cert key = (case tv_KeyPair en cert key of Some err \<Rightarrow> Inl err | None \<Rightarrow> Inr ())"

definition NewTLSConfigFromFiles :: "tls_env \<Rightarrow> gostring \<Rightarrow> gostring \<Rightarrow> unit res" where
  "NewTLSConfigFromFiles en certPath keyPath = (case tv_ReadFile en certPath of
      Inl err \<Rightarrow> Inl err
    | Inr cert \<Rightarrow> (case tv_ReadFile en keyPath of Inl err \<Rightarrow> Inl err | Inr key \<Rightarrow> NewTLSConfigFromPEM en cert key))"

definition NewSelfSignedTLSConfig :: "tls_env \<Rightarrow> cert_files \<Rightarrow> unit res \<times> cert_files" where
  "NewSelfSignedTLSConfig en fs = (case getSelfSignedCert en fs of
      (Inl err, fs) \<Rightarrow> (Inl err, fs)
    | (Inr (cert, key), fs) \<Rightarrow> (NewTLSConfigFromPEM en cert key, fs))"

definition tls_config :: "tls_env \<Rightarrow> gostring \<Rightarrow> gostring \<Rightarrow> cert_files \<Rightarrow> unit res \<times> cert_files" where
  "tls_config en certPath keyPath fs =
     (if certPath \<noteq> [] \<and> keyPath \<noteq> [] then (NewTLSConfigFromFiles en certPath keyPath, fs) else NewSelfSignedTLSConfig en fs)"

subsection \<open>Constructors\<close>

record server_ctx =
  cx_Bind :: addr_port
  cx_Concurrent :: u32
  cx_ConnectTimeout :: u64
  cx_Auth :: AuthMode
  cx_Connector :: Connector
  cx_UDP :: UDPConfig
  cx_ReusePort :: bool

text \<open>
  What the constructors use of the machine: whether \<open>SO_REUSEPORT\<close> exists, \<open>GOMAXPROCS\<close>, and the result of the \<open>i\<close>-th call of \<open>Listen\<close>.
  A constructor returns the server, or the error and the listeners it closed again.
\<close>

record listen_env =
  le_reusePort :: bool
  le_gomaxprocs :: int
  le_Listen :: "nat \<Rightarrow> nat res"

definition listen_shards :: "listen_env \<Rightarrow> server_ctx \<Rightarrow> (go_error \<times> nat list) + nat list" where
  "listen_shards le cx = ListenTCPShards (le_reusePort le) (le_Listen le) (bytes_of (if Is6 (ap_addr (cx_Bind cx)) then ''tcp6'' else ''tcp4''))
     (AcceptShards (le_reusePort le) (le_gomaxprocs le) (cx_ReusePort cx))"

record HttpServer =
  hs_listeners :: "nat list"
  hs_auth :: Authenticator
  hs_transports :: transportPool
  hs_timeout :: int
  hs_gate :: ConnectionGate
  hs_tlsGate :: ConnectionGate
  hs_conns :: ConnectionSet
  hs_tls :: bool

definition http_NewServer :: "listen_env \<Rightarrow> server_ctx \<Rightarrow> (go_error \<times> nat list) + HttpServer" where
  "http_NewServer le cx = (case listen_shards le cx of
      Inl failed \<Rightarrow> Inl failed
    | Inr listeners \<Rightarrow> Inr \<lparr>hs_listeners = listeners, hs_auth = NewHandler_auth (cx_Auth cx), hs_transports = newTransportPool,
        hs_timeout = seconds (cx_ConnectTimeout cx), hs_gate = NewConnectionGate (cx_Concurrent cx),
        hs_tlsGate = NewTLSHandshakeGate (le_gomaxprocs le) (cx_Concurrent cx), hs_conns = NewConnectionSet, hs_tls = False\<rparr>)"

definition WithHTTPS :: "tls_env \<Rightarrow> gostring \<Rightarrow> gostring \<Rightarrow> cert_files \<Rightarrow> HttpServer \<Rightarrow> HttpServer res \<times> cert_files" where
  "WithHTTPS en certPath keyPath fs s = (case tls_config en certPath keyPath fs of
      (Inl err, fs) \<Rightarrow> (Inl err, fs)
    | (Inr _, fs) \<Rightarrow> (Inr (s\<lparr>hs_tls := True\<rparr>), fs))"

record AutoDetectServer =
  at_listeners :: "nat list"
  at_socksAuth :: AuthAdaptor
  at_udp :: udpRuntime
  at_httpAuth :: Authenticator
  at_transports :: transportPool
  at_timeout :: int
  at_gate :: ConnectionGate
  at_tlsGate :: ConnectionGate
  at_conns :: ConnectionSet

definition NewAutoDetectServer :: "listen_env \<Rightarrow> tls_env \<Rightarrow> gostring \<Rightarrow> gostring \<Rightarrow> cert_files \<Rightarrow> server_ctx
    \<Rightarrow> ((go_error \<times> nat list) + AutoDetectServer) \<times> cert_files" where
  "NewAutoDetectServer le en certPath keyPath fs cx = (case listen_shards le cx of
      Inl failed \<Rightarrow> (Inl failed, fs)
    | Inr listeners \<Rightarrow>
       (case tls_config en certPath keyPath fs of
          (Inl err, fs) \<Rightarrow> (Inl (err, listeners), fs)
        | (Inr _, fs) \<Rightarrow>
           (Inr \<lparr>at_listeners = listeners, at_socksAuth = NewAcceptor_auth (cx_Auth cx), at_udp = newUDPRuntime (cx_UDP cx) (cx_Concurrent cx),
              at_httpAuth = NewHandler_auth (cx_Auth cx), at_transports = newTransportPool, at_timeout = seconds (cx_ConnectTimeout cx),
              at_gate = NewConnectionGate (cx_Concurrent cx), at_tlsGate = NewTLSHandshakeGate (le_gomaxprocs le) (cx_Concurrent cx),
              at_conns = NewConnectionSet\<rparr>, fs)))"

text \<open>\<open>newProxyServer\<close> for HTTPS: the server is closed again when there is no certificate.\<close>

definition new_https_server :: "listen_env \<Rightarrow> tls_env \<Rightarrow> gostring \<Rightarrow> gostring \<Rightarrow> cert_files \<Rightarrow> server_ctx
    \<Rightarrow> ((go_error \<times> nat list) + HttpServer) \<times> cert_files" where
  "new_https_server le en certPath keyPath fs cx = (case http_NewServer le cx of
      Inl failed \<Rightarrow> (Inl failed, fs)
    | Inr srv \<Rightarrow> (case WithHTTPS en certPath keyPath fs srv of
         (Inl err, fs) \<Rightarrow> (Inl (err, hs_listeners srv), fs)
       | (Inr srv, fs) \<Rightarrow> (Inr srv, fs)))"

subsection \<open>Close\<close>

text \<open>
  What the parts of a shutdown return: the errors of \<open>CloseAll\<close> and of the listeners, and whether the handlers and the UDP
  workers stopped in time. The error of a listener that is already closed is left out.
\<close>

record close_env =
  ce_conns :: "go_error list"
  ce_listener :: "nat \<Rightarrow> go_error option"
  ce_handlers :: bool
  ce_udpWorkers :: bool

datatype close_effect = Cancel | CloseConnections | CloseListener nat | CloseIdle | WaitHandlers | WaitUDP

definition listener_errors :: "close_env \<Rightarrow> nat list \<Rightarrow> go_error list" where
  "listener_errors en ls = concat (map (\<lambda>l. case ce_listener en l of Some e \<Rightarrow> if e = NetErrClosed then [] else [e] | None \<Rightarrow> []) ls)"

definition http_close :: "close_env \<Rightarrow> nat list \<Rightarrow> go_error list \<times> close_effect list" where
  "http_close en ls =
     (ce_conns en @ listener_errors en ls @ (if ce_handlers en then [] else [Message ''HTTP handlers did not stop before shutdown timeout'']),
      [Cancel, CloseConnections] @ map CloseListener ls @ [CloseIdle, WaitHandlers])"

definition socks_close :: "close_env \<Rightarrow> nat list \<Rightarrow> go_error list \<times> close_effect list" where
  "socks_close en ls =
     (ce_conns en @ listener_errors en ls @ (if ce_handlers en then [] else [Message ''SOCKS5 handlers did not stop before shutdown timeout''])
        @ (if ce_udpWorkers en then [] else [Message ''SOCKS5 UDP workers did not stop before shutdown timeout'']),
      [Cancel, CloseConnections] @ map CloseListener ls @ [WaitHandlers, WaitUDP])"

definition auto_close :: "close_env \<Rightarrow> nat list \<Rightarrow> go_error list \<times> close_effect list" where
  "auto_close en ls =
     (ce_conns en @ listener_errors en ls @ (if ce_handlers en then [] else [Message ''auto-detect handlers did not stop before shutdown timeout''])
        @ (if ce_udpWorkers en then [] else [Message ''SOCKS5 UDP workers did not stop before shutdown timeout'']),
      [Cancel, CloseConnections] @ map CloseListener ls @ [CloseIdle, WaitHandlers, WaitUDP])"

text \<open>\<open>closeOnce.Do\<close>: only the first call closes, all return its error.\<close>

definition close_once :: "(go_error list \<times> close_effect list) \<Rightarrow> go_error list option \<Rightarrow> go_error list \<times> close_effect list \<times> go_error list option" where
  "close_once result closeErr = (case closeErr of
      Some errs \<Rightarrow> (errs, [], closeErr)
    | None \<Rightarrow> (fst result, snd result, Some (fst result)))"

section \<open>Listeners\<close>

text \<open>The listeners that the first \<open>n\<close> calls of \<open>Listen\<close> returned.\<close>

definition opened_listeners :: "(nat \<Rightarrow> nat res) \<Rightarrow> nat \<Rightarrow> nat list" where
  "opened_listeners lst n = concat (map (\<lambda>i. case lst i of Inl _ \<Rightarrow> [] | Inr ln \<Rightarrow> [ln]) [0..<n])"

definition opened_or_closed :: "(nat \<Rightarrow> nat res) \<Rightarrow> (go_error \<times> nat list) + nat list \<Rightarrow> bool" where
  "opened_or_closed lst r = (case r of
      Inl (e, closed) \<Rightarrow> \<exists>m. lst m = Inl e \<and> closed = opened_listeners lst m
    | Inr ls \<Rightarrow> ls \<noteq> [] \<and> (\<exists>m. ls = opened_listeners lst m))"

lemma opened_listeners_Suc: "opened_listeners lst (Suc n) = opened_listeners lst n @ (case lst n of Inl _ \<Rightarrow> [] | Inr ln \<Rightarrow> [ln])"
  by (simp add: opened_listeners_def)

lemma opened_listeners_0: "opened_listeners lst 0 = []"
  by (simp add: opened_listeners_def)

lemma listen_rest_opened:
  "ls = opened_listeners lst i \<Longrightarrow> ls \<noteq> [] \<Longrightarrow> opened_or_closed lst (listen_rest lst i n ls)"
proof (induction n arbitrary: i ls)
  case 0
  then show ?case by (auto simp: opened_or_closed_def)
next
  case (Suc n)
  show ?case
  proof (cases "lst i")
    case (Inl e)
    then show ?thesis using Suc.prems by (auto simp: opened_or_closed_def)
  next
    case (Inr ln)
    then show ?thesis using Suc.prems Suc.IH [of "ls @ [ln]" "Suc i"] by (simp add: opened_listeners_Suc)
  qed
qed

lemma ListenTCPShards_opened: "opened_or_closed lst (ListenTCPShards rp lst network shards)"
proof -
  have one: "opened_or_closed lst (Inr [ln]) \<and> opened_or_closed lst (listen_rest lst i n [ln])" if "[ln] = opened_listeners lst i" for ln i n
  proof
    show "opened_or_closed lst (Inr [ln])" unfolding opened_or_closed_def sum.case using that by blast
    show "opened_or_closed lst (listen_rest lst i n [ln])" by (rule listen_rest_opened [OF that]) simp
  qed
  have first: "lst 0 = Inr ln \<Longrightarrow> [ln] = opened_listeners lst 1"
    and second: "lst 0 = Inl e \<Longrightarrow> lst 1 = Inr ln \<Longrightarrow> [ln] = opened_listeners lst 2"
    and none: "lst 0 = Inl e \<Longrightarrow> lst 1 = Inl e' \<Longrightarrow> opened_listeners lst 1 = []" for ln e e'
    by (simp_all add: opened_listeners_Suc opened_listeners_0 numeral_2_eq_2)
  show ?thesis
  proof (cases "lst 0")
    case (Inr ln)
    with one [OF first] show ?thesis by (simp add: ListenTCPShards_def Let_def)
  next
    case (Inl e)
    then have bad: "opened_or_closed lst (Inl (e, []))" by (auto simp: opened_or_closed_def opened_listeners_0 intro!: exI [of _ 0])
    show ?thesis
    proof (cases "lst 1")
      case r: (Inr ln)
      from one [OF second [OF Inl r]] bad Inl r show ?thesis by (simp add: ListenTCPShards_def Let_def)
    next
      case r: (Inl e')
      have "opened_or_closed lst (Inl (e', []))" using none [OF Inl r] r by (auto simp: opened_or_closed_def intro!: exI [of _ 1])
      with bad Inl r show ?thesis by (simp add: ListenTCPShards_def Let_def)
    qed
  qed
qed


section \<open>The self-signed certificate\<close>

lemma getSelfSignedCert_cached:
  "(tv_dirMissing en \<Longrightarrow> tv_MkdirAll en = None) \<Longrightarrow> getSelfSignedCert en (Some cert, Some key) = (Inr (cert, key), (Some cert, Some key))"
  by (simp add: getSelfSignedCert_def split: option.split)

lemma getSelfSignedCert_ok:
  assumes "getSelfSignedCert en fs = (Inr (cert, key), fs')"
  shows "fs' = (Some cert, Some key)"
  using assms by (auto simp: getSelfSignedCert_def Let_def written_def split: option.splits sum.splits prod.splits)

text \<open>
  Clients keep seeing the same certificate: after a start that obtained a self-signed certificate, every later one that can
  use the directory gets the same pair, whatever would have been generated, and leaves the files as they are.
\<close>

theorem self_signed_stable:
  assumes "getSelfSignedCert en fs = (Inr pair, fs')" "\<not> tv_dirMissing en'"
  shows "getSelfSignedCert en' fs' = (Inr pair, fs')"
  using getSelfSignedCert_ok [of en fs "fst pair" "snd pair" fs'] assms getSelfSignedCert_cached [of en' "fst pair" "snd pair"] by simp

text \<open>
  A certificate that was not written completely is never replaced: when the key could only be written in part, the file exists
  nevertheless, and every later start reads the two files and fails, as long as the part is no key.
\<close>

theorem partial_key_is_permanent:
  assumes "\<not> tv_dirMissing en" "tv_generate en = Inr (cert, key)" "tv_writeCert en = None" "tv_writeKey en = Some (n, full)"
    and "\<not> tv_dirMissing en'" "tv_KeyPair en' cert (take n key) = Some bad"
  shows "\<exists>fs. NewSelfSignedTLSConfig en (None, None) = (Inl full, fs) \<and> NewSelfSignedTLSConfig en' fs = (Inl bad, fs)"
  using assms by (simp add: NewSelfSignedTLSConfig_def getSelfSignedCert_def NewTLSConfigFromPEM_def written_def)

definition sample_tls :: tls_env where
  "sample_tls = \<lparr>tv_dirMissing = False, tv_MkdirAll = None, tv_generate = Inr ([1], [2, 3]), tv_writeCert = None, tv_writeKey = None,
     tv_KeyPair = (\<lambda>c k. if length k = 2 then None else Some (IOError 1)), tv_ReadFile = (\<lambda>p. Inl (IOError 2))\<rparr>"

theorem self_signed_stable_witness:
  "getSelfSignedCert (sample_tls\<lparr>tv_generate := Inr ([7], [8])\<rparr>) (snd (getSelfSignedCert sample_tls (None, None))) =
     (Inr ([1], [2, 3]), (Some [1], Some [2, 3]))"
proof -
  have first: "getSelfSignedCert sample_tls (None, None) = (Inr ([1], [2, 3]), (Some [1], Some [2, 3]))"
    by (simp add: getSelfSignedCert_def sample_tls_def written_def)
  show ?thesis using self_signed_stable [OF first] first by (simp add: sample_tls_def)
qed

theorem partial_key_is_permanent_witness:
  "\<exists>fs. NewSelfSignedTLSConfig (sample_tls\<lparr>tv_writeKey := Some (1, IOError 28)\<rparr>) (None, None) = (Inl (IOError 28), fs) \<and>
    NewSelfSignedTLSConfig sample_tls fs = (Inl (IOError 1), fs)"
  by (rule partial_key_is_permanent [of _ "[1]" "[2, 3]" 1]) (simp_all add: sample_tls_def)

section \<open>Closing\<close>

text \<open>
  Every server closes all its listeners after the lifetime was cancelled and the connections were closed, and only
  then waits for the handlers; a second call does nothing and returns the same errors.
\<close>

lemma close_order:
  assumes "(errs, es) \<in> {http_close en ls, socks_close en ls, auto_close en ls}"
  shows "\<exists>rest. es = [Cancel, CloseConnections] @ map CloseListener ls @ rest \<and> WaitHandlers \<in> set rest"
  using assms by (auto simp: http_close_def socks_close_def auto_close_def)

lemma close_once_twice: "close_once r None = (errs, es, st) \<Longrightarrow> close_once r' st = (errs, [], st)"
  by (auto simp: close_once_def)

end
