(* ===== verification/Commands.thy ===== *)
theory Commands
  imports Cli Daemon Update Servers
begin

text \<open>
  Model of the commands of \<open>main.go\<close>: the tree of commands that \<open>main\<close> registers and the function behind each of them, on the
  configuration (\<open>Cli\<close>), the server (\<open>Startup\<close>), the daemon (\<open>Daemon\<close>) and the updater (\<open>Update\<close>). Cobra, which finds the
  command and parses its flags, is the parameter \<open>parse\<close>.
\<close>

section \<open>Definitions\<close>

datatype exec = ExecRun | ExecStart | ExecRestart | ExecStop | ExecPS | ExecLog | ExecSelfUpdate | ExecSelfUninstall

definition newProxyCommand :: "gostring \<Rightarrow> exec \<Rightarrow> (gostring list \<times> exec) list" where
  "newProxyCommand use ex = map (\<lambda>p. ([use, bytes_of p], ex)) [''http'', ''https'', ''socks5'', ''auto'']"

definition rootCmd :: "gostring \<Rightarrow> (gostring list \<times> exec) list" where
  "rootCmd goos =
     newProxyCommand (bytes_of ''run'') ExecRun @
     (if goos \<noteq> bytes_of ''windows'' then
        newProxyCommand (bytes_of ''start'') ExecStart @ newProxyCommand (bytes_of ''restart'') ExecRestart @
        [([bytes_of ''stop''], ExecStop), ([bytes_of ''ps''], ExecPS), ([bytes_of ''log''], ExecLog)]
      else []) @
     [([bytes_of ''self'', bytes_of ''update''], ExecSelfUpdate), ([bytes_of ''self'', bytes_of ''uninstall''], ExecSelfUninstall)]"

text \<open>\<open>cmd.CommandPath()\<close>: the names from the root on, with single spaces.\<close>

definition CommandPath :: "gostring list \<Rightarrow> gostring" where
  "CommandPath names = bytes_of ''outway'' @ concat (map (\<lambda>n. 32 # n) names)"

text \<open>
  The environment of a command: what the operating system answers the server, the daemon and the updater, the pid of a child
  that is started with the given arguments, and the times. The state: the files, and what the server has done.
\<close>

record 't cmd_env =
  cv_goos :: gostring
  cv_run :: "'t run_env"
  cv_daemon :: daemon_env
  cv_spawn :: "gostring list \<Rightarrow> nat option"
  cv_update :: update_env
  cv_now :: nat
  cv_stopped :: nat

record machine =
  mc_daemon :: daemon_state
  mc_files :: file_system
  mc_run :: "run_effect list"

datatype cmd_error = UsageError | FlagError go_error | RunError "go_error list" | DaemonError daemon_error | UpdateError update_error

definition child_env :: "'t cmd_env \<Rightarrow> gostring list \<Rightarrow> daemon_env" where
  "child_env en runArgs = (cv_daemon en)\<lparr>dv_spawn := cv_spawn en runArgs\<rparr>"

definition daemon_result :: "machine \<Rightarrow> (daemon_error option \<times> daemon_state) option \<Rightarrow> (cmd_error option \<times> machine) option" where
  "daemon_result m r = map_option (\<lambda>(err, s). (map_option DaemonError err, m\<lparr>mc_daemon := s\<rparr>)) r"

definition execRun :: "'t cmd_env \<Rightarrow> flags \<Rightarrow> gostring \<Rightarrow> machine \<Rightarrow> (cmd_error option \<times> machine) option" where
  "execRun en f path m = (case buildBootArgs (cv_goos en) f (proxyNameFromArgs path) of
      Inl err \<Rightarrow> Some (Some (FlagError err), m)
    | Inr args \<Rightarrow> (case Run (cv_run en) args of
        (errs, es) \<Rightarrow> Some (if errs = [] then None else Some (RunError errs), m\<lparr>mc_run := mc_run m @ es\<rparr>)))"

definition execStart :: "'t cmd_env \<Rightarrow> flags \<Rightarrow> gostring list \<Rightarrow> gostring \<Rightarrow> machine \<Rightarrow> (cmd_error option \<times> machine) option" where
  "execStart en f os_args path m = (case buildBootArgs (cv_goos en) f (proxyNameFromArgs path) of
      Inl err \<Rightarrow> Some (Some (FlagError err), m)
    | Inr _ \<Rightarrow> daemon_result m (Start (child_env en (buildRunArgsFromOSArgs os_args)) (cv_now en) (mc_daemon m)))"

definition execRestart :: "'t cmd_env \<Rightarrow> flags \<Rightarrow> gostring list \<Rightarrow> gostring \<Rightarrow> machine \<Rightarrow> (cmd_error option \<times> machine) option" where
  "execRestart en f os_args path m = (case buildBootArgs (cv_goos en) f (proxyNameFromArgs path) of
      Inl err \<Rightarrow> Some (Some (FlagError err), m)
    | Inr _ \<Rightarrow> daemon_result m (Restart (child_env en (buildRunArgsFromOSArgs os_args)) (cv_now en) (cv_stopped en) (mc_daemon m)))"

definition execStop :: "'t cmd_env \<Rightarrow> machine \<Rightarrow> (cmd_error option \<times> machine) option" where
  "execStop en m = daemon_result m (map_option (Pair None) (Stop (cv_daemon en) (cv_now en) (mc_daemon m)))"

definition execPS :: "'t cmd_env \<Rightarrow> machine \<Rightarrow> (cmd_error option \<times> machine) option" where
  "execPS en m = daemon_result m (Some (daemon_Status (cv_daemon en) (cv_now en) (mc_daemon m)))"

definition execLog :: "machine \<Rightarrow> (cmd_error option \<times> machine) option" where
  "execLog m = (case Log (mc_daemon m) of
     (err, out) \<Rightarrow> daemon_result m (Some (err, (mc_daemon m)\<lparr>ds_out := ds_out (mc_daemon m) @ out\<rparr>)))"

definition execSelfUpdate :: "'t cmd_env \<Rightarrow> machine \<Rightarrow> (cmd_error option \<times> machine) option" where
  "execSelfUpdate en m = (case Update (cv_update en) (mc_files m) of
     (err, fs) \<Rightarrow> Some (map_option UpdateError err, m\<lparr>mc_files := fs\<rparr>))"

definition execSelfUninstall :: "'t cmd_env \<Rightarrow> machine \<Rightarrow> (cmd_error option \<times> machine) option" where
  "execSelfUninstall en m = (case Uninstall (cv_update en) (mc_files m) of
     (err, fs) \<Rightarrow> Some (map_option UpdateError err, m\<lparr>mc_files := fs\<rparr>))"

definition execute :: "'t cmd_env \<Rightarrow> flags \<Rightarrow> gostring list \<Rightarrow> gostring \<Rightarrow> exec \<Rightarrow> machine \<Rightarrow> (cmd_error option \<times> machine) option" where
  "execute en f os_args path ex m = (case ex of
      ExecRun \<Rightarrow> execRun en f path m
    | ExecStart \<Rightarrow> execStart en f os_args path m
    | ExecRestart \<Rightarrow> execRestart en f os_args path m
    | ExecStop \<Rightarrow> execStop en m
    | ExecPS \<Rightarrow> execPS en m
    | ExecLog \<Rightarrow> execLog m
    | ExecSelfUpdate \<Rightarrow> execSelfUpdate en m
    | ExecSelfUninstall \<Rightarrow> execSelfUninstall en m)"

text \<open>\<open>main\<close>: a command line cobra cannot parse is an error, a command without a function prints its usage.\<close>

definition command_main :: "'t cmd_env \<Rightarrow> (gostring list \<Rightarrow> (gostring list \<times> flags) option) \<Rightarrow> gostring list \<Rightarrow> machine
    \<Rightarrow> (cmd_error option \<times> machine) option" where
  "command_main en parse os_args m = (case parse os_args of
      None \<Rightarrow> Some (Some UsageError, m)
    | Some (names, f) \<Rightarrow> (case map_of (rootCmd (cv_goos en)) names of
        None \<Rightarrow> Some (None, m)
      | Some ex \<Rightarrow> execute en f os_args (CommandPath names) ex m))"

section \<open>Lemmas\<close>

abbreviation proxy_commands :: "string list" where
  "proxy_commands \<equiv> [''run'', ''start'', ''restart'']"

abbreviation proxy_names :: "string list" where
  "proxy_names \<equiv> [''http'', ''https'', ''socks5'', ''auto'']"

lemma proxyNameFromArgs_leaf:
  "list_all (\<lambda>c. list_all (\<lambda>p. proxyNameFromArgs (CommandPath [bytes_of c, bytes_of p]) = bytes_of p) proxy_names) proxy_commands"
  by code_simp

lemma proxyNameFromArgs_command:
  "c \<in> set proxy_commands \<Longrightarrow> p \<in> set proxy_names \<Longrightarrow> proxyNameFromArgs (CommandPath [bytes_of c, bytes_of p]) = bytes_of p"
  using proxyNameFromArgs_leaf unfolding list_all_iff by blast

lemma rootCmd_lookup:
  "goos \<noteq> bytes_of ''windows'' \<Longrightarrow> list_all (\<lambda>p. map_of (rootCmd goos) [bytes_of ''run'', bytes_of p] = Some ExecRun \<and>
     map_of (rootCmd goos) [bytes_of ''start'', bytes_of p] = Some ExecStart \<and>
     map_of (rootCmd goos) [bytes_of ''restart'', bytes_of p] = Some ExecRestart) proxy_names"
  by (simp add: rootCmd_def newProxyCommand_def bytes_of_def)


definition sample_commands :: "route list cmd_env" where
  "sample_commands = \<lparr>cv_goos = bytes_of ''linux'', cv_run = sample_run, cv_daemon = sample_daemon, cv_spawn = (\<lambda>args. Some 77),
     cv_update = sample_update, cv_now = 0, cv_stopped = 5\<rparr>"

definition sample_parse :: "gostring list \<Rightarrow> (gostring list \<times> flags) option" where
  "sample_parse args = (if length args = 3 then Some (tl args, default_flags (bytes_of ''linux'')) else None)"


text \<open>The routes are set up before the server serves.\<close>

lemma Run_routed_first:
  assumes "Run en args = (errs, es)" "Serving kind \<in> set es" "ba_CIDR args = Some c"
  shows "\<exists>pre post. es = pre @ Routed c # post \<and> Serving kind \<notin> set pre"
proof -
  obtain lim set_to where p: "prepareResourceLimitsUnix (rn_getrlimit en) (rn_setrlimit en) args = (lim, set_to)"
    by (cases "prepareResourceLimitsUnix (rn_getrlimit en) (rn_setrlimit en) args")
  obtain rs where c: "run_cidr en (Some c) = (Inr (), rs)" using Run_serving [OF assms(1,2)] assms(3) by auto
  have r: "rs = [Routed c]" using c by (auto simp: run_cidr_def split: sum.splits)
  obtain nr bs where n: "newProxyServer en (pc_Kind (ba_Proxy args)) = (nr, bs)"
    by (cases "newProxyServer en (pc_Kind (ba_Proxy args))")
  let ?pre = "case set_to of None \<Rightarrow> [] | Some l \<Rightarrow> [SetLimit l]"
  have "Serving kind \<notin> set ?pre" by (simp split: option.split)
  moreover have "Validate args = Inr () \<and> lim = Inr ()"
    using Run_serving [OF assms(1,2)] p by auto
  then have "\<exists>post. es = ?pre @ Routed c # post"
    using assms p c r n by (cases nr; cases "rn_serve en") (auto simp: Run_def Let_def)
  ultimately show ?thesis by blast
qed

end
