(* ===== verification/Spec2Isabelle.thy ===== *)
theory Spec2Isabelle
  imports Reactor Commands
begin

text \<open>
  Verification of the outway proxy server (a Go program, sources under \<open>src/\<close>): an HTTP, HTTPS and SOCKS5 proxy that picks the source
  address of every outbound connection from a configured CIDR, as the user name of the client asks for.

  \<^bold>\<open>The program and its model.\<close> \<open>main.go\<close> turns flags into boot arguments and calls the server, the daemon or the updater.
  \<open>server.Run\<close> raises the limits, sets up routes, and starts one of three servers. Their accept loops hand a connection to the SOCKS5 session, to
  the HTTP handler, or to the one the first byte selects; each authenticates the client, reads the extension of its user name, dials the
  target through the connector, and copies bytes. SOCKS5 UDP associations relay datagrams with batch I/O, a shared
  epoll reactor and shared send workers.

  The theories, in the order of their imports, with what they model:

  \<^item> \<open>Prelude\<close>, \<open>Netip\<close>, \<open>NetipParse\<close>, \<open>GoStrings\<close>: Go strings as byte lists, errors, readers, buffered channels, and the parts of the Go standard library
    the program calls. The interfaces \<open>byte_codec\<close>, \<open>canonical_codec\<close>, \<open>semaphore\<close> and \<open>step_runs\<close> are locales here.
  \<^item> \<open>Ext\<close> (\<open>internal/ext\<close>): the hash and the parser of extensions. \<open>Uint128\<close>, \<open>Uint128_Mod\<close>, \<open>SourceSelect\<close> (\<open>internal/connect/connect.go\<close> from
    \<open>assignSourceIP\<close> on, \<open>internal/randx\<close>): 128-bit arithmetic at its width and the selection of a source address. Shown: the address lies in the
    CIDR, is the same for the same session, and a range extension pins a sub-network.
  \<^item> \<open>Config\<close> (\<open>internal/config\<close>), \<open>Cli\<close> and \<open>Commands\<close> (\<open>main.go\<close>): boot arguments, their validation and their construction from flags; the tree of commands
    and the function behind each. Shown: a daemon is run with the configuration that was checked, and invalid flags change nothing.
  \<^item> \<open>Proto\<close>, \<open>Handshake\<close> (\<open>internal/server/socks/proto\<close>, \<open>auth.go\<close>, \<open>conn.go\<close>): the SOCKS5 messages as readers and writers with their errors, and
    authentication. Shown: encodings are canonical, the two parsers of UDP headers agree, and nobody gets in without the password.
  \<^item> \<open>ServerBase\<close> (\<open>internal/serverbase\<close>): listeners, the connection gate, the sharded registry, the bidirectional copy. \<open>AcceptLoop\<close> (\<open>Start\<close>, \<open>acceptLoop\<close> and
    \<open>Close\<close> of \<open>socks/server.go\<close>; the loops of the other two servers have the same steps): all interleavings of loops, handlers and shutdown. Shown: exact accounting
    of slots and connections, and a shutdown after which nothing is open and nothing blocks.
  \<^item> \<open>DnsCache\<close>, \<open>Dial\<close> (\<open>dns_cache.go\<close>, \<open>connect.go\<close>): single-flight lookups and the staggered races of dials, over all
    interleavings. Shown: bounds, no lost wake-up, no leaked connection, termination, and that one race refines the other.
  \<^item> \<open>Session\<close> (\<open>handle\<close>, \<open>handleConnect\<close>, \<open>handleBind\<close>, \<open>handleUDP\<close>): a session as the list of its effects. Shown: everything opened is closed on every path, and CONNECT
    loses no byte.
  \<^item> \<open>UdpRuntime\<close>, \<open>UdpIo\<close>, \<open>UdpRelay\<close>, \<open>Reactor\<close> (\<open>udp_runtime.go\<close>, \<open>udp_io*.go\<close>, \<open>udp_gso_linux.go\<close>, \<open>udp_gro_linux.go\<close>, the pumps of \<open>server.go\<close>, \<open>udp_reactor_linux.go\<close>):
    association slots, buffers, queues, batched reads and writes, authorisation and the epoll reactor. Shown: buffers and slots are accounted for, only
    authorised payloads are forwarded, coalesced reads are split back, and no handler uses a closed socket.
  \<^item> \<open>HttpAuth\<close>, \<open>TransportPool\<close>, \<open>Http\<close> (\<open>internal/server/http\<close>, \<open>internal/server/auto.go\<close>): authentication, hop-by-hop headers, the pool of transports, the request
    loop and protocol detection. Shown: acceptance exactly for the credentials, no header leak, the pool is a least-recently-used cache.
  \<^item> \<open>Startup\<close> (\<open>run.go\<close>, \<open>resources_unix.go\<close>, \<open>route_linux.go\<close>), \<open>Servers\<close> (constructors and \<open>Close\<close> of the servers, \<open>tls.go\<close>, \<open>genca.go\<close>): the way to serving. Shown: only
    what was checked is served, the descriptors suffice, routes are set up once, and listeners are kept or closed together.
  \<^item> \<open>ProcStatus\<close>, \<open>Daemon\<close> (\<open>internal/daemon\<close>), \<open>Update\<close> (\<open>internal/oneself\<close>, the release workflow): pid file, start and stop, log and status; the self-update over
    a file system. Shown: one daemon at a time, and an update that is complete or has no effect.

  \<^bold>\<open>State and operations.\<close> A struct is a record and an operation a function with the name it has in the source, with a prefix or suffix where names clash. Fallible code
  returns \<open>Inl\<close> of the error; a panic, \<open>os.Exit\<close> or a step that would block is \<open>None\<close>. Goroutines are step functions over one state, one event for each part
  between two synchronisations, and a statement about concurrent code holds for all lists of events. What the environment answers (kernel, network,
  clock, random words, map iteration order, cobra, netlink, \<open>net/http\<close> parsing, TLS, gzip and tar) is an argument of the definitions;
  hypotheses about it state documented behaviour, and every witness instantiates them.

  \<^bold>\<open>Bounds.\<close> Integers have the width of the source wherever they may wrap. No definition uses fuel: loops recurse structurally, or on a measure with a
  termination proof. The counter of the transport pool is assumed not to wrap (fewer than \<open>2 ^ 64\<close> requests).

  \<^bold>\<open>Not modelled.\<close> The socket options and the copy per platform (\<open>sockopts_*.go\<close>, \<open>sockbuf*.go\<close>, \<open>copy_*.go\<close>, \<open>reuseport_*.go\<close>) are single system calls, and the stubs for other platforms
  return at once. \<open>generateSelfSigned\<close> only calls the cryptographic library. Log output, the pools of buffered readers and writers
  and the floating point percentages of \<open>outway ps\<close> are not visible to any other component.
\<close>

section \<open>Properties that span components\<close>

lemma built_range_ok:
  assumes "buildBootArgs goos f proxyName = Inr args" "ba_CIDR args = Some cidr"
  shows "range_ok cidr (ba_CIDRRange args)"
  using buildBootArgs_ok(1) [OF assms(1)] assms(2) by (auto simp: boot_ok_def range_ok_def split: option.splits)

text \<open>
  C1. Every source address stays in the configured CIDR: for a configuration the command line
  accepts, whatever the extension of the user name and whatever the random generator returns, the
  address \<open>assignSourceIP\<close> selects lies in the CIDR.
\<close>

theorem source_address_in_configured_cidr:
  assumes "buildBootArgs goos f proxyName = Inr args" "ba_CIDR args = Some cidr"
  shows "PrefixContains cidr (assignSourceIP rd cidr (ba_CIDRRange args) e)"
  by (rule assignSourceIP_in_cidr [OF buildBootArgs_ok(2) [OF assms] built_range_ok [OF assms]])

theorem source_address_in_configured_cidr_witness:
  "PrefixContains \<lparr>pf_addr = V6 0x20010db8000000000000000000000000 [], pf_bits = 32\<rparr>
     (assignSourceIP \<lparr>rand_Uint32 = 1, rand_Uint64 = 2, rand_Uint64' = 3\<rparr>
        \<lparr>pf_addr = V6 0x20010db8000000000000000000000000 [], pf_bits = 32\<rparr> (Some 48)
        \<lparr>ext_type = ExtRange, ext_value = 0x123456\<rparr>)"
proof -
  let ?f = "(default_flags (bytes_of ''linux''))\<lparr>flagCIDR := bytes_of ''2001:db8::/32'', flagCIDRRange := 48\<rparr>"
  obtain args where "buildBootArgs (bytes_of ''linux'') ?f (bytes_of ''socks5'') = Inr args"
    "ba_CIDR args = Some \<lparr>pf_addr = V6 0x20010db8000000000000000000000000 [], pf_bits = 32\<rparr>"
    "ba_CIDRRange args = Some 48"
    by (simp add: build_defs Validate_def BitLen_def)
  from source_address_in_configured_cidr [OF this(1,2)] this(3) show ?thesis by simp
qed

text \<open>
  C8. The server sends only from addresses it has prepared: when \<open>outway run\<close> comes to serving with a source CIDR, the routes for that CIDR have
  been set up before, and every source address that is selected for a session, whatever its extension and the random draws,
  lies in it.
\<close>

theorem served_sources_routed:
  assumes "execRun en f path m = Some (err, m')" "mc_run m = []" "Serving kind \<in> set (mc_run m')"
  shows "\<exists>args. buildBootArgs (cv_goos en) f (proxyNameFromArgs path) = Inr args \<and>
    (\<forall>cidr. ba_CIDR args = Some cidr \<longrightarrow> (\<exists>pre post. mc_run m' = pre @ Routed cidr # post \<and> Serving kind \<notin> set pre) \<and>
      (\<forall>rd e. PrefixContains cidr (assignSourceIP rd cidr (ba_CIDRRange args) e)))"
proof -
  obtain args where b: "buildBootArgs (cv_goos en) f (proxyNameFromArgs path) = Inr args"
    using assms by (cases "buildBootArgs (cv_goos en) f (proxyNameFromArgs path)") (auto simp: execRun_def)
  obtain errs es where r: "Run (cv_run en) args = (errs, es)" by (cases "Run (cv_run en) args")
  have es: "mc_run m' = es" using assms(1,2) b r by (auto simp: execRun_def)
  show ?thesis
    using b Run_routed_first [OF r] assms(3) built_range_ok [OF b] buildBootArgs_ok(2) [OF b] assignSourceIP_in_cidr unfolding es by blast
qed

definition sample_flags :: flags where
  "sample_flags = (default_flags (bytes_of ''linux''))\<lparr>flagCIDR := bytes_of ''2001:db8::/32'', flagCIDRRange := 48\<rparr>"

abbreviation sample_cidr :: net_prefix where
  "sample_cidr \<equiv> \<lparr>pf_addr = V6 0x20010db8000000000000000000000000 [], pf_bits = 32\<rparr>"

lemma sample_built:
  obtains args where "buildBootArgs (bytes_of ''linux'') sample_flags (bytes_of ''socks5'') = Inr args"
    "ba_CIDR args = Some sample_cidr" "ba_CIDRRange args = Some 48" "ba_Concurrent args = 8192" "pc_Kind (ba_Proxy args) = ProxySocks5"
    "ba_UDP args = DefaultUDPConfig"
  unfolding sample_flags_def by (simp add: build_defs Validate_def BitLen_def)

lemma sample_served:
  assumes "Validate args = Inr ()" "ba_CIDR args = Some sample_cidr" "ba_Concurrent args = 8192" "pc_Kind (ba_Proxy args) = ProxySocks5"
    "ba_UDP args = DefaultUDPConfig"
  shows "\<exists>es. Run sample_run args = ([], es) \<and> Serving ProxySocks5 \<in> set es"
proof -
  have v: "prefix_valid sample_cidr" by (simp add: prefix_valid_def IsValid_def Zone_def BitLen_def)
  show ?thesis using assms sample_route_added [OF v]
    by (auto simp: Run_def sample_run_def run_cidr_def configureRoutesLinux_def sysctlSet_def validateSourceCIDRLinux_def newProxyServer_def
      prepareResourceLimitsUnix_def requiredDescriptors_def DefaultUDPConfig_def errors_Join_def Let_def)
qed

theorem served_sources_routed_witness:
  "\<exists>m'. execRun sample_commands sample_flags (CommandPath [bytes_of ''run'', bytes_of ''socks5''])
      \<lparr>mc_daemon = sample_files, mc_files = Map.empty, mc_run = []\<rparr> = Some (None, m') \<and>
    Serving ProxySocks5 \<in> set (mc_run m') \<and> Routed sample_cidr \<in> set (mc_run m') \<and>
    PrefixContains sample_cidr (assignSourceIP \<lparr>rand_Uint32 = 1, rand_Uint64 = 2, rand_Uint64' = 3\<rparr> sample_cidr (Some 48) \<lparr>ext_type = ExtRange, ext_value = 0x123456\<rparr>)"
proof -
  let ?m = "\<lparr>mc_daemon = sample_files, mc_files = Map.empty, mc_run = []\<rparr>"
  let ?path = "CommandPath [bytes_of ''run'', bytes_of ''socks5'']"
  have name: "proxyNameFromArgs ?path = bytes_of ''socks5''" by (rule proxyNameFromArgs_command) simp_all
  obtain args where a: "buildBootArgs (bytes_of ''linux'') sample_flags (bytes_of ''socks5'') = Inr args"
    "ba_CIDR args = Some sample_cidr" "ba_CIDRRange args = Some 48" "ba_Concurrent args = 8192" "pc_Kind (ba_Proxy args) = ProxySocks5"
    "ba_UDP args = DefaultUDPConfig" by (rule sample_built)
  have "Validate args = Inr ()" using buildBootArgs_ok(1) [OF a(1)] by (simp add: Validate_iff)
  from sample_served [OF this a(2,4-6)] obtain es where r: "Run sample_run args = ([], es)" "Serving ProxySocks5 \<in> set es" by blast
  have e: "execRun sample_commands sample_flags ?path ?m = Some (None, ?m\<lparr>mc_run := es\<rparr>)"
    using a(1) name r(1) by (simp add: execRun_def sample_commands_def)
  have "cv_goos sample_commands = bytes_of ''linux''" by (simp add: sample_commands_def)
  then show ?thesis using served_sources_routed [OF e] r(2) a name e by fastforce
qed

end
